(* ===== verification/Prelude.thy ===== *)
theory Prelude
  imports Main
begin

text \<open>
  Shared vocabulary of the development: collections of rewrite rules, the pieces of Go's
  standard library that several components call, and generic lemmas on lists and options.

  A Go \<^verbatim>\<open>string\<close> is a sequence of bytes, so it is a HOL \<^typ>\<open>string\<close> (a list of
  8-bit characters). Functions of \<^verbatim>\<open>strings\<close> that look at runes are written on
  the UTF-8 bytes.
\<close>

named_theorems go_simps \<open>definitions of the modelled Go operations\<close>
named_theorems inv_defs \<open>unfolding rules of component invariants\<close>

section \<open>Results\<close>

text \<open>A Go function returning \<^verbatim>\<open>(value, error)\<close> is a sum, \<^const>\<open>Inl\<close> being the error.\<close>

type_synonym ('e, 'a) result = "'e + 'a"

definition is_err :: "('e, 'a) result \<Rightarrow> bool" where
  "is_err r = (case r of Inl _ \<Rightarrow> True | Inr _ \<Rightarrow> False)"

lemma is_err_simps [simp]: "is_err (Inl e)" "\<not> is_err (Inr a)"
  by (simp_all add: is_err_def)

section \<open>strings: prefixes, suffixes, containment\<close>

definition hasPrefix :: "string \<Rightarrow> string \<Rightarrow> bool" where
  "hasPrefix s p = (take (length p) s = p)"

definition hasSuffix :: "string \<Rightarrow> string \<Rightarrow> bool" where
  "hasSuffix s p = hasPrefix (rev s) (rev p)"

definition trimPrefix :: "string \<Rightarrow> string \<Rightarrow> string" where
  "trimPrefix s p = (if hasPrefix s p then drop (length p) s else s)"

fun contains :: "string \<Rightarrow> string \<Rightarrow> bool" where
  "contains [] p = (p = [])"
| "contains (c # s) p = (hasPrefix (c # s) p \<or> contains s p)"

lemma hasPrefix_iff: "hasPrefix s p \<longleftrightarrow> (\<exists>t. s = p @ t)"
proof
  assume "hasPrefix s p"
  then have "s = p @ drop (length p) s"
    unfolding hasPrefix_def by (metis append_take_drop_id)
  then show "\<exists>t. s = p @ t" ..
qed (auto simp: hasPrefix_def)

lemma hasPrefix_append [simp]: "hasPrefix (p @ t) p"
  by (auto simp: hasPrefix_iff)

lemma hasPrefix_Nil [simp]: "hasPrefix s []"
  by (simp add: hasPrefix_def)

lemma hasPrefix_Nil_left [simp]: "hasPrefix [] p \<longleftrightarrow> p = []"
  by (auto simp: hasPrefix_iff)

lemma hasPrefix_Cons [simp]: "hasPrefix (c # s) (d # p) \<longleftrightarrow> c = d \<and> hasPrefix s p"
  by (auto simp: hasPrefix_iff)

lemma hasSuffix_iff: "hasSuffix s p \<longleftrightarrow> (\<exists>t. s = t @ p)"
  unfolding hasSuffix_def hasPrefix_iff by (metis rev_append rev_rev_ident)

lemma contains_iff: "contains s p \<longleftrightarrow> (\<exists>u v. s = u @ p @ v)"
proof (induction s)
  case Nil
  then show ?case by auto
next
  case (Cons c s)
  have "(\<exists>u v. c # s = u @ p @ v) \<longleftrightarrow> hasPrefix (c # s) p \<or> (\<exists>u v. s = u @ p @ v)"
    unfolding hasPrefix_iff by (auto simp: Cons_eq_append_conv)
  with Cons.IH show ?case by simp
qed

lemma trimPrefix_append [simp]: "trimPrefix (p @ t) p = t"
  by (simp add: trimPrefix_def)

section \<open>unicode.IsSpace, strings.TrimSpace\<close>

text \<open>
  The white space runes of \<^verbatim>\<open>unicode.IsSpace\<close> as UTF-8 byte sequences: the six ASCII
  ones, U+0085, U+00A0, U+1680, U+2000 to U+200A, U+2028, U+2029, U+202F, U+205F, U+3000.
\<close>

definition spaceRunes :: "string list" where
  "spaceRunes =
     [[CHR 0x20], [CHR 0x09], [CHR 0x0A], [CHR 0x0B], [CHR 0x0C], [CHR 0x0D],
      [CHR 0xC2, CHR 0x85], [CHR 0xC2, CHR 0xA0], [CHR 0xE1, CHR 0x9A, CHR 0x80],
      [CHR 0xE2, CHR 0x80, CHR 0x80], [CHR 0xE2, CHR 0x80, CHR 0x81],
      [CHR 0xE2, CHR 0x80, CHR 0x82], [CHR 0xE2, CHR 0x80, CHR 0x83],
      [CHR 0xE2, CHR 0x80, CHR 0x84], [CHR 0xE2, CHR 0x80, CHR 0x85],
      [CHR 0xE2, CHR 0x80, CHR 0x86], [CHR 0xE2, CHR 0x80, CHR 0x87],
      [CHR 0xE2, CHR 0x80, CHR 0x88], [CHR 0xE2, CHR 0x80, CHR 0x89],
      [CHR 0xE2, CHR 0x80, CHR 0x8A], [CHR 0xE2, CHR 0x80, CHR 0xA8],
      [CHR 0xE2, CHR 0x80, CHR 0xA9], [CHR 0xE2, CHR 0x80, CHR 0xAF],
      [CHR 0xE2, CHR 0x81, CHR 0x9F], [CHR 0xE3, CHR 0x80, CHR 0x80]]"

text \<open>How many bytes the first rune that matches one of the byte sequences takes; 0 for none.\<close>

fun runeLenIn :: "string list \<Rightarrow> string \<Rightarrow> nat" where
  "runeLenIn [] s = 0"
| "runeLenIn (r # rs) s = (if hasPrefix s r then length r else runeLenIn rs s)"

text \<open>Strip leading matching runes; every byte sequence is non-empty, so the string shrinks.\<close>

function trimRunes :: "string list \<Rightarrow> string \<Rightarrow> string" where
  "trimRunes rs s = (if s = [] \<or> runeLenIn rs s = 0 then s else trimRunes rs (drop (runeLenIn rs s) s))"
  by pat_completeness auto
termination
  by (relation "measure (\<lambda>(rs, s). length s)") auto

declare trimRunes.simps [simp del]

definition trimLeftSpace :: "string \<Rightarrow> string" where
  "trimLeftSpace s = trimRunes spaceRunes s"

definition trimRightSpace :: "string \<Rightarrow> string" where
  "trimRightSpace s = rev (trimRunes (map rev spaceRunes) (rev s))"

definition trimSpace :: "string \<Rightarrow> string" where
  "trimSpace s = trimRightSpace (trimLeftSpace s)"

lemma trimRunes_suffix: "\<exists>t. s = t @ trimRunes rs s"
proof (induction rs s rule: trimRunes.induct)
  case (1 rs s)
  show ?case
  proof (cases "s = [] \<or> runeLenIn rs s = 0")
    case True
    then show ?thesis by (simp add: trimRunes.simps [of rs s])
  next
    case False
    with "1.IH" obtain t where
      "drop (runeLenIn rs s) s = t @ trimRunes rs (drop (runeLenIn rs s) s)" by blast
    then have "s = (take (runeLenIn rs s) s @ t) @ trimRunes rs s"
      using False by (metis append_assoc append_take_drop_id trimRunes.simps)
    then show ?thesis ..
  qed
qed

lemma trimRunes_done: "runeLenIn rs (trimRunes rs s) = 0 \<or> trimRunes rs s = []"
proof (induction rs s rule: trimRunes.induct)
  case (1 rs s)
  then show ?case
    by (cases "s = [] \<or> runeLenIn rs s = 0") (auto simp: trimRunes.simps [of rs s])
qed

lemma trimRunes_idem [simp]: "trimRunes rs (trimRunes rs s) = trimRunes rs s"
  using trimRunes_done [of rs s] by (subst trimRunes.simps) auto

lemma trimSpace_infix: "\<exists>u v. s = u @ trimSpace s @ v"
proof -
  obtain t where t: "s = t @ trimLeftSpace s"
    unfolding trimLeftSpace_def using trimRunes_suffix by blast
  obtain r where "rev (trimLeftSpace s) = r @ trimRunes (map rev spaceRunes) (rev (trimLeftSpace s))"
    using trimRunes_suffix by blast
  then have "trimLeftSpace s = trimSpace s @ rev r"
    unfolding trimSpace_def trimRightSpace_def by (metis rev_append rev_rev_ident)
  with t have "s = t @ trimSpace s @ rev r" by simp
  then show ?thesis by blast
qed

lemma length_trimSpace: "length (trimSpace s) \<le> length s"
  using trimSpace_infix [of s] by (metis length_append le_add1 le_add2 le_trans)

lemma runeLenIn_0:
  "\<forall>r\<in>set rs. r \<noteq> [] \<Longrightarrow> runeLenIn rs s = 0 \<longleftrightarrow> (\<forall>r\<in>set rs. \<not> hasPrefix s r)"
  by (induction rs) auto

lemma spaceRunes_nonempty: "\<forall>r\<in>set spaceRunes. r \<noteq> []" "\<forall>r\<in>set (map rev spaceRunes). r \<noteq> []"
  by (simp_all add: spaceRunes_def)

lemma trimRunes_fix: "runeLenIn rs s = 0 \<Longrightarrow> trimRunes rs s = s"
  by (simp add: trimRunes.simps [of rs s])

lemma runeLenIn_Nil: "\<forall>r\<in>set rs. r \<noteq> [] \<Longrightarrow> runeLenIn rs [] = 0"
  by (induction rs) auto

text \<open>What \<^const>\<open>trimSpace\<close> returns starts and ends with no white space, and is a fixed point.\<close>

lemma trimSpace_done:
  "runeLenIn spaceRunes (trimSpace s) = 0" "runeLenIn (map rev spaceRunes) (rev (trimSpace s)) = 0"
proof -
  let ?l = "trimLeftSpace s"
  obtain r where "rev ?l = r @ trimRunes (map rev spaceRunes) (rev ?l)" using trimRunes_suffix by blast
  then have pre: "?l = trimSpace s @ rev r"
    unfolding trimSpace_def trimRightSpace_def by (metis rev_append rev_rev_ident)
  have "\<forall>x\<in>set spaceRunes. \<not> hasPrefix ?l x"
    using trimRunes_done [of spaceRunes s] runeLenIn_Nil [OF spaceRunes_nonempty(1)]
      runeLenIn_0 [OF spaceRunes_nonempty(1)] unfolding trimLeftSpace_def by fastforce
  then have "\<forall>x\<in>set spaceRunes. \<not> hasPrefix (trimSpace s) x"
    by (subst (asm) pre) (auto simp: hasPrefix_iff)
  then show "runeLenIn spaceRunes (trimSpace s) = 0" using runeLenIn_0 [OF spaceRunes_nonempty(1)] by blast
  show "runeLenIn (map rev spaceRunes) (rev (trimSpace s)) = 0"
    using trimRunes_done [of "map rev spaceRunes" "rev ?l"] runeLenIn_Nil [OF spaceRunes_nonempty(2)]
    by (auto simp: trimSpace_def trimRightSpace_def)
qed

lemma trimSpace_fix:
  "runeLenIn spaceRunes s = 0 \<Longrightarrow> runeLenIn (map rev spaceRunes) (rev s) = 0 \<Longrightarrow> trimSpace s = s"
  by (simp add: trimSpace_def trimLeftSpace_def trimRightSpace_def trimRunes_fix)

lemma trimSpace_idem [simp]: "trimSpace (trimSpace s) = trimSpace s"
  by (rule trimSpace_fix [OF trimSpace_done])

lemma trimSpace_Nil [simp]: "trimSpace [] = []"
  by (rule trimSpace_fix) (simp_all add: runeLenIn_Nil spaceRunes_nonempty del: set_map)

section \<open>strings.ToLower\<close>

text \<open>
  ASCII letters are mapped one by one. Outside ASCII two runes have an ASCII lower case,
  U+212A (Kelvin sign, to \<^verbatim>\<open>k\<close>) and U+0130 (dotted I, to \<^verbatim>\<open>i\<close>); every other
  rune outside ASCII stays outside ASCII and is left as it is. The components compare lowered
  strings with ASCII literals only, and on those comparisons this is exactly Go's result.
\<close>

definition lowerByte :: "char \<Rightarrow> char" where
  "lowerByte c = (let n = of_char c :: nat in if 65 \<le> n \<and> n \<le> 90 then char_of (n + 32) else c)"

fun toLower :: "string \<Rightarrow> string" where
  "toLower [] = []"
| "toLower (c # s) =
     (if c = CHR 0xE2 \<and> hasPrefix s [CHR 0x84, CHR 0xAA] then CHR ''k'' # toLower (drop 2 s)
      else if c = CHR 0xC4 \<and> hasPrefix s [CHR 0xB0] then CHR ''i'' # toLower (drop 1 s)
      else lowerByte c # toLower s)"

section \<open>Transition systems\<close>

text \<open>
  The reachable states of a component given by its initial states and its step relation, and the
  interface through which every component proves its invariant: it provides an invariant that
  the initial states satisfy and every step keeps, and obtains it for all reachable states.
\<close>

inductive reach :: "('s \<Rightarrow> bool) \<Rightarrow> ('s \<Rightarrow> 's \<Rightarrow> bool) \<Rightarrow> 's \<Rightarrow> bool" for init step where
  reach_init: "init s \<Longrightarrow> reach init step s"
| reach_step: "reach init step s \<Longrightarrow> step s t \<Longrightarrow> reach init step t"

locale inductive_invariant =
  fixes init :: "'s \<Rightarrow> bool" and step :: "'s \<Rightarrow> 's \<Rightarrow> bool" and inv :: "'s \<Rightarrow> bool"
  assumes inv_init: "init s \<Longrightarrow> inv s"
    and inv_step: "step s t \<Longrightarrow> inv s \<Longrightarrow> inv t"
begin

lemma reach_inv: "reach init step s \<Longrightarrow> inv s"
  by (induction rule: reach.induct) (auto intro: inv_init inv_step)

lemma path_inv: "step\<^sup>*\<^sup>* s t \<Longrightarrow> inv s \<Longrightarrow> inv t"
  by (induction rule: rtranclp.induct) (auto intro: inv_step)

lemma path_reach: "step\<^sup>*\<^sup>* s t \<Longrightarrow> reach init step s \<Longrightarrow> reach init step t"
  by (induction rule: rtranclp.induct) (auto intro: reach_step)

end

end
