(* ===== verification/Messages.thy ===== *)
theory Messages
  imports Prelude
begin

text \<open>
  The work items of the execution core: \<^verbatim>\<open>db.Message\<close> and \<^verbatim>\<open>db.Dispatch\<close>
  (\<^verbatim>\<open>services/eri/pkg/db\<close>), the session key of a thread, and the routing of an item to an
  effort tier and a pool (\<^verbatim>\<open>services/eri/pkg/queue/pool.go\<close>, \<^verbatim>\<open>burst.go\<close>).
  Times are integers (nanoseconds); counters are integers.
\<close>

section \<open>Records\<close>

record Message =
  ID :: string
  RowID :: int
  ThreadID :: string
  GuildID :: string
  AuthorID :: string
  AuthorName :: string
  Content :: string
  Summary :: string
  Status :: string
  RetryCount :: int
  RestartCount :: int
  Effort :: string
  ErrorMessage :: string
  ResponseText :: string
  ConversationID :: string
  ChannelID :: string
  ChannelName :: string
  ThreadName :: string
  AuthorGlobalName :: string
  AuthorBot :: bool
  IsAdmin :: bool
  Mentions :: "string list"
  MentionUserIDs :: "string list"
  MentionRoleIDs :: "string list"
  ReplyingToAuthor :: string
  ReplyingToContent :: string
  Attachments :: "string list"
  Model :: string
  CreatedAt :: int
  UpdatedAt :: int

record Dispatch =
  d_ID :: string
  d_RowID :: int
  d_Source :: string
  d_SessionID :: string
  d_ConversationID :: string
  d_Prompt :: string
  d_Summary :: string
  d_Effort :: string
  d_Model :: string
  d_Status :: string
  d_RetryCount :: int
  d_RestartCount :: int
  d_ErrorMessage :: string
  d_ResponseText :: string
  d_CreatedAt :: int
  d_UpdatedAt :: int

definition zeroMessage :: Message where
  "zeroMessage = \<lparr>ID = '''', RowID = 0, ThreadID = '''', GuildID = '''', AuthorID = '''', AuthorName = '''',
     Content = '''', Summary = '''', Status = '''', RetryCount = 0, RestartCount = 0, Effort = '''',
     ErrorMessage = '''', ResponseText = '''', ConversationID = '''', ChannelID = '''', ChannelName = '''',
     ThreadName = '''', AuthorGlobalName = '''', AuthorBot = False, IsAdmin = False, Mentions = [],
     MentionUserIDs = [], MentionRoleIDs = [], ReplyingToAuthor = '''', ReplyingToContent = '''',
     Attachments = [], Model = '''', CreatedAt = 0, UpdatedAt = 0\<rparr>"

definition zeroDispatch :: Dispatch where
  "zeroDispatch = \<lparr>d_ID = '''', d_RowID = 0, d_Source = '''', d_SessionID = '''', d_ConversationID = '''',
     d_Prompt = '''', d_Summary = '''', d_Effort = '''', d_Model = '''', d_Status = '''', d_RetryCount = 0,
     d_RestartCount = 0, d_ErrorMessage = '''', d_ResponseText = '''', d_CreatedAt = 0, d_UpdatedAt = 0\<rparr>"

abbreviation "StatusPending \<equiv> ''PENDING''"
abbreviation "StatusProcessing \<equiv> ''PROCESSING''"
abbreviation "StatusCompleted \<equiv> ''COMPLETED''"
abbreviation "StatusFailed \<equiv> ''FAILED''"

definition HasStructuredFields :: "Message \<Rightarrow> bool" where
  "HasStructuredFields m =
     (ChannelID m \<noteq> '''' \<or> ChannelName m \<noteq> '''' \<or> ThreadName m \<noteq> '''' \<or>
      AuthorGlobalName m \<noteq> '''' \<or> AuthorBot m \<or> IsAdmin m \<or>
      Mentions m \<noteq> [] \<or> MentionUserIDs m \<noteq> [] \<or> MentionRoleIDs m \<noteq> [] \<or>
      ReplyingToAuthor m \<noteq> '''' \<or> ReplyingToContent m \<noteq> '''' \<or> Attachments m \<noteq> [] \<or>
      Model m \<noteq> '''')"

section \<open>Session keys and effort tiers\<close>

definition isDigitByte :: "char \<Rightarrow> bool" where
  "isDigitByte c = (let n = of_char c :: nat in 48 \<le> n \<and> n \<le> 57)"

definition DiscordSessionID :: "string \<Rightarrow> string" where
  "DiscordSessionID key =
     (let trimmed = trimSpace key in
      if trimmed = [] then []
      else if list_ex (\<lambda>c. \<not> isDigitByte c) trimmed then trimmed
      else ''discord-'' @ trimmed)"

definition resolveMessageEffort :: "Message \<Rightarrow> string" where
  "resolveMessageEffort m =
     (let effort = toLower (trimSpace (Effort m)) in
      if effort \<in> {''medium'', ''low'', ''high''} then effort
      else if effort \<noteq> '''' then ''high''
      else let model = toLower (trimSpace (Model m)) in
        if contains model ''medium'' then ''medium''
        else if contains model ''flash'' then ''low''
        else ''high'')"

record PoolKey =
  Ephemeral :: bool
  pk_Effort :: string

definition AllValidPoolKeys :: "PoolKey list" where
  "AllValidPoolKeys =
     [\<lparr>Ephemeral = False, pk_Effort = ''high''\<rparr>, \<lparr>Ephemeral = False, pk_Effort = ''medium''\<rparr>,
      \<lparr>Ephemeral = False, pk_Effort = ''low''\<rparr>, \<lparr>Ephemeral = True, pk_Effort = ''medium''\<rparr>,
      \<lparr>Ephemeral = True, pk_Effort = ''low''\<rparr>]"

datatype poolKeyError = EphemeralHighEffort PoolKey

definition ResolvePoolKey :: "bool option \<Rightarrow> string \<Rightarrow> poolKeyError + PoolKey" where
  "ResolvePoolKey ephemeral effort =
     (let eff0 = toLower (trimSpace effort);
          eff = (if eff0 \<noteq> ''low'' \<and> eff0 \<noteq> ''medium'' then ''high'' else eff0);
          isEphem = (case ephemeral of None \<Rightarrow> eff = ''low'' \<or> eff = ''medium'' | Some b \<Rightarrow> b)
      in if isEphem \<and> eff = ''high'' then Inl (EphemeralHighEffort \<lparr>Ephemeral = True, pk_Effort = ''high''\<rparr>)
         else Inr \<lparr>Ephemeral = isEphem, pk_Effort = eff\<rparr>)"

text \<open>The pools the worker pool was built with: which keys have a non-nil pool.\<close>

type_synonym pools = "PoolKey \<Rightarrow> bool"

definition resolveScopeKey :: "pools \<Rightarrow> Message \<Rightarrow> string" where
  "resolveScopeKey pool m =
     (let baseKey = DiscordSessionID (ThreadID m) in
      case ResolvePoolKey (Some False) (resolveMessageEffort m) of
        Inl _ \<Rightarrow> baseKey
      | Inr k \<Rightarrow>
         if pool k \<or> pool \<lparr>Ephemeral = True, pk_Effort = pk_Effort k\<rparr> then
           (if k = \<lparr>Ephemeral = True, pk_Effort = ''low''\<rparr> then ''low_effort:'' @ baseKey
            else if k = \<lparr>Ephemeral = True, pk_Effort = ''medium''\<rparr> then ''medium_effort:'' @ baseKey
            else if k = \<lparr>Ephemeral = False, pk_Effort = ''low''\<rparr> then ''stateful_low:'' @ baseKey
            else if k = \<lparr>Ephemeral = False, pk_Effort = ''medium''\<rparr> then ''stateful_medium:'' @ baseKey
            else baseKey)
         else baseKey)"

definition dispatchScopeKey :: "Dispatch \<Rightarrow> string" where
  "dispatchScopeKey d =
     (let scopeKey = trimSpace (d_SessionID d) in
      if scopeKey = '''' then ''dispatch-'' @ d_ID d else scopeKey)"

section \<open>Bursts\<close>

fun extractBurstModel :: "Message list \<Rightarrow> string" where
  "extractBurstModel [] = ''''"
| "extractBurstModel (m # ms) =
     (let model = trimSpace (Model m) in if model \<noteq> '''' then model else extractBurstModel ms)"

fun burstEffortLoop :: "bool \<Rightarrow> Message list \<Rightarrow> string" where
  "burstEffortLoop hasLow [] = (if hasLow then ''low'' else ''high'')"
| "burstEffortLoop hasLow (m # ms) =
     (let e = resolveMessageEffort m in
      if e = ''medium'' then ''medium''
      else if e = ''low'' then burstEffortLoop True ms
      else burstEffortLoop hasLow ms)"

definition resolveBurstEffort :: "Message list \<Rightarrow> string" where
  "resolveBurstEffort burst = burstEffortLoop False burst"

definition resolveBurstPoolKey :: "Message list \<Rightarrow> poolKeyError + PoolKey" where
  "resolveBurstPoolKey burst = ResolvePoolKey (Some False) (resolveBurstEffort burst)"

definition fallbackEffortForModel :: "string \<Rightarrow> bool \<Rightarrow> string" where
  "fallbackEffortForModel model isEphem =
     (if contains model ''medium'' then ''medium''
      else if contains model ''flash'' then ''low''
      else if contains model ''pro'' then ''high''
      else if isEphem then ''medium'' else ''low'')"

definition resolveDispatchEffort :: "Dispatch \<Rightarrow> bool \<Rightarrow> string" where
  "resolveDispatchEffort d isEphem =
     (let eff0 = toLower (trimSpace (d_Effort d));
          eff1 = (if eff0 = '''' then fallbackEffortForModel (toLower (trimSpace (d_Model d))) isEphem else eff0);
          eff = (if isEphem \<and> eff1 = ''high'' then ''medium'' else eff1)
      in if eff \<in> {''low'', ''medium'', ''high''} then eff
         else if isEphem then ''medium'' else ''low'')"

section \<open>Routing lemmas\<close>

definition efforts :: "string set" where
  "efforts = {''low'', ''medium'', ''high''}"

lemma resolveMessageEffort_range: "resolveMessageEffort m \<in> efforts"
  by (auto simp: resolveMessageEffort_def efforts_def Let_def)

lemma effort_literals:
  "toLower (trimSpace ''low'') = ''low''" "toLower (trimSpace ''medium'') = ''medium''"
  "toLower (trimSpace ''high'') = ''high''"
  by (code_simp, code_simp, code_simp)

lemma ResolvePoolKey_stateful:
  "e \<in> efforts \<Longrightarrow> ResolvePoolKey (Some False) e = Inr \<lparr>Ephemeral = False, pk_Effort = e\<rparr>"
  by (auto simp: ResolvePoolKey_def efforts_def effort_literals)

lemma burstEffortLoop_eq:
  "burstEffortLoop b ms =
     (if ''medium'' \<in> resolveMessageEffort ` set ms then ''medium''
      else if b \<or> ''low'' \<in> resolveMessageEffort ` set ms then ''low'' else ''high'')"
  by (induction ms arbitrary: b) (auto simp: Let_def image_iff)

lemma resolveBurstEffort_range: "resolveBurstEffort ms \<in> efforts"
  by (auto simp: resolveBurstEffort_def burstEffortLoop_eq efforts_def)

lemma resolveDispatchEffort_range: "resolveDispatchEffort d e \<in> efforts"
  by (auto simp: resolveDispatchEffort_def efforts_def Let_def)

lemma resolveDispatchEffort_ephemeral: "resolveDispatchEffort d True \<noteq> ''high''"
  by (auto simp: resolveDispatchEffort_def Let_def)

text \<open>
  C7. Routing never fails: the effort resolved for a message burst or for a dispatch is one of the
  three tiers, the pool key resolved from it is never the forbidden pair of ephemeral and high
  effort, and it is one of the five pools the service builds.
\<close>

theorem routing_total:
  "(\<exists>k \<in> set AllValidPoolKeys. resolveBurstPoolKey burst = Inr k) \<and>
   (\<exists>k \<in> set AllValidPoolKeys. ResolvePoolKey (Some ephem) (resolveDispatchEffort d ephem) = Inr k)"
proof
  have "resolveBurstEffort burst \<in> efforts" by (rule resolveBurstEffort_range)
  then show "\<exists>k \<in> set AllValidPoolKeys. resolveBurstPoolKey burst = Inr k"
    unfolding resolveBurstPoolKey_def ResolvePoolKey_stateful [OF resolveBurstEffort_range]
    by (auto simp: AllValidPoolKeys_def efforts_def)
next
  have r: "resolveDispatchEffort d ephem \<in> efforts" by (rule resolveDispatchEffort_range)
  show "\<exists>k \<in> set AllValidPoolKeys. ResolvePoolKey (Some ephem) (resolveDispatchEffort d ephem) = Inr k"
  proof (cases ephem)
    case False
    with r show ?thesis by (auto simp: ResolvePoolKey_stateful AllValidPoolKeys_def efforts_def)
  next
    case True
    with r resolveDispatchEffort_ephemeral [of d] show ?thesis
      by (auto simp: ResolvePoolKey_def AllValidPoolKeys_def efforts_def effort_literals)
  qed
qed

end
