(* ===== verification/ThreadQueue.thy ===== *)
theory ThreadQueue
  imports Messages
begin

text \<open>
  The per-thread work queues of the execution core: \<^verbatim>\<open>EnqueueBurst\<close>, \<^verbatim>\<open>EnqueueDispatch\<close>
  and the worker goroutines of \<^verbatim>\<open>services/eri/pkg/queue/burst.go\<close>, with the leader hold and
  the stop of \<^verbatim>\<open>pool.go\<close>. Every section of code under \<^verbatim>\<open>WorkerPool.mu\<close> is one
  atomic step; the blocking channel send outside the mutex, the receive, and the work itself are
  steps of their own, so all interleavings of producers and workers are covered.
\<close>

section \<open>State\<close>

datatype queueItem = ItemMsg Message | ItemDispatch Dispatch

record threadWorkerState =
  ch :: "queueItem list"
  activeEnqueuers :: nat
  inFlight :: bool

text \<open>
  Where the goroutine of a \<^verbatim>\<open>threadWorkerState\<close> stands: not started (its creator is still
  enqueuing), waiting in \<^verbatim>\<open>waitForNextQueueItem\<close>, holding an item it received, running a
  burst or dispatch (with an item held back for later), or returned.
\<close>

datatype wphase =
    Unstarted
  | Waiting
  | Popped queueItem
  | Running "queueItem list" "queueItem option"
  | Exited

text \<open>
  A \<^verbatim>\<open>*threadWorkerState\<close> and its goroutine; the pointer is the cell's position. The last two
  fields are history only: everything sent into the channel and everything the worker has run.
\<close>

record cell =
  tws :: threadWorkerState
  scope :: string
  phase :: wphase
  sent :: "queueItem list"
  processed :: "queueItem list"

record WorkerPool =
  cells :: "cell list"
  threadChs :: "string \<Rightarrow> nat option"
  stopped :: bool
  leaderHold :: bool
  ctxDone :: bool

text \<open>
  A call of \<^verbatim>\<open>EnqueueBurst\<close> or \<^verbatim>\<open>EnqueueDispatch\<close> between its critical sections: blocked
  on a full channel, past the send but not yet holding the mutex again, about to start the workers
  it created, or returned. Each carries the items still to enqueue and the new workers.
\<close>

datatype enqCall =
    EBlocked nat queueItem "(string \<times> queueItem) list" "nat list"
  | ESent nat "(string \<times> queueItem) list" "nat list"
  | ESpawn "nat list"
  | EDone

definition initPool :: WorkerPool where
  "initPool = \<lparr>cells = [], threadChs = (\<lambda>_. None), stopped = False, leaderHold = False, ctxDone = False\<rparr>"

section \<open>Enqueuing\<close>

definition chanCap :: nat where
  "chanCap = 100"

definition newCell :: "string \<Rightarrow> cell" where
  "newCell k = \<lparr>tws = \<lparr>ch = [], activeEnqueuers = 0, inFlight = False\<rparr>, scope = k, phase = Unstarted,
     sent = [], processed = []\<rparr>"

definition sendItem :: "queueItem \<Rightarrow> cell \<Rightarrow> cell" where
  "sendItem it c = c\<lparr>tws := (tws c)\<lparr>ch := ch (tws c) @ [it]\<rparr>, sent := sent c @ [it]\<rparr>"

definition updCell :: "nat \<Rightarrow> (cell \<Rightarrow> cell) \<Rightarrow> WorkerPool \<Rightarrow> WorkerPool" where
  "updCell a f p = p\<lparr>cells := (cells p)[a := f (cells p ! a)]\<rparr>"

text \<open>Look the scope up, creating its state (and noting the new worker) when it is missing.\<close>

definition lookupOrCreate :: "WorkerPool \<Rightarrow> string \<Rightarrow> nat list \<Rightarrow> WorkerPool \<times> nat \<times> nat list" where
  "lookupOrCreate p k nw =
     (case threadChs p k of
        Some a \<Rightarrow> (p, a, nw)
      | None \<Rightarrow>
         (let a = length (cells p) in
          (p\<lparr>cells := cells p @ [newCell k], threadChs := (threadChs p)(k := Some a)\<rparr>, a, nw @ [a])))"

text \<open>The loop over the items, with the mutex held, up to the end or to a full channel.\<close>

fun enqLoop :: "WorkerPool \<Rightarrow> (string \<times> queueItem) list \<Rightarrow> nat list \<Rightarrow> WorkerPool \<times> enqCall" where
  "enqLoop p [] nw = (p, ESpawn nw)"
| "enqLoop p ((k, it) # rest) nw =
     (let (p1, a, nw1) = lookupOrCreate p k nw in
      if length (ch (tws (cells p1 ! a))) < chanCap
      then enqLoop (updCell a (sendItem it) p1) rest nw1
      else (updCell a (\<lambda>c. c\<lparr>tws := (tws c)\<lparr>activeEnqueuers := activeEnqueuers (tws c) + 1\<rparr>\<rparr>) p1,
            EBlocked a it rest nw1))"

definition startEnqueue :: "WorkerPool \<Rightarrow> (string \<times> queueItem) list \<Rightarrow> WorkerPool \<times> enqCall" where
  "startEnqueue p items = (if stopped p \<or> leaderHold p then (p, EDone) else enqLoop p items [])"

definition EnqueueBurst :: "pools \<Rightarrow> WorkerPool \<Rightarrow> Message list \<Rightarrow> WorkerPool \<times> enqCall" where
  "EnqueueBurst pool p msgs =
     (if msgs = [] then (p, EDone)
      else startEnqueue p (map (\<lambda>m. (resolveScopeKey pool m, ItemMsg m)) msgs))"

definition EnqueueDispatch :: "WorkerPool \<Rightarrow> Dispatch \<Rightarrow> WorkerPool \<times> enqCall" where
  "EnqueueDispatch p d = startEnqueue p [(dispatchScopeKey d, ItemDispatch d)]"

section \<open>Workers\<close>

text \<open>Receive up to four more messages; a dispatch ends the burst and is held for the next round.\<close>

fun drainLoop :: "nat \<Rightarrow> queueItem list \<Rightarrow> queueItem list \<Rightarrow>
    queueItem list \<times> queueItem option \<times> queueItem list" where
  "drainLoop 0 burst q = (burst, None, q)"
| "drainLoop (Suc n) burst [] = (burst, None, [])"
| "drainLoop (Suc n) burst (ItemDispatch d # q) = (burst, Some (ItemDispatch d), q)"
| "drainLoop (Suc n) burst (ItemMsg m # q) = drainLoop n (burst @ [ItemMsg m]) q"

definition drainBurstMessages :: "Message \<Rightarrow> queueItem list \<Rightarrow>
    queueItem list \<times> queueItem option \<times> queueItem list" where
  "drainBurstMessages initial q = drainLoop 4 [ItemMsg initial] q"

text \<open>
  The start of \<^verbatim>\<open>executeWorkerDispatch\<close> and \<^verbatim>\<open>executeWorkerBurst\<close> (mark in flight and, for a
  message, drain the burst) and their end (clear the mark; the held item is next).
\<close>

definition beginWork :: "cell \<Rightarrow> cell" where
  "beginWork c = (case phase c of
     Popped (ItemDispatch d) \<Rightarrow>
       c\<lparr>tws := (tws c)\<lparr>inFlight := True\<rparr>, phase := Running [ItemDispatch d] None\<rparr>
   | Popped (ItemMsg m) \<Rightarrow>
       (let (burst, held, q) = drainBurstMessages m (ch (tws c)) in
        c\<lparr>tws := (tws c)\<lparr>ch := q, inFlight := True\<rparr>, phase := Running burst held\<rparr>)
   | _ \<Rightarrow> c)"

definition finishWork :: "cell \<Rightarrow> cell" where
  "finishWork c = (case phase c of
     Running items held \<Rightarrow>
       c\<lparr>tws := (tws c)\<lparr>inFlight := False\<rparr>, processed := processed c @ items,
         phase := (case held of None \<Rightarrow> Waiting | Some it \<Rightarrow> Popped it)\<rparr>
   | _ \<Rightarrow> c)"

definition popItem :: "cell \<Rightarrow> cell" where
  "popItem c = (case ch (tws c) of
     [] \<Rightarrow> c
   | it # q \<Rightarrow> c\<lparr>tws := (tws c)\<lparr>ch := q\<rparr>, phase := Popped it\<rparr>)"

definition tryPruneIdleThread :: "WorkerPool \<Rightarrow> nat \<Rightarrow> WorkerPool \<times> bool" where
  "tryPruneIdleThread p a =
     (let c = cells p ! a in
      if ch (tws c) = [] \<and> activeEnqueuers (tws c) = 0
      then (p\<lparr>threadChs := (threadChs p)(scope c := None)\<rparr>, True)
      else (p, False))"

definition setPhase :: "wphase \<Rightarrow> cell \<Rightarrow> cell" where
  "setPhase ph c = c\<lparr>phase := ph\<rparr>"

fun spawnAll :: "nat list \<Rightarrow> WorkerPool \<Rightarrow> WorkerPool" where
  "spawnAll [] p = p"
| "spawnAll (a # as) p = spawnAll as (updCell a (setPhase Waiting) p)"

definition HoldUntilLeader :: "WorkerPool \<Rightarrow> WorkerPool" where
  "HoldUntilLeader p = p\<lparr>leaderHold := True\<rparr>"

definition ReleaseLeaderHold :: "WorkerPool \<Rightarrow> WorkerPool \<times> bool" where
  "ReleaseLeaderHold p = (p\<lparr>leaderHold := False\<rparr>, leaderHold p)"

section \<open>The step relation\<close>

text \<open>
  A configuration is the pool and the enqueue calls made so far. Rules, in the order of the code:
  a call runs its first critical section; a blocked send completes when there is room, or is dropped
  when the context is cancelled; the call takes the mutex again; it starts its new workers; a worker
  receives, is pruned when idle, leaves on cancellation, begins and finishes work; the pool is
  stopped (flag, then cancellation), held and released.
\<close>

type_synonym config = "WorkerPool \<times> enqCall list"

inductive wstep :: "config \<Rightarrow> config \<Rightarrow> bool" where
  enqueue: "startEnqueue p items = (p', r) \<Longrightarrow> wstep (p, cs) (p', cs @ [r])"
| send: "i < length cs \<Longrightarrow> cs ! i = EBlocked a it rest nw \<Longrightarrow>
     length (ch (tws (cells p ! a))) < chanCap \<Longrightarrow>
     wstep (p, cs) (updCell a (sendItem it) p, cs[i := ESent a rest nw])"
| drop: "i < length cs \<Longrightarrow> cs ! i = EBlocked a it rest nw \<Longrightarrow> ctxDone p \<Longrightarrow>
     wstep (p, cs) (p, cs[i := ESent a rest nw])"
| resume: "i < length cs \<Longrightarrow> cs ! i = ESent a rest nw \<Longrightarrow>
     enqLoop (updCell a (\<lambda>c. c\<lparr>tws := (tws c)\<lparr>activeEnqueuers := activeEnqueuers (tws c) - 1\<rparr>\<rparr>) p)
       rest nw = (p', r) \<Longrightarrow>
     wstep (p, cs) (p', cs[i := r])"
| spawn: "i < length cs \<Longrightarrow> cs ! i = ESpawn nw \<Longrightarrow> wstep (p, cs) (spawnAll nw p, cs[i := EDone])"
| receive: "a < length (cells p) \<Longrightarrow> phase (cells p ! a) = Waiting \<Longrightarrow> ch (tws (cells p ! a)) \<noteq> [] \<Longrightarrow>
     wstep (p, cs) (updCell a popItem p, cs)"
| idle_prune: "a < length (cells p) \<Longrightarrow> phase (cells p ! a) = Waiting \<Longrightarrow>
     tryPruneIdleThread p a = (p', True) \<Longrightarrow> wstep (p, cs) (updCell a (setPhase Exited) p', cs)"
| idle_keep: "a < length (cells p) \<Longrightarrow> phase (cells p ! a) = Waiting \<Longrightarrow>
     tryPruneIdleThread p a = (p', False) \<Longrightarrow> wstep (p, cs) (p', cs)"
| cancelled: "a < length (cells p) \<Longrightarrow> phase (cells p ! a) = Waiting \<Longrightarrow> ctxDone p \<Longrightarrow>
     wstep (p, cs) (updCell a (setPhase Exited) p, cs)"
| begin_work: "a < length (cells p) \<Longrightarrow> phase (cells p ! a) = Popped it \<Longrightarrow>
     wstep (p, cs) (updCell a beginWork p, cs)"
| finish_work: "a < length (cells p) \<Longrightarrow> phase (cells p ! a) = Running items held \<Longrightarrow>
     wstep (p, cs) (updCell a finishWork p, cs)"
| stop_flag: "wstep (p, cs) (p\<lparr>stopped := True\<rparr>, cs)"
| stop_cancel: "stopped p \<Longrightarrow> wstep (p, cs) (p\<lparr>ctxDone := True\<rparr>, cs)"
| hold: "wstep (p, cs) (HoldUntilLeader p, cs)"
| release: "ReleaseLeaderHold p = (p', b) \<Longrightarrow> wstep (p, cs) (p', cs)"

abbreviation initConfig :: "config \<Rightarrow> bool" where
  "initConfig c \<equiv> c = (initPool, [])"

abbreviation reachable :: "config \<Rightarrow> bool" where
  "reachable \<equiv> reach initConfig wstep"

section \<open>Invariant\<close>

text \<open>The items a worker has received and not yet finished, in order.\<close>

fun inHand :: "wphase \<Rightarrow> queueItem list" where
  "inHand (Popped it) = [it]"
| "inHand (Running items held) = items @ (case held of None \<Rightarrow> [] | Some it \<Rightarrow> [it])"
| "inHand _ = []"

fun target :: "enqCall \<Rightarrow> nat option" where
  "target (EBlocked a _ _ _) = Some a"
| "target (ESent a _ _) = Some a"
| "target _ = None"

fun newWorkers :: "enqCall \<Rightarrow> nat list" where
  "newWorkers (EBlocked _ _ _ nw) = nw"
| "newWorkers (ESent _ _ nw) = nw"
| "newWorkers (ESpawn nw) = nw"
| "newWorkers EDone = []"

text \<open>
  Two counts over the calls made so far: how many are between a blocked send on cell a and the
  mutex, and how often a is among the workers still to be started.
\<close>

definition pend :: "nat \<Rightarrow> enqCall \<Rightarrow> nat" where
  "pend a c = (if target c = Some a then 1 else 0)"

definition own :: "nat \<Rightarrow> enqCall \<Rightarrow> nat" where
  "own a c = count_list (newWorkers c) a"

definition csum :: "(enqCall \<Rightarrow> nat) \<Rightarrow> enqCall list \<Rightarrow> nat" where
  "csum f cs = sum_list (map f cs)"

definition cell_ok :: "bool \<Rightarrow> nat \<Rightarrow> nat \<Rightarrow> cell \<Rightarrow> bool" where
  "cell_ok done n m c \<longleftrightarrow>
     sent c = processed c @ inHand (phase c) @ ch (tws c) \<and>
     length (ch (tws c)) \<le> chanCap \<and>
     activeEnqueuers (tws c) = n \<and>
     (inFlight (tws c) \<longleftrightarrow> (\<exists>items held. phase c = Running items held)) \<and>
     (phase c = Exited \<and> \<not> done \<longrightarrow> ch (tws c) = [] \<and> n = 0) \<and>
     m = (if phase c = Unstarted then 1 else 0)"

definition reg_ok :: "WorkerPool \<Rightarrow> bool" where
  "reg_ok p \<longleftrightarrow>
     (\<forall>k a. threadChs p k = Some a \<longrightarrow>
        a < length (cells p) \<and> scope (cells p ! a) = k \<and> (\<not> ctxDone p \<longrightarrow> phase (cells p ! a) \<noteq> Exited)) \<and>
     (\<forall>a < length (cells p). phase (cells p ! a) \<noteq> Exited \<longrightarrow> threadChs p (scope (cells p ! a)) = Some a)"

definition inv_at :: "WorkerPool \<Rightarrow> (nat \<Rightarrow> nat) \<Rightarrow> (nat \<Rightarrow> nat) \<Rightarrow> bool" where
  "inv_at p P Q \<longleftrightarrow>
     (\<forall>a < length (cells p). cell_ok (ctxDone p) (P a) (Q a) (cells p ! a)) \<and>
     (\<forall>a \<ge> length (cells p). P a = 0 \<and> Q a = 0) \<and> reg_ok p"

definition pool_inv :: "config \<Rightarrow> bool" where
  "pool_inv c = inv_at (fst c) (\<lambda>a. csum (pend a) (snd c)) (\<lambda>a. csum (own a) (snd c))"

section \<open>Preservation\<close>

lemma csum_snoc [simp]: "csum f (cs @ [r]) = csum f cs + f r"
  by (simp add: csum_def)

lemma csum_Nil [simp]: "csum f [] = 0"
  by (simp add: csum_def)

lemma csum_update: "i < length cs \<Longrightarrow> csum f (cs[i := r]) + f (cs ! i) = csum f cs + f r"
  unfolding csum_def
proof (induction cs arbitrary: i)
  case (Cons c cs)
  then show ?case by (cases i) auto
qed simp

lemma csum_ge: "i < length cs \<Longrightarrow> f (cs ! i) \<le> csum f cs"
  using csum_update [of i cs f EDone] unfolding csum_def
  by (simp add: member_le_sum_list)

lemma cells_updCell [simp]:
  "length (cells (updCell a f p)) = length (cells p)"
  "threadChs (updCell a f p) = threadChs p" "ctxDone (updCell a f p) = ctxDone p"
  "stopped (updCell a f p) = stopped p" "leaderHold (updCell a f p) = leaderHold p"
  by (simp_all add: updCell_def)

lemma nth_updCell: "b < length (cells p) \<Longrightarrow>
    cells (updCell a f p) ! b = (if b = a then f (cells p ! a) else cells p ! b)"
  by (auto simp: updCell_def nth_list_update)

text \<open>An update of one cell that keeps its scope and does not end its worker keeps the invariant.\<close>

lemma inv_updCell:
  assumes "inv_at p P Q" "a < length (cells p)"
    and "scope (f (cells p ! a)) = scope (cells p ! a)"
    and "phase (f (cells p ! a)) = Exited \<longleftrightarrow> phase (cells p ! a) = Exited"
    and "cell_ok (ctxDone p) (P' a) (Q' a) (f (cells p ! a))"
    and "\<And>b. b \<noteq> a \<Longrightarrow> P' b = P b \<and> Q' b = Q b"
  shows "inv_at (updCell a f p) P' Q'"
  using assms unfolding inv_at_def reg_ok_def
  by (auto simp: nth_updCell split: if_splits)

lemma inv_alloc:
  assumes inv: "inv_at p P (\<lambda>a. Q a + count_list nw a)" and free: "threadChs p k = None"
  defines "n \<equiv> length (cells p)"
  shows "inv_at (p\<lparr>cells := cells p @ [newCell k], threadChs := (threadChs p)(k := Some n)\<rparr>)
           P (\<lambda>a. Q a + count_list (nw @ [n]) a)"
proof -
  have Pn: "P n = 0" and Qn: "Q n + count_list nw n = 0" using inv by (auto simp: inv_at_def n_def)
  have old: "cell_ok (ctxDone p) (P a) (Q a + count_list nw a) (cells p ! a)" if "a < n" for a
    using inv that by (auto simp: inv_at_def n_def)
  have new: "cell_ok (ctxDone p) 0 1 (newCell k)" by (simp add: cell_ok_def newCell_def)
  have live: "scope (cells p ! a) \<noteq> k" if "a < n" "phase (cells p ! a) \<noteq> Exited" for a
    using inv that free by (auto simp: inv_at_def reg_ok_def n_def)
  have reg: "reg_ok (p\<lparr>cells := cells p @ [newCell k], threadChs := (threadChs p)(k := Some n)\<rparr>)"
    using inv live unfolding inv_at_def reg_ok_def n_def
    by (auto simp: nth_append newCell_def less_Suc_eq)
  show ?thesis
    unfolding inv_at_def
  proof (intro conjI allI impI)
    fix a
    assume "a < length (cells (p\<lparr>cells := cells p @ [newCell k], threadChs := (threadChs p)(k := Some n)\<rparr>))"
    then show "cell_ok (ctxDone (p\<lparr>cells := cells p @ [newCell k], threadChs := (threadChs p)(k := Some n)\<rparr>))
        (P a) (Q a + count_list (nw @ [n]) a)
        (cells (p\<lparr>cells := cells p @ [newCell k], threadChs := (threadChs p)(k := Some n)\<rparr>) ! a)"
      using old [of a] new Pn Qn by (cases "a = n") (auto simp: n_def nth_append)
  qed (use inv reg in \<open>auto simp: inv_at_def n_def\<close>)
qed

lemma inv_lookupOrCreate:
  assumes "inv_at p P (\<lambda>a. Q a + count_list nw a)" and "lookupOrCreate p k nw = (p', a, nw')"
  shows "inv_at p' P (\<lambda>a. Q a + count_list nw' a) \<and> a < length (cells p') \<and> ctxDone p' = ctxDone p \<and>
    (\<not> ctxDone p \<longrightarrow> phase (cells p' ! a) \<noteq> Exited)"
proof (cases "threadChs p k")
  case None
  with assms(2) have eq: "p' = p\<lparr>cells := cells p @ [newCell k], threadChs := (threadChs p)(k := Some (length (cells p)))\<rparr>"
    "a = length (cells p)" "nw' = nw @ [length (cells p)]"
    by (auto simp: lookupOrCreate_def Let_def)
  from inv_alloc [OF assms(1) None] show ?thesis unfolding eq by (simp add: newCell_def)
next
  case (Some b)
  with assms show ?thesis by (auto simp: lookupOrCreate_def inv_at_def reg_ok_def)
qed

lemma inv_enqLoop:
  "inv_at p P (\<lambda>a. Q a + count_list nw a) \<Longrightarrow> enqLoop p items nw = (p', r) \<Longrightarrow>
     inv_at p' (\<lambda>a. P a + pend a r) (\<lambda>a. Q a + own a r) \<and> ctxDone p' = ctxDone p"
proof (induction p items nw arbitrary: p' r rule: enqLoop.induct)
  case (1 p nw)
  then show ?case by (auto simp: pend_def own_def)
next
  case (2 p k it rest nw)
  obtain p1 a nw1 where l: "lookupOrCreate p k nw = (p1, a, nw1)" by (cases "lookupOrCreate p k nw")
  note i = inv_lookupOrCreate [OF "2.prems"(1) l]
  then have ok: "cell_ok (ctxDone p1) (P a) (Q a + count_list nw1 a) (cells p1 ! a)"
    unfolding inv_at_def by blast
  show ?case
  proof (cases "length (ch (tws (cells p1 ! a))) < chanCap")
    case True
    have inv': "inv_at (updCell a (sendItem it) p1) P (\<lambda>a. Q a + count_list nw1 a)"
      using i ok True by (intro inv_updCell) (auto simp: sendItem_def cell_ok_def)
    have "enqLoop (updCell a (sendItem it) p1) rest nw1 = (p', r)"
      using "2.prems"(2) l True by simp
    from "2.IH" [OF l [symmetric] refl refl True inv' this] i show ?thesis by simp
  next
    case False
    let ?inc = "\<lambda>c. c\<lparr>tws := (tws c)\<lparr>activeEnqueuers := activeEnqueuers (tws c) + 1\<rparr>\<rparr>"
    have eq: "p' = updCell a ?inc p1" "r = EBlocked a it rest nw1"
      using "2.prems"(2) l False by auto
    have "inv_at (updCell a ?inc p1) (\<lambda>b. P b + pend b r) (\<lambda>b. Q b + own b r)"
      using i ok False unfolding eq
      by (intro inv_updCell) (auto simp: pend_def own_def cell_ok_def chanCap_def)
    with i show ?thesis by (simp add: eq)
  qed
qed

lemma reg_ok_live:
  "reg_ok p \<Longrightarrow> a < length (cells p) \<Longrightarrow> phase (cells p ! a) \<noteq> Exited \<Longrightarrow>
     threadChs p (scope (cells p ! a)) = Some a"
  unfolding reg_ok_def by blast

lemma reg_ok_entry:
  "reg_ok p \<Longrightarrow> threadChs p k = Some a \<Longrightarrow>
     a < length (cells p) \<and> scope (cells p ! a) = k \<and> (\<not> ctxDone p \<longrightarrow> phase (cells p ! a) \<noteq> Exited)"
  unfolding reg_ok_def by blast

lemma cell_ok_exit:
  "cell_ok done n m c \<Longrightarrow> phase c = Waiting \<Longrightarrow> done \<or> ch (tws c) = [] \<and> n = 0 \<Longrightarrow>
     cell_ok done n m (setPhase Exited c)"
  by (auto simp: cell_ok_def setPhase_def)

lemma inv_cancelled:
  assumes "inv_at p P Q" "a < length (cells p)" "phase (cells p ! a) = Waiting" "ctxDone p"
  shows "inv_at (updCell a (setPhase Exited) p) P Q"
proof -
  have "reg_ok (updCell a (setPhase Exited) p)"
    using assms unfolding inv_at_def reg_ok_def by (simp add: nth_updCell setPhase_def)
  then show ?thesis
    using assms unfolding inv_at_def by (simp add: nth_updCell cell_ok_exit)
qed

lemma inv_prune:
  assumes inv: "inv_at p P Q" and a: "a < length (cells p)" "phase (cells p ! a) = Waiting"
    and e: "ch (tws (cells p ! a)) = []" "P a = 0"
  defines "p' \<equiv> p\<lparr>threadChs := (threadChs p)(scope (cells p ! a) := None)\<rparr>"
  shows "inv_at (updCell a (setPhase Exited) p') P Q"
proof -
  have reg: "reg_ok p" using inv unfolding inv_at_def by blast
  have ok: "cell_ok (ctxDone p) (P b) (Q b) (cells p ! b)" if "b < length (cells p)" for b
    using inv that unfolding inv_at_def by blast
  have ra: "threadChs p (scope (cells p ! a)) = Some a" using reg_ok_live [OF reg a(1)] a(2) by simp
  have diff: "scope (cells p ! b) \<noteq> scope (cells p ! a)"
    if "b < length (cells p)" "phase (cells p ! b) \<noteq> Exited" "b \<noteq> a" for b
    using reg_ok_live [OF reg that(1,2)] ra that(3) by auto
  have cell: "cells (updCell a (setPhase Exited) p') ! b =
      (if b = a then setPhase Exited (cells p ! a) else cells p ! b)" if "b < length (cells p)" for b
    using that unfolding p'_def by (simp add: nth_updCell)
  have "reg_ok (updCell a (setPhase Exited) p')"
    unfolding reg_ok_def
  proof (intro conjI allI impI)
    fix k b
    assume "threadChs (updCell a (setPhase Exited) p') k = Some b"
    then have k: "k \<noteq> scope (cells p ! a)" "threadChs p k = Some b"
      by (auto simp: p'_def split: if_splits)
    note b = reg_ok_entry [OF reg k(2)]
    with k have "b \<noteq> a" by auto
    with b cell show "b < length (cells (updCell a (setPhase Exited) p'))"
      "scope (cells (updCell a (setPhase Exited) p') ! b) = k"
      "\<not> ctxDone (updCell a (setPhase Exited) p') \<Longrightarrow> phase (cells (updCell a (setPhase Exited) p') ! b) \<noteq> Exited"
      by (auto simp: p'_def)
  next
    fix b
    assume b: "b < length (cells (updCell a (setPhase Exited) p'))"
      "phase (cells (updCell a (setPhase Exited) p') ! b) \<noteq> Exited"
    then have "b < length (cells p)" "b \<noteq> a" using cell [of b] by (auto simp: p'_def setPhase_def)
    with b cell diff reg_ok_live [OF reg]
    show "threadChs (updCell a (setPhase Exited) p') (scope (cells (updCell a (setPhase Exited) p') ! b)) = Some b"
      by (simp add: p'_def)
  qed
  moreover have "cell_ok (ctxDone p) (P b) (Q b) (cells (updCell a (setPhase Exited) p') ! b)"
    if "b < length (cells p)" for b
    using ok [OF that] cell [OF that] a e by (cases "b = a") (simp_all add: cell_ok_exit)
  ultimately show ?thesis
    using inv unfolding inv_at_def by (simp add: p'_def)
qed

lemma inv_spawnAll:
  "inv_at p P (\<lambda>a. Q a + count_list nw a) \<Longrightarrow> inv_at (spawnAll nw p) P Q \<and> ctxDone (spawnAll nw p) = ctxDone p"
proof (induction nw arbitrary: p)
  case Nil
  then show ?case by simp
next
  case (Cons a nw)
  have a: "a < length (cells p)"
  proof (rule ccontr)
    assume "\<not> a < length (cells p)"
    then have "Q a + count_list (a # nw) a = 0" using Cons.prems by (auto simp: inv_at_def not_less)
    then show False by simp
  qed
  have ok: "cell_ok (ctxDone p) (P a) (Q a + count_list (a # nw) a) (cells p ! a)"
    using Cons.prems a unfolding inv_at_def by blast
  then have "phase (cells p ! a) = Unstarted" "Q a + count_list nw a = 0"
    by (auto simp: cell_ok_def split: if_splits)
  then have "inv_at (updCell a (setPhase Waiting) p) P (\<lambda>b. Q b + count_list nw b)"
    using ok a by (intro inv_updCell [OF Cons.prems]) (auto simp: setPhase_def cell_ok_def)
  from Cons.IH [OF this] show ?case by simp
qed

text \<open>Draining takes a prefix of the channel: at most four messages, and possibly one dispatch.\<close>

lemma drainLoop_split:
  "drainLoop n burst q = (b, held, q') \<Longrightarrow>
     b @ (case held of None \<Rightarrow> [] | Some it \<Rightarrow> [it]) @ q' = burst @ q \<and> length b \<le> length burst + n \<and>
     (\<exists>ms. b = burst @ map ItemMsg ms)"
proof (induction n burst q rule: drainLoop.induct)
  case (4 n burst m q)
  then have "b @ (case held of None \<Rightarrow> [] | Some it \<Rightarrow> [it]) @ q' = (burst @ [ItemMsg m]) @ q \<and>
      length b \<le> length (burst @ [ItemMsg m]) + n \<and> (\<exists>ms. b = (burst @ [ItemMsg m]) @ map ItemMsg ms)"
    by simp
  then show ?case by (auto intro: exI [of _ "m # _"])
qed auto

lemma inHand_beginWork:
  assumes "phase c = Popped it"
  shows "inHand (phase (beginWork c)) @ ch (tws (beginWork c)) = inHand (phase c) @ ch (tws c) \<and>
    length (ch (tws (beginWork c))) \<le> length (ch (tws c)) \<and>
    (\<exists>items held. phase (beginWork c) = Running items held) \<and> inFlight (tws (beginWork c)) \<and>
    activeEnqueuers (tws (beginWork c)) = activeEnqueuers (tws c) \<and> scope (beginWork c) = scope c \<and>
    sent (beginWork c) = sent c \<and> processed (beginWork c) = processed c"
proof (cases it)
  case (ItemDispatch d)
  with assms show ?thesis by (simp add: beginWork_def)
next
  case (ItemMsg m)
  obtain b held q where d: "drainBurstMessages m (ch (tws c)) = (b, held, q)"
    by (cases "drainBurstMessages m (ch (tws c))")
  from drainLoop_split [OF d [unfolded drainBurstMessages_def]]
  have s: "b @ (case held of None \<Rightarrow> [] | Some it \<Rightarrow> [it]) @ q = ItemMsg m # ch (tws c)" "b \<noteq> []" by auto
  then have "length q \<le> length (ch (tws c))" by (cases b) (auto simp: append_eq_conv_conj)
  with s ItemMsg assms d show ?thesis by (simp add: beginWork_def)
qed

lemma cell_ok_beginWork:
  assumes "cell_ok done n m c" "phase c = Popped it"
  shows "cell_ok done n m (beginWork c)"
  using assms inHand_beginWork [OF assms(2)] unfolding cell_ok_def by (auto simp: assms(2))

lemma cell_ok_finishWork:
  assumes "cell_ok done n m c" "phase c = Running items held"
  shows "cell_ok done n m (finishWork c)"
  using assms by (cases held) (auto simp: cell_ok_def finishWork_def)

lemma cell_ok_popItem:
  assumes "cell_ok done n m c" "phase c = Waiting" "ch (tws c) \<noteq> []"
  shows "cell_ok done n m (popItem c)"
  using assms by (cases "ch (tws c)") (auto simp: cell_ok_def popItem_def)

lemma phase_ops:
  "phase c = Popped it \<Longrightarrow> phase (beginWork c) \<noteq> Exited"
  "phase c = Running items held \<Longrightarrow> phase (finishWork c) \<noteq> Exited"
  "phase c = Waiting \<Longrightarrow> phase (popItem c) \<noteq> Exited"
  using inHand_beginWork [of c it]
  by (auto simp: finishWork_def popItem_def split: option.splits list.splits)

lemma scope_ops [simp]: "scope (beginWork c) = scope c" "scope (finishWork c) = scope c" "scope (popItem c) = scope c"
  by (auto simp: beginWork_def finishWork_def popItem_def Let_def
      split: wphase.splits queueItem.splits prod.splits list.splits)

lemma inv_cellD: "inv_at p P Q \<Longrightarrow> a < length (cells p) \<Longrightarrow> cell_ok (ctxDone p) (P a) (Q a) (cells p ! a)"
  unfolding inv_at_def by blast

lemma csum_update_diff:
  "i < length cs \<Longrightarrow> csum f (cs[i := r]) = csum f cs + f r - f (cs ! i)"
  using csum_update [of i cs f r] by simp

lemma inv_enqueue:
  assumes "pool_inv (p, cs)" "startEnqueue p items = (p', r)"
  shows "pool_inv (p', cs @ [r])"
proof (cases "stopped p \<or> leaderHold p")
  case True
  with assms show ?thesis by (simp add: startEnqueue_def pool_inv_def pend_def own_def)
next
  case False
  with assms(2) have "enqLoop p items [] = (p', r)" by (simp add: startEnqueue_def)
  with inv_enqLoop [of p _ "\<lambda>a. csum (own a) cs" "[]"] assms(1) show ?thesis
    by (simp add: pool_inv_def)
qed

lemma inv_target:
  assumes inv: "pool_inv (p, cs)" and c: "i < length cs" "target (cs ! i) = Some a"
  shows "a < length (cells p) \<and> 0 < csum (pend a) cs"
proof -
  have pos: "0 < csum (pend a) cs" using csum_ge [OF c(1), of "pend a"] c(2) by (simp add: pend_def)
  have "\<forall>b \<ge> length (cells p). csum (pend b) cs = 0"
    using inv by (simp add: pool_inv_def inv_at_def)
  with pos show ?thesis by (metis not_less less_irrefl)
qed

lemma inv_send:
  assumes inv: "pool_inv (p, cs)" and c: "i < length cs" "cs ! i = EBlocked a it rest nw"
    and room: "length (ch (tws (cells p ! a))) < chanCap"
  shows "pool_inv (updCell a (sendItem it) p, cs[i := ESent a rest nw])"
proof -
  have eqs: "csum (pend b) (cs[i := ESent a rest nw]) = csum (pend b) cs"
    "csum (own b) (cs[i := ESent a rest nw]) = csum (own b) cs" for b
    using c by (simp_all add: csum_update_diff pend_def own_def)
  have a: "a < length (cells p)" "phase (cells p ! a) = Exited \<Longrightarrow> ctxDone p"
  proof -
    have "0 < csum (pend a) cs" using inv_target [OF inv c(1)] c(2) by simp
    show l: "a < length (cells p)" using inv_target [OF inv c(1)] c(2) by simp
    show "phase (cells p ! a) = Exited \<Longrightarrow> ctxDone p"
      using inv_cellD [OF inv [unfolded pool_inv_def], of a] l \<open>0 < csum (pend a) cs\<close> by (auto simp: cell_ok_def)
  qed
  show ?thesis
    unfolding pool_inv_def fst_conv snd_conv eqs
    using inv [unfolded pool_inv_def fst_conv snd_conv] a room inv_cellD [OF inv [unfolded pool_inv_def], of a]
    by (intro inv_updCell) (auto simp: sendItem_def cell_ok_def)
qed

lemma inv_resume:
  assumes inv: "pool_inv (p, cs)" and c: "i < length cs" "cs ! i = ESent a rest nw"
    and run: "enqLoop (updCell a (\<lambda>c. c\<lparr>tws := (tws c)\<lparr>activeEnqueuers := activeEnqueuers (tws c) - 1\<rparr>\<rparr>) p)
       rest nw = (p', r)"
  shows "pool_inv (p', cs[i := r])"
proof -
  let ?f = "\<lambda>c. c\<lparr>tws := (tws c)\<lparr>activeEnqueuers := activeEnqueuers (tws c) - 1\<rparr>\<rparr>"
  define P where "P b = csum (pend b) cs - pend b (cs ! i)" for b
  define Q where "Q b = csum (own b) cs - own b (cs ! i)" for b
  have ge: "pend b (cs ! i) \<le> csum (pend b) cs" "own b (cs ! i) \<le> csum (own b) cs" for b
    using csum_ge [OF c(1)] by auto
  have a: "a < length (cells p)" using inv_target [OF inv c(1)] c(2) by simp
  have "inv_at p (\<lambda>b. csum (pend b) cs) (\<lambda>b. csum (own b) cs)" using inv by (simp add: pool_inv_def)
  moreover have "Q b + count_list nw b = csum (own b) cs" for b
    using ge(2) [of b] c(2) by (simp add: Q_def own_def)
  moreover have "cell_ok (ctxDone p) (P a) (csum (own a) cs) (?f (cells p ! a))"
    using inv_cellD [OF calculation(1) a] c(2) by (auto simp: cell_ok_def P_def pend_def)
  ultimately have "inv_at (updCell a ?f p) P (\<lambda>b. Q b + count_list nw b)"
    using a c(2) by (intro inv_updCell) (auto simp: P_def pend_def)
  from inv_enqLoop [OF this run] have "inv_at p' (\<lambda>b. P b + pend b r) (\<lambda>b. Q b + own b r)" by simp
  moreover have "P b + pend b r = csum (pend b) (cs[i := r])" "Q b + own b r = csum (own b) (cs[i := r])" for b
    using ge c(1) by (simp_all add: P_def Q_def csum_update_diff)
  ultimately show ?thesis by (simp add: pool_inv_def)
qed

lemma inv_spawn:
  assumes inv: "pool_inv (p, cs)" and c: "i < length cs" "cs ! i = ESpawn nw"
  shows "pool_inv (spawnAll nw p, cs[i := EDone])"
proof -
  define Q where "Q b = csum (own b) cs - own b (cs ! i)" for b
  have "Q b + count_list nw b = csum (own b) cs" for b
    using csum_ge [OF c(1), of "own b"] c(2) by (simp add: Q_def own_def)
  then have "inv_at (spawnAll nw p) (\<lambda>b. csum (pend b) cs) Q"
    using inv inv_spawnAll [of p _ Q nw] by (simp add: pool_inv_def)
  moreover have "csum (pend b) (cs[i := EDone]) = csum (pend b) cs" "csum (own b) (cs[i := EDone]) = Q b" for b
    using c by (simp_all add: Q_def csum_update_diff pend_def own_def)
  ultimately show ?thesis by (simp add: pool_inv_def)
qed

lemma inv_work:
  assumes "pool_inv (p, cs)" "a < length (cells p)"
    and "\<And>n m. cell_ok (ctxDone p) n m (cells p ! a) \<Longrightarrow> cell_ok (ctxDone p) n m (f (cells p ! a))"
    and "scope (f (cells p ! a)) = scope (cells p ! a)"
    and "phase (cells p ! a) \<noteq> Exited" "phase (f (cells p ! a)) \<noteq> Exited"
  shows "pool_inv (updCell a f p, cs)"
  using assms inv_cellD [of p _ _ a] unfolding pool_inv_def fst_conv snd_conv
  by (intro inv_updCell) auto

lemma inv_flags:
  assumes "pool_inv (p, cs)"
  shows "pool_inv (p\<lparr>stopped := b\<rparr>, cs)" "pool_inv (p\<lparr>leaderHold := b\<rparr>, cs)" "pool_inv (p\<lparr>ctxDone := True\<rparr>, cs)"
  using assms by (simp_all add: pool_inv_def inv_at_def reg_ok_def cell_ok_def)

lemma wstep_inv: "wstep c c' \<Longrightarrow> pool_inv c \<Longrightarrow> pool_inv c'"
proof (induction rule: wstep.induct)
  case (enqueue p items p' r cs)
  then show ?case by (blast intro: inv_enqueue)
next
  case (send i cs a it rest nw p)
  then show ?case by (blast intro: inv_send)
next
  case (drop i cs a it rest nw p)
  then show ?case by (simp add: pool_inv_def csum_update_diff pend_def own_def)
next
  case (resume i cs a rest nw p p' r)
  then show ?case by (blast intro: inv_resume)
next
  case (spawn i cs nw p)
  then show ?case by (blast intro: inv_spawn)
next
  case (receive a p cs)
  then show ?case by (intro inv_work) (auto simp: cell_ok_popItem phase_ops)
next
  case (idle_prune a p p' cs)
  then have e: "ch (tws (cells p ! a)) = []" "activeEnqueuers (tws (cells p ! a)) = 0"
    "p' = p\<lparr>threadChs := (threadChs p)(scope (cells p ! a) := None)\<rparr>"
    by (auto simp: tryPruneIdleThread_def Let_def split: if_splits)
  have "csum (pend a) cs = 0"
    using inv_cellD [of p _ _ a] idle_prune e(2) by (auto simp: pool_inv_def cell_ok_def)
  with idle_prune e show ?case by (simp add: pool_inv_def inv_prune)
next
  case (idle_keep a p p' cs)
  then show ?case by (auto simp: tryPruneIdleThread_def Let_def split: if_splits)
next
  case (cancelled a p cs)
  then show ?case by (simp add: pool_inv_def inv_cancelled)
next
  case (begin_work a p it cs)
  then show ?case by (intro inv_work) (auto simp: cell_ok_beginWork phase_ops)
next
  case (finish_work a p items held cs)
  then show ?case by (intro inv_work) (auto simp: cell_ok_finishWork phase_ops)
qed (auto simp: HoldUntilLeader_def ReleaseLeaderHold_def intro: inv_flags)

interpretation tq: inductive_invariant initConfig wstep pool_inv
proof unfold_locales
  fix c
  assume "initConfig c"
  then show "pool_inv c" by (simp add: pool_inv_def inv_at_def reg_ok_def initPool_def)
next
  fix c c'
  assume "wstep c c'" "pool_inv c"
  then show "pool_inv c'" by (rule wstep_inv)
qed

lemma reachable_cell:
  "reachable (p, cs) \<Longrightarrow> a < length (cells p) \<Longrightarrow>
     cell_ok (ctxDone p) (csum (pend a) cs) (csum (own a) cs) (cells p ! a)"
  using tq.reach_inv [of "(p, cs)"] by (auto simp: pool_inv_def inv_at_def)

lemma reachable_reg: "reachable (p, cs) \<Longrightarrow> reg_ok p"
  using tq.reach_inv [of "(p, cs)"] by (auto simp: pool_inv_def inv_at_def)

section \<open>What a worker runs\<close>

definition burst_ok :: "wphase \<Rightarrow> bool" where
  "burst_ok ph = (case ph of Running items held \<Rightarrow>
      ((\<exists>d. items = [ItemDispatch d]) \<and> held = None \<or>
       (\<exists>ms. items = map ItemMsg ms \<and> 1 \<le> length ms \<and> length ms \<le> 5) \<and>
       (\<forall>it. held = Some it \<longrightarrow> (\<exists>d. it = ItemDispatch d)))
    | _ \<Rightarrow> True)"

lemma drainLoop_held: "drainLoop n b q = (b', Some it, q') \<Longrightarrow> \<exists>d. it = ItemDispatch d"
  by (induction n b q rule: drainLoop.induct) auto

lemma burst_ok_beginWork: "burst_ok (phase c) \<Longrightarrow> burst_ok (phase (beginWork c))"
proof (cases "phase c")
  case (Popped it)
  show ?thesis
  proof (cases it)
    case (ItemDispatch d)
    with Popped show ?thesis by (simp add: beginWork_def burst_ok_def)
  next
    case (ItemMsg m)
    obtain b held q where d: "drainLoop 4 [ItemMsg m] (ch (tws c)) = (b, held, q)"
      by (cases "drainLoop 4 [ItemMsg m] (ch (tws c))")
    from drainLoop_split [OF d] obtain ms where "b = map ItemMsg (m # ms)" "length b \<le> 5" by auto
    then have "\<exists>ms. b = map ItemMsg ms \<and> 1 \<le> length ms \<and> length ms \<le> 5" by (intro exI [of _ "m # ms"]) auto
    with Popped ItemMsg d drainLoop_held [of 4 _ _ b] show ?thesis
      by (auto simp: beginWork_def burst_ok_def drainBurstMessages_def)
  qed
qed (simp_all add: beginWork_def)

definition bursts_ok :: "config \<Rightarrow> bool" where
  "bursts_ok c = (\<forall>a < length (cells (fst c)). burst_ok (phase (cells (fst c) ! a)))"

lemma bursts_ok_updCell:
  "bursts_ok (p, cs) \<Longrightarrow> (\<And>x. burst_ok (phase x) \<Longrightarrow> burst_ok (phase (f x))) \<Longrightarrow> bursts_ok (updCell a f p, cs')"
  unfolding bursts_ok_def by (simp add: nth_updCell)

lemma bursts_ok_enqLoop:
  "bursts_ok (p, cs) \<Longrightarrow> enqLoop p items nw = (p', r) \<Longrightarrow> bursts_ok (p', cs')"
proof (induction p items nw arbitrary: p' r rule: enqLoop.induct)
  case (2 p k it rest nw)
  obtain p1 a nw1 where l: "lookupOrCreate p k nw = (p1, a, nw1)" by (cases "lookupOrCreate p k nw")
  have b1: "bursts_ok (p1, cs)"
    using "2.prems"(1) l by (auto simp: lookupOrCreate_def bursts_ok_def newCell_def burst_ok_def nth_append
        Let_def split: option.splits)
  show ?case
  proof (cases "length (ch (tws (cells p1 ! a))) < chanCap")
    case True
    have "bursts_ok (updCell a (sendItem it) p1, cs)"
      by (rule bursts_ok_updCell [OF b1]) (simp add: sendItem_def)
    with "2.IH" [OF l [symmetric] refl refl True] "2.prems"(2) l True show ?thesis by simp
  next
    case False
    with "2.prems"(2) l show ?thesis by (auto intro: bursts_ok_updCell [OF b1])
  qed
qed (simp add: bursts_ok_def)

lemma bursts_ok_spawnAll: "bursts_ok (p, cs) \<Longrightarrow> bursts_ok (spawnAll nw p, cs')"
proof (induction nw arbitrary: p)
  case (Cons a nw)
  have "bursts_ok (updCell a (setPhase Waiting) p, cs)"
    by (rule bursts_ok_updCell [OF Cons.prems]) (simp add: setPhase_def burst_ok_def)
  from Cons.IH [OF this] show ?case by simp
qed (simp add: bursts_ok_def)

lemma bursts_ok_flags:
  "cells p' = cells p \<Longrightarrow> bursts_ok (p, cs) \<Longrightarrow> bursts_ok (p', cs')"
  by (simp add: bursts_ok_def)

lemma burst_ok_ops:
  "burst_ok (phase (setPhase Exited c))" "burst_ok (phase c) \<Longrightarrow> burst_ok (phase (popItem c))"
  "burst_ok (phase (finishWork c)) \<or> phase (finishWork c) = phase c"
  by (auto simp: setPhase_def burst_ok_def popItem_def finishWork_def split: list.splits wphase.splits option.splits)

lemma wstep_bursts_ok: "wstep c c' \<Longrightarrow> bursts_ok c \<Longrightarrow> bursts_ok c'"
proof (induction rule: wstep.induct)
  case (enqueue p items p' r cs)
  then show ?case
    by (auto simp: startEnqueue_def split: if_splits intro: bursts_ok_enqLoop bursts_ok_flags)
next
  case (send i cs a it rest nw p)
  then show ?case by (auto simp: sendItem_def intro: bursts_ok_updCell)
next
  case (resume i cs a rest nw p p' r)
  let ?f = "\<lambda>c. c\<lparr>tws := (tws c)\<lparr>activeEnqueuers := activeEnqueuers (tws c) - 1\<rparr>\<rparr>"
  have "bursts_ok (updCell a ?f p, cs)" by (rule bursts_ok_updCell [OF resume.prems]) simp
  then show ?case using resume.hyps(3) by (rule bursts_ok_enqLoop)
next
  case (spawn i cs nw p)
  then show ?case by (blast intro: bursts_ok_spawnAll)
next
  case (idle_prune a p p' cs)
  then have "bursts_ok (p', cs)"
    by (auto simp: tryPruneIdleThread_def Let_def split: if_splits intro: bursts_ok_flags)
  then show ?case by (auto intro: bursts_ok_updCell burst_ok_ops)
next
  case (finish_work a p items held cs)
  have "burst_ok (phase x) \<Longrightarrow> burst_ok (phase (finishWork x))" for x
    using burst_ok_ops(3) [of x] by auto
  with finish_work show ?case by (auto intro: bursts_ok_updCell)
qed (auto simp: tryPruneIdleThread_def Let_def HoldUntilLeader_def ReleaseLeaderHold_def
     split: if_splits intro: bursts_ok_updCell burst_ok_ops burst_ok_beginWork bursts_ok_flags)

interpretation tb: inductive_invariant initConfig wstep bursts_ok
proof unfold_locales
  show "bursts_ok c" if "initConfig c" for c using that by (simp add: bursts_ok_def initPool_def)
  show "bursts_ok c'" if "wstep c c'" "bursts_ok c" for c c' using that by (rule wstep_bursts_ok)
qed

section \<open>Draining\<close>

text \<open>One round of a waiting worker: receive, begin, finish, and finish a held dispatch too.\<close>

definition workRound :: "cell \<Rightarrow> cell" where
  "workRound c =
     (let c1 = finishWork (beginWork (popItem c)) in
      case phase c1 of Popped _ \<Rightarrow> finishWork (beginWork c1) | _ \<Rightarrow> c1)"

lemma workRound_progress:
  assumes ok: "cell_ok done n m c" and w: "phase c = Waiting"
  shows "phase (workRound c) = Waiting \<and> cell_ok done n m (workRound c) \<and> sent (workRound c) = sent c \<and>
    length (ch (tws (workRound c))) \<le> length (ch (tws c)) - 1"
proof (cases "ch (tws c)")
  case Nil
  with w ok show ?thesis by (simp add: workRound_def popItem_def beginWork_def finishWork_def Let_def)
next
  case (Cons it q)
  let ?c0 = "popItem c"
  have p0: "phase ?c0 = Popped it" "ch (tws ?c0) = q" "sent ?c0 = sent c"
    using Cons w by (simp_all add: popItem_def)
  have ok0: "cell_ok done n m ?c0" using cell_ok_popItem [OF ok w] Cons by simp
  note h0 = inHand_beginWork [OF p0(1)] and ok1 = cell_ok_beginWork [OF ok0 p0(1)]
  then obtain items held where r1: "phase (beginWork ?c0) = Running items held" by blast
  have l1: "length (ch (tws (beginWork ?c0))) \<le> length q" "sent (beginWork ?c0) = sent c"
    using h0 p0 by auto
  let ?c1 = "finishWork (beginWork ?c0)"
  have c1: "phase ?c1 = (case held of None \<Rightarrow> Waiting | Some it \<Rightarrow> Popped it)" "sent ?c1 = sent c"
    "ch (tws ?c1) = ch (tws (beginWork ?c0))" and okc1: "cell_ok done n m ?c1"
    using r1 l1 cell_ok_finishWork [OF ok1 r1] by (simp_all add: finishWork_def)
  show ?thesis
  proof (cases held)
    case None
    with c1 okc1 l1 Cons show ?thesis by (simp add: workRound_def Let_def)
  next
    case (Some it2)
    then have p1: "phase ?c1 = Popped it2" using c1 by simp
    obtain m2 where b0: "burst_ok (phase (beginWork ?c0))" "it2 = ItemDispatch m2"
      using burst_ok_beginWork [of ?c0] p0(1) r1 Some by (auto simp: burst_ok_def)
    have r2: "phase (beginWork ?c1) = Running [it2] None" "ch (tws (beginWork ?c1)) = ch (tws ?c1)"
      "sent (beginWork ?c1) = sent ?c1"
      using p1 b0(2) by (simp_all add: beginWork_def)
    note ok2 = cell_ok_finishWork [OF cell_ok_beginWork [OF okc1 p1] r2(1)]
    have "workRound c = finishWork (beginWork ?c1)" using p1 by (simp add: workRound_def Let_def)
    with ok2 r2 c1 l1 Cons show ?thesis by (simp add: finishWork_def)
  qed
qed

lemma workRounds_drain:
  assumes "cell_ok done n m c" "phase c = Waiting" "length (ch (tws c)) \<le> r"
  shows "phase ((workRound ^^ r) c) = Waiting \<and> ch (tws ((workRound ^^ r) c)) = [] \<and>
    sent ((workRound ^^ r) c) = sent c \<and> processed ((workRound ^^ r) c) = sent c"
  using assms
proof (induction r arbitrary: c)
  case 0
  then show ?case by (simp add: cell_ok_def)
next
  case (Suc r)
  note p = workRound_progress [OF Suc.prems(1,2)]
  then have "length (ch (tws (workRound c))) \<le> r" using Suc.prems(3) by linarith
  with Suc.IH [of "workRound c"] p show ?case by (simp add: funpow_swap1)
qed

section \<open>A call that waits for its own worker\<close>

definition selfBlocked :: "config \<Rightarrow> nat \<Rightarrow> bool" where
  "selfBlocked c i = (\<exists>a it rest nw. i < length (snd c) \<and> snd c ! i = EBlocked a it rest nw \<and> a \<in> set nw \<and>
      length (ch (tws (cells (fst c) ! a))) = chanCap)"

lemma enqLoop_full:
  "a < length (cells p) \<Longrightarrow> length (ch (tws (cells p ! a))) = chanCap \<Longrightarrow> enqLoop p items nw = (p', r) \<Longrightarrow>
     length (ch (tws (cells p' ! a))) = chanCap"
proof (induction p items nw arbitrary: p' r rule: enqLoop.induct)
  case (2 p k it rest nw)
  obtain p1 b nw1 where l: "lookupOrCreate p k nw = (p1, b, nw1)" by (cases "lookupOrCreate p k nw")
  have a1: "a < length (cells p1)" "length (ch (tws (cells p1 ! a))) = chanCap"
    using "2.prems"(1,2) l by (auto simp: lookupOrCreate_def nth_append Let_def split: option.splits)
  show ?case
  proof (cases "length (ch (tws (cells p1 ! b))) < chanCap")
    case True
    with a1 have "b \<noteq> a" by auto
    with a1 "2.IH" [OF l [symmetric] refl refl True] "2.prems"(3) l True show ?thesis
      by (simp add: nth_updCell)
  next
    case False
    with a1 "2.prems"(3) l show ?thesis by (auto simp: nth_updCell)
  qed
qed simp

lemma spawnAll_ch: "a < length (cells p) \<Longrightarrow> ch (tws (cells (spawnAll nw p) ! a)) = ch (tws (cells p ! a))"
  by (induction nw arbitrary: p) (auto simp: nth_updCell setPhase_def)

lemma own_unstarted:
  assumes "pool_inv (p, cs)" "i < length cs" "a \<in> set (newWorkers (cs ! i))"
  shows "a < length (cells p) \<and> phase (cells p ! a) = Unstarted"
proof -
  have pos: "0 < csum (own a) cs"
    using csum_ge [OF assms(2), of "own a"] assms(3) by (metis own_def count_list_0_iff gr0I le_zero_eq)
  have "\<forall>b \<ge> length (cells p). csum (own b) cs = 0" using assms(1) by (simp add: pool_inv_def inv_at_def)
  with pos have a: "a < length (cells p)" by (metis not_less less_irrefl)
  with assms(1) have "cell_ok (ctxDone p) (csum (pend a) cs) (csum (own a) cs) (cells p ! a)"
    by (simp add: pool_inv_def inv_at_def)
  with pos a show ?thesis by (auto simp: cell_ok_def split: if_splits)
qed

lemma selfBlockedI:
  "i < length cs \<Longrightarrow> cs ! i = EBlocked a it rest nw \<Longrightarrow> a \<in> set nw \<Longrightarrow>
     length (ch (tws (cells p ! a))) = chanCap \<Longrightarrow> selfBlocked (p, cs) i"
  unfolding selfBlocked_def by auto

lemma selfBlocked_updCell:
  assumes inv: "pool_inv (p, cs)" and s: "selfBlocked (p, cs) i"
    and b: "phase (cells p ! b) \<noteq> Unstarted" and same: "cells p' = cells p"
  shows "selfBlocked (updCell b f p', cs) i"
proof -
  obtain a it rest nw where s: "i < length cs" "cs ! i = EBlocked a it rest nw" "a \<in> set nw"
    "length (ch (tws (cells p ! a))) = chanCap" using s by (auto simp: selfBlocked_def)
  moreover have "a < length (cells p) \<and> phase (cells p ! a) = Unstarted"
    using own_unstarted [OF inv s(1)] s by simp
  ultimately show ?thesis using b same by (intro selfBlockedI) (auto simp: nth_updCell)
qed

lemma selfBlocked_step:
  assumes "wstep c c'" "pool_inv c" "selfBlocked c i" "\<not> ctxDone (fst c)"
  shows "selfBlocked c' i"
  using assms
proof (induction rule: wstep.induct)
  case (enqueue p items p' r cs)
  then obtain a it rest nw where b: "i < length cs" "cs ! i = EBlocked a it rest nw" "a \<in> set nw"
    "length (ch (tws (cells p ! a))) = chanCap" by (auto simp: selfBlocked_def)
  have "a < length (cells p)" using own_unstarted [OF enqueue.prems(1) b(1)] b by simp
  with enqueue.hyps b enqLoop_full [of a p items "[]" p' r] have "length (ch (tws (cells p' ! a))) = chanCap"
    by (auto simp: startEnqueue_def split: if_splits)
  with b show ?case by (intro selfBlockedI) (auto simp: nth_append)
next
  case (send j cs b it' rest' nw' p)
  then obtain a it rest nw where s: "i < length cs" "cs ! i = EBlocked a it rest nw" "a \<in> set nw"
    "length (ch (tws (cells p ! a))) = chanCap" by (auto simp: selfBlocked_def)
  then have "b \<noteq> a" "j \<noteq> i" using send.hyps by auto
  moreover have "a < length (cells p)" using own_unstarted [OF send.prems(1) s(1)] s by simp
  ultimately show ?case using s by (intro selfBlockedI) (auto simp: nth_updCell)
next
  case (resume j cs b rest' nw' p p' r)
  then obtain a it rest nw where s: "i < length cs" "cs ! i = EBlocked a it rest nw" "a \<in> set nw"
    "length (ch (tws (cells p ! a))) = chanCap" by (auto simp: selfBlocked_def)
  then have "j \<noteq> i" using resume.hyps by auto
  moreover have "a < length (cells p)" using own_unstarted [OF resume.prems(1) s(1)] s by simp
  then have "length (ch (tws (cells p' ! a))) = chanCap"
    using s by (intro enqLoop_full [OF _ _ resume.hyps(3)]) (auto simp: nth_updCell)
  ultimately show ?case using s by (intro selfBlockedI) auto
next
  case (spawn j cs nw' p)
  then obtain a it rest nw where s: "i < length cs" "cs ! i = EBlocked a it rest nw" "a \<in> set nw"
    "length (ch (tws (cells p ! a))) = chanCap" by (auto simp: selfBlocked_def)
  then have "j \<noteq> i" using spawn.hyps by auto
  moreover have "a < length (cells p)" using own_unstarted [OF spawn.prems(1) s(1)] s by simp
  ultimately show ?case using s by (intro selfBlockedI) (auto simp: spawnAll_ch)
next
  case (receive b p cs)
  then show ?case by (intro selfBlocked_updCell) auto
next
  case (idle_prune b p p' cs)
  moreover from idle_prune.hyps(3) have "cells p' = cells p"
    by (auto simp: tryPruneIdleThread_def Let_def split: if_splits)
  ultimately show ?case by (intro selfBlocked_updCell) auto
next
  case (idle_keep b p p' cs)
  then show ?case by (auto simp: tryPruneIdleThread_def Let_def split: if_splits)
next
  case (begin_work b p it cs)
  then show ?case by (intro selfBlocked_updCell) auto
next
  case (finish_work b p items held cs)
  then show ?case by (intro selfBlocked_updCell) auto
qed (auto simp: selfBlocked_def HoldUntilLeader_def ReleaseLeaderHold_def)

lemma ctxDone_enqLoop: "enqLoop p items nw = (p', r) \<Longrightarrow> ctxDone p' = ctxDone p"
proof (induction p items nw arbitrary: p' r rule: enqLoop.induct)
  case (2 p k it rest nw)
  obtain p1 b nw1 where l: "lookupOrCreate p k nw = (p1, b, nw1)" by (cases "lookupOrCreate p k nw")
  then have d: "ctxDone p1 = ctxDone p" by (auto simp: lookupOrCreate_def Let_def split: option.splits)
  show ?case
  proof (cases "length (ch (tws (cells p1 ! b))) < chanCap")
    case True
    with "2.IH" [OF l [symmetric] refl refl True] "2.prems" l d show ?thesis by simp
  next
    case False
    with "2.prems" l d show ?thesis by auto
  qed
qed simp

lemma ctxDone_spawnAll [simp]: "ctxDone (spawnAll nw p) = ctxDone p"
  by (induction nw arbitrary: p) auto

lemma ctxDone_mono: "wstep c c' \<Longrightarrow> ctxDone (fst c) \<Longrightarrow> ctxDone (fst c')"
  by (induction rule: wstep.induct)
     (auto simp: startEnqueue_def tryPruneIdleThread_def Let_def HoldUntilLeader_def ReleaseLeaderHold_def
       dest: ctxDone_enqLoop split: if_splits)

lemma enqLoop_fills:
  assumes "threadChs p k = Some a" "a < length (cells p)" "a \<in> set nw" "\<forall>x \<in> set items. fst x = k"
    and "length (ch (tws (cells p ! a))) \<le> chanCap" "chanCap < length (ch (tws (cells p ! a))) + length items"
    and "enqLoop p items nw = (p', r)"
  shows "\<exists>it rest. r = EBlocked a it rest nw \<and> length (ch (tws (cells p' ! a))) = chanCap"
  using assms
proof (induction items arbitrary: p)
  case (Cons x items)
  obtain it where x: "x = (k, it)" using Cons.prems(4) by (cases x) auto
  have l: "lookupOrCreate p k nw = (p, a, nw)" using Cons.prems(1) by (simp add: lookupOrCreate_def)
  show ?case
  proof (cases "length (ch (tws (cells p ! a))) < chanCap")
    case True
    let ?p = "updCell a (sendItem it) p"
    have "length (ch (tws (cells ?p ! a))) = length (ch (tws (cells p ! a))) + 1"
      using Cons.prems(2) by (simp add: nth_updCell sendItem_def)
    with Cons.IH [of ?p] Cons.prems x l True show ?thesis by simp
  next
    case False
    with Cons.prems x l show ?thesis by (auto simp: nth_updCell)
  qed
qed simp

section \<open>A run\<close>

text \<open>A dispatch with an empty session is enqueued, its worker started, and the item received and begun.\<close>

definition demoQueued :: WorkerPool where
  "demoQueued = fst (EnqueueDispatch initPool zeroDispatch)"

definition demoWaiting :: WorkerPool where
  "demoWaiting = spawnAll [0] demoQueued"

definition demoRunning :: WorkerPool where
  "demoRunning = updCell 0 beginWork (updCell 0 popItem demoWaiting)"

lemma demoQueued_eq:
  "EnqueueDispatch initPool zeroDispatch = (demoQueued, ESpawn [0])"
  "cells demoQueued = [sendItem (ItemDispatch zeroDispatch) (newCell (dispatchScopeKey zeroDispatch))]"
  "ctxDone demoQueued = False"
  by (simp_all add: demoQueued_def EnqueueDispatch_def startEnqueue_def initPool_def lookupOrCreate_def
      newCell_def chanCap_def updCell_def)

lemma demoWaiting_eq:
  "cells demoWaiting = [setPhase Waiting (sendItem (ItemDispatch zeroDispatch) (newCell (dispatchScopeKey zeroDispatch)))]"
  "ctxDone demoWaiting = False"
  by (simp_all add: demoWaiting_def demoQueued_eq updCell_def)

lemma demoRunning_eq:
  "length (cells demoRunning) = 1" "phase (cells demoRunning ! 0) = Running [ItemDispatch zeroDispatch] None"
  by (simp_all add: demoRunning_def demoWaiting_eq updCell_def popItem_def beginWork_def setPhase_def
      sendItem_def newCell_def)

lemma demo_reachable:
  "reachable (demoQueued, [ESpawn [0]])" "reachable (demoWaiting, [EDone])" "reachable (demoRunning, [EDone])"
proof -
  have "reachable (initPool, [])" by (rule reach_init) simp
  moreover have "wstep (initPool, []) (demoQueued, [] @ [ESpawn [0]])"
    using demoQueued_eq(1) unfolding EnqueueDispatch_def by (rule wstep.enqueue)
  ultimately show q: "reachable (demoQueued, [ESpawn [0]])" by (auto intro: reach_step)
  have "wstep (demoQueued, [ESpawn [0]]) (spawnAll [0] demoQueued, [ESpawn [0]][0 := EDone])"
    by (rule wstep.spawn) auto
  with q show w: "reachable (demoWaiting, [EDone])" by (auto simp: demoWaiting_def intro: reach_step)
  have "wstep (demoWaiting, [EDone]) (updCell 0 popItem demoWaiting, [EDone])"
    by (rule wstep.receive) (simp_all add: demoWaiting_eq setPhase_def sendItem_def newCell_def)
  with w have r: "reachable (updCell 0 popItem demoWaiting, [EDone])" by (rule reach_step)
  have "wstep (updCell 0 popItem demoWaiting, [EDone]) (demoRunning, [EDone])"
    unfolding demoRunning_def
    by (rule wstep.begin_work [where it = "ItemDispatch zeroDispatch"])
       (simp_all add: demoWaiting_eq setPhase_def sendItem_def newCell_def updCell_def popItem_def)
  with r show "reachable (demoRunning, [EDone])" by (rule reach_step)
qed

section \<open>Properties\<close>





text \<open>
  C3. Idle pruning strands no work: while the pool runs, a queue that holds an item, or that a
  producer is blocked on, still has its worker (possibly one whose creator is about to start it)
  and is still the registered queue of its scope.
\<close>

theorem queue_no_orphan:
  assumes "reachable (p, cs)" "a < length (cells p)" "\<not> ctxDone p"
    and "ch (tws (cells p ! a)) \<noteq> [] \<or> (\<exists>c \<in> set cs. target c = Some a)"
  shows "phase (cells p ! a) \<noteq> Exited \<and> threadChs p (scope (cells p ! a)) = Some a"
proof -
  have "phase (cells p ! a) \<noteq> Exited"
  proof (cases "ch (tws (cells p ! a)) = []")
    case False
    with reachable_cell [OF assms(1,2)] assms(3) show ?thesis by (auto simp: cell_ok_def)
  next
    case True
    with assms(4) obtain i where "i < length cs" "target (cs ! i) = Some a" by (auto simp: in_set_conv_nth)
    from inv_target [OF tq.reach_inv [OF assms(1)] this] reachable_cell [OF assms(1,2)] assms(3)
    show ?thesis by (auto simp: cell_ok_def)
  qed
  with reg_ok_live [OF reachable_reg [OF assms(1)] assms(2)] show ?thesis by blast
qed

theorem queue_no_orphan_witness:
  "ch (tws (cells demoWaiting ! 0)) \<noteq> [] \<and> threadChs demoWaiting (scope (cells demoWaiting ! 0)) = Some 0"
proof -
  have c: "ch (tws (cells demoWaiting ! 0)) \<noteq> []" "0 < length (cells demoWaiting)"
    by (simp_all add: demoWaiting_eq setPhase_def sendItem_def newCell_def)
  from queue_no_orphan [OF demo_reachable(2) c(2)] c(1) demoWaiting_eq(2) show ?thesis by blast
qed

text \<open>
  C5. What a worker runs at once: a running turn is either a single dispatch, or a burst of one to
  five messages; an item held back for the next round is always a dispatch.
\<close>

theorem queue_burst_bounds:
  assumes "reachable (p, cs)" "a < length (cells p)" "phase (cells p ! a) = Running items held"
  shows "(\<exists>d. items = [ItemDispatch d]) \<and> held = None \<or>
     (\<exists>ms. items = map ItemMsg ms \<and> 1 \<le> length ms \<and> length ms \<le> 5) \<and>
     (held = None \<or> (\<exists>d. held = Some (ItemDispatch d)))"
proof -
  have "burst_ok (phase (cells p ! a))"
    using tb.reach_inv [OF assms(1)] assms(2) by (simp add: bursts_ok_def)
  with assms(3) show ?thesis by (cases held) (auto simp: burst_ok_def)
qed

theorem queue_burst_bounds_witness:
  "phase (cells demoRunning ! 0) = Running [ItemDispatch zeroDispatch] None \<and>
   (\<exists>d. [ItemDispatch zeroDispatch] = [ItemDispatch d])"
  using queue_burst_bounds [OF demo_reachable(3) _ demoRunning_eq(2)] demoRunning_eq by auto

text \<open>
  C4. Queues drain: a waiting worker that is left to itself empties its channel in at most as
  many rounds as the channel holds items, and has then run everything ever sent to the queue.
\<close>

theorem queue_drains:
  assumes "reachable (p, cs)" "a < length (cells p)" "phase (cells p ! a) = Waiting"
    and "length (ch (tws (cells p ! a))) \<le> r"
  shows "ch (tws ((workRound ^^ r) (cells p ! a))) = [] \<and>
    processed ((workRound ^^ r) (cells p ! a)) = sent (cells p ! a)"
  using workRounds_drain [OF reachable_cell [OF assms(1,2)] assms(3,4)] by blast

theorem queue_drains_witness:
  "ch (tws ((workRound ^^ 1) (cells demoWaiting ! 0))) = [] \<and>
   processed ((workRound ^^ 1) (cells demoWaiting ! 0)) = [ItemDispatch zeroDispatch]"
proof -
  have c: "0 < length (cells demoWaiting)" "phase (cells demoWaiting ! 0) = Waiting"
    "length (ch (tws (cells demoWaiting ! 0))) \<le> 1" "sent (cells demoWaiting ! 0) = [ItemDispatch zeroDispatch]"
    by (simp_all add: demoWaiting_eq setPhase_def sendItem_def newCell_def)
  from queue_drains [OF demo_reachable(2) c(1-3)] c(4) show ?thesis by simp
qed



end
