(* ===== verification/AMD.thy ===== *)
theory AMD
  imports Complex_Main Prelude
begin

text \<open>
  The answering-machine controller of the phone service, \<^verbatim>\<open>services/prospera/amd.go\<close>:
  \<^verbatim>\<open>AMDGreetingController\<close> holds the greeting until the callee's cadence or the carrier's
  detection webhook releases it, and switches to voicemail when a machine answers. The mutex makes
  every method one atomic step, so a call is a list of method calls. Root-mean-square levels are
  reals; millisecond counters are integers (a call stays far below the width of Go's \<^verbatim>\<open>int\<close>).
\<close>

section \<open>State\<close>

datatype AMDAction =
    AMDActionNone
  | AMDActionReleaseGreeting
  | AMDActionSwitchToVoicemail
  | AMDActionSpeakVoicemailAndHangup

datatype AMDState =
    AMDStateHolding
  | AMDStateReleased
  | AMDStateMachineDetected
  | AMDStateVoicemailReady

text \<open>The \<^verbatim>\<open>iota\<close> numbering of the constants gives the order that \<^verbatim>\<open>IsReleased\<close> compares with.\<close>

fun amd_rank :: "AMDState \<Rightarrow> nat" where
  "amd_rank AMDStateHolding = 0"
| "amd_rank AMDStateReleased = 1"
| "amd_rank AMDStateMachineDetected = 2"
| "amd_rank AMDStateVoicemailReady = 3"

lemma amd_rank_inj: "amd_rank a = amd_rank b \<Longrightarrow> a = b"
  by (cases a; cases b) auto

instantiation AMDState :: linorder
begin
definition less_eq_AMDState :: "AMDState \<Rightarrow> AMDState \<Rightarrow> bool" where
  "less_eq_AMDState a b \<longleftrightarrow> amd_rank a \<le> amd_rank b"
definition less_AMDState :: "AMDState \<Rightarrow> AMDState \<Rightarrow> bool" where
  "less_AMDState a b \<longleftrightarrow> amd_rank a < amd_rank b"
instance
  by standard (auto simp: less_eq_AMDState_def less_AMDState_def intro: amd_rank_inj)
end

record AMDGreetingController =
  amd_rmsThreshold :: real
  amd_state :: AMDState
  amd_totalElapsedMs :: int
  amd_currentSpeechMs :: int
  amd_currentSilenceMs :: int
  amd_qualifiedSpeech :: bool
  amd_conversationActive :: bool

section \<open>Operations\<close>

definition NewAMDGreetingController :: "real \<Rightarrow> AMDGreetingController" where
  "NewAMDGreetingController t =
     \<lparr>amd_rmsThreshold = (if t \<le> 0 then 15 / 1000 else t), amd_state = AMDStateHolding,
      amd_totalElapsedMs = 0, amd_currentSpeechMs = 0, amd_currentSilenceMs = 0,
      amd_qualifiedSpeech = False, amd_conversationActive = False\<rparr>"

definition IsReleased :: "AMDGreetingController \<Rightarrow> bool" where
  "IsReleased c = (amd_state c \<ge> AMDStateReleased)"

definition MarkConversationActive :: "AMDGreetingController \<Rightarrow> AMDGreetingController" where
  "MarkConversationActive c = c\<lparr>amd_conversationActive := True\<rparr>"

text \<open>The elapsed argument is a timestamp when it is beyond the total, otherwise a duration.\<close>

definition amd_delta :: "AMDGreetingController \<Rightarrow> int \<Rightarrow> int" where
  "amd_delta c elapsedMs =
     (if elapsedMs > amd_totalElapsedMs c then elapsedMs - amd_totalElapsedMs c else elapsedMs)"

definition amd_advance :: "AMDGreetingController \<Rightarrow> int \<Rightarrow> AMDGreetingController" where
  "amd_advance c elapsedMs =
     c\<lparr>amd_totalElapsedMs :=
         (if elapsedMs > amd_totalElapsedMs c then elapsedMs else amd_totalElapsedMs c + elapsedMs)\<rparr>"

definition amd_timeout :: "AMDGreetingController \<Rightarrow> AMDGreetingController \<times> AMDAction" where
  "amd_timeout c =
     (if amd_totalElapsedMs c \<ge> 2500 \<and> amd_currentSpeechMs c = 0 \<and> \<not> amd_qualifiedSpeech c
      then (c\<lparr>amd_state := AMDStateReleased\<rparr>, AMDActionReleaseGreeting)
      else (c, AMDActionNone))"

definition OnInboundFrame ::
    "AMDGreetingController \<Rightarrow> real \<Rightarrow> int \<Rightarrow> AMDGreetingController \<times> AMDAction" where
  "OnInboundFrame c0 rms elapsedMs =
     (if amd_state c0 \<noteq> AMDStateHolding then (c0, AMDActionNone)
      else let delta = amd_delta c0 elapsedMs; c = amd_advance c0 elapsedMs in
        if rms \<ge> amd_rmsThreshold c then
          (let speech = amd_currentSpeechMs c + delta in
           amd_timeout (c\<lparr>amd_currentSpeechMs := speech, amd_currentSilenceMs := 0,
                          amd_qualifiedSpeech := (amd_qualifiedSpeech c \<or> speech \<ge> 250)\<rparr>))
        else
          (let silence = amd_currentSilenceMs c + delta;
               c' = c\<lparr>amd_currentSilenceMs := silence, amd_currentSpeechMs := 0\<rparr> in
           if amd_qualifiedSpeech c \<and> silence \<ge> 600
           then (c'\<lparr>amd_state := AMDStateReleased\<rparr>, AMDActionReleaseGreeting)
           else amd_timeout c'))"

definition OnAMDWebhook :: "AMDGreetingController \<Rightarrow> string \<Rightarrow> AMDGreetingController \<times> AMDAction" where
  "OnAMDWebhook c answeredBy =
     (if amd_conversationActive c then (c, AMDActionNone)
      else let norm = toLower (trimSpace answeredBy) in
        if norm = ''human'' \<or> norm = ''unknown'' then
          (if amd_state c = AMDStateHolding
           then (c\<lparr>amd_state := AMDStateReleased\<rparr>, AMDActionReleaseGreeting)
           else (c, AMDActionNone))
        else if norm = ''machine_start'' \<or> norm = ''fax'' then
          (c\<lparr>amd_state := AMDStateMachineDetected\<rparr>, AMDActionSwitchToVoicemail)
        else if hasPrefix norm ''machine_end'' then
          (if norm = ''machine_end_other'' \<and> amd_state c = AMDStateReleased
           then (c, AMDActionNone)
           else (c\<lparr>amd_state := AMDStateVoicemailReady\<rparr>, AMDActionSpeakVoicemailAndHangup))
        else (c, AMDActionNone))"

section \<open>Calls as sequences of method calls\<close>

datatype AMDEvent = Frame real int | Webhook string | ConversationActive

fun amd_step :: "AMDGreetingController \<Rightarrow> AMDEvent \<Rightarrow> AMDGreetingController \<times> AMDAction" where
  "amd_step c (Frame rms ms) = OnInboundFrame c rms ms"
| "amd_step c (Webhook s) = OnAMDWebhook c s"
| "amd_step c ConversationActive = (MarkConversationActive c, AMDActionNone)"

fun amd_run :: "AMDGreetingController \<Rightarrow> AMDEvent list \<Rightarrow> AMDGreetingController \<times> AMDAction list" where
  "amd_run c [] = (c, [])"
| "amd_run c (e # es) =
     (let (c1, a) = amd_step c e; (c2, as) = amd_run c1 es in (c2, a # as))"

lemmas amd_defs = OnInboundFrame_def OnAMDWebhook_def MarkConversationActive_def
  amd_timeout_def amd_advance_def amd_delta_def Let_def

lemma IsReleased_iff: "IsReleased c \<longleftrightarrow> amd_state c \<noteq> AMDStateHolding"
  by (cases "amd_state c") (auto simp: IsReleased_def less_eq_AMDState_def)

lemma amd_step_leaves_holding:
  "amd_state c \<noteq> AMDStateHolding \<Longrightarrow> amd_step c e = (c', a) \<Longrightarrow>
     amd_state c' \<noteq> AMDStateHolding \<and> a \<noteq> AMDActionReleaseGreeting"
  by (cases e) (auto simp: amd_defs split: if_splits)

lemma amd_step_release:
  "amd_step c e = (c', AMDActionReleaseGreeting) \<Longrightarrow>
     amd_state c = AMDStateHolding \<and> amd_state c' = AMDStateReleased"
  by (cases e) (auto simp: amd_defs split: if_splits)

lemma amd_step_active:
  "amd_conversationActive c \<Longrightarrow> amd_step c e = (c', a) \<Longrightarrow>
     amd_conversationActive c' \<and> (a = AMDActionNone \<or> a = AMDActionReleaseGreeting) \<and>
     (amd_state c' = amd_state c \<or> amd_state c = AMDStateHolding \<and> amd_state c' = AMDStateReleased)"
  by (cases e) (auto simp: amd_defs split: if_splits)

lemma amd_run_released_silent:
  "amd_state c \<noteq> AMDStateHolding \<Longrightarrow> amd_run c es = (c', as) \<Longrightarrow>
     AMDActionReleaseGreeting \<notin> set as \<and> amd_state c' \<noteq> AMDStateHolding"
proof (induction es arbitrary: c as)
  case (Cons e es)
  obtain c1 a where step: "amd_step c e = (c1, a)" by (cases "amd_step c e")
  obtain as' where run: "amd_run c1 es = (c', as')" and as: "as = a # as'"
    using Cons.prems(2) step by (auto split: prod.splits)
  from amd_step_leaves_holding [OF Cons.prems(1) step] Cons.IH [OF _ run] as
  show ?case by auto
qed simp

text \<open>Consecutive silent frames of one duration: how the totals grow while the greeting is held.\<close>

fun silent_frames :: "nat \<Rightarrow> real \<Rightarrow> int \<Rightarrow> AMDEvent list" where
  "silent_frames 0 rms d = []"
| "silent_frames (Suc n) rms d = silent_frames n rms d @ [Frame rms d]"

lemma amd_run_append:
  "fst (amd_run c (es @ fs)) = fst (amd_run (fst (amd_run c es)) fs)"
  by (induction es arbitrary: c) (auto simp: case_prod_beta Let_def)

lemma amd_silent_progress:
  assumes "rms < amd_rmsThreshold c" "0 < d" "0 \<le> amd_totalElapsedMs c" "0 \<le> amd_currentSilenceMs c"
    and "amd_state (fst (amd_run c (silent_frames n rms d))) = AMDStateHolding"
  defines "c' \<equiv> fst (amd_run c (silent_frames n rms d))"
  shows "amd_rmsThreshold c' = amd_rmsThreshold c \<and> int n * d \<le> amd_totalElapsedMs c' \<and>
     int n * d \<le> amd_currentSilenceMs c' + d \<and> 0 \<le> amd_currentSilenceMs c' \<and>
     0 \<le> amd_totalElapsedMs c' \<and> (n > 0 \<longrightarrow> d \<le> amd_totalElapsedMs c')"
  using assms(5) unfolding c'_def
proof (induction n)
  case 0
  with assms show ?case by simp
next
  case (Suc n)
  let ?p = "fst (amd_run c (silent_frames n rms d))"
  have last: "fst (amd_run c (silent_frames (Suc n) rms d)) = fst (OnInboundFrame ?p rms d)"
    by (simp add: amd_run_append split: prod.splits)
  have held: "amd_state ?p = AMDStateHolding"
    using Suc.prems unfolding last by (rule contrapos_pp) (simp add: OnInboundFrame_def)
  note IH = Suc.IH [OF held]
  with assms(1,2) held show ?case
    unfolding last by (cases n) (auto simp: amd_defs algebra_simps split: if_splits)
qed

section \<open>Properties\<close>

text \<open>
  C37. The greeting is released at most once in a call: whatever frames, webhooks and
  conversation marks arrive, in whatever order, \<^verbatim>\<open>AMDActionReleaseGreeting\<close> is returned at most
  once, and once the controller has left the holding state it never holds again.
\<close>

theorem amd_release_at_most_once:
  "count_list (snd (amd_run c es)) AMDActionReleaseGreeting \<le> 1 \<and>
   (IsReleased c \<longrightarrow> IsReleased (fst (amd_run c es)))"
proof (induction es arbitrary: c)
  case (Cons e es)
  obtain c1 a where step: "amd_step c e = (c1, a)" by (cases "amd_step c e")
  obtain c2 as where run: "amd_run c1 es = (c2, as)" by (cases "amd_run c1 es")
  have keeps: "IsReleased c \<Longrightarrow> IsReleased c1"
    using amd_step_leaves_holding [OF _ step] by (simp add: IsReleased_iff)
  show ?case
  proof (cases "a = AMDActionReleaseGreeting")
    case True
    with amd_step_release step have "amd_state c1 \<noteq> AMDStateHolding" by fastforce
    with amd_run_released_silent [OF this run] step run True
    show ?thesis by (simp add: IsReleased_iff count_list_0_iff)
  next
    case False
    with Cons.IH [of c1] step run keeps show ?thesis by auto
  qed
qed simp

theorem amd_release_at_most_once_witness:
  "IsReleased (fst (OnAMDWebhook (NewAMDGreetingController 0) ''human'')) \<and>
   IsReleased (fst (amd_run (fst (OnAMDWebhook (NewAMDGreetingController 0) ''human'')) [Webhook ''fax'']))"
proof -
  let ?c = "fst (OnAMDWebhook (NewAMDGreetingController 0) ''human'')"
  have norm: "toLower (trimSpace ''human'') = ''human''" by code_simp
  have "IsReleased ?c"
    by (simp add: IsReleased_iff OnAMDWebhook_def norm NewAMDGreetingController_def)
  with amd_release_at_most_once [of ?c "[Webhook ''fax'']"] show ?thesis by blast
qed

text \<open>
  C38. Once a live conversation is marked, no later event can hijack the call: every action is
  either nothing or the (single) release of the greeting, so neither voicemail action is ever
  returned, and the state changes at most from holding to released.
\<close>

theorem amd_conversation_not_hijacked:
  assumes "amd_conversationActive c" and "amd_run c es = (c', as)"
  shows "set as \<subseteq> {AMDActionNone, AMDActionReleaseGreeting} \<and>
    (amd_state c' = amd_state c \<or>
     amd_state c = AMDStateHolding \<and> amd_state c' = AMDStateReleased)"
  using assms
proof (induction es arbitrary: c as)
  case (Cons e es)
  obtain c1 a where step: "amd_step c e = (c1, a)" by (cases "amd_step c e")
  obtain as' where run: "amd_run c1 es = (c', as')" and as: "as = a # as'"
    using Cons.prems(2) step by (auto split: prod.splits)
  note s = amd_step_active [OF Cons.prems(1) step]
  from s Cons.IH [OF _ run] as show ?case by auto
qed simp

theorem amd_conversation_not_hijacked_witness:
  "amd_run (MarkConversationActive (NewAMDGreetingController 0)) [Webhook ''machine_start''] =
     (MarkConversationActive (NewAMDGreetingController 0), [AMDActionNone]) \<and>
   set [AMDActionNone] \<subseteq> {AMDActionNone, AMDActionReleaseGreeting}"
proof -
  let ?c = "MarkConversationActive (NewAMDGreetingController 0)"
  have a: "amd_conversationActive ?c" by (simp add: MarkConversationActive_def)
  have r: "amd_run ?c [Webhook ''machine_start''] = (?c, [AMDActionNone])"
    using a by (simp add: OnAMDWebhook_def)
  from amd_conversation_not_hijacked [OF a r] r show ?thesis by blast
qed

text \<open>
  C39. A silent line never stays on hold: from any holding controller, after n frames of d
  milliseconds below the speech threshold, with (n - 1) * d at least 2500, the greeting has
  been released, whether or not speech was heard before.
\<close>

theorem amd_silence_releases:
  assumes "rms < amd_rmsThreshold c" "0 < d"
    and "0 \<le> amd_totalElapsedMs c" "0 \<le> amd_currentSilenceMs c"
    and "2500 \<le> (int n - 1) * d"
  shows "IsReleased (fst (amd_run c (silent_frames n rms d)))"
proof (rule ccontr)
  assume "\<not> ?thesis"
  then have held: "amd_state (fst (amd_run c (silent_frames n rms d))) = AMDStateHolding"
    by (simp add: IsReleased_iff)
  obtain m where n: "n = Suc m" using assms(2,5) by (cases n) auto
  let ?p = "fst (amd_run c (silent_frames m rms d))"
  have last: "fst (amd_run c (silent_frames n rms d)) = fst (OnInboundFrame ?p rms d)"
    unfolding n by (simp add: amd_run_append split: prod.splits)
  have prev: "amd_state ?p = AMDStateHolding"
    using held unfolding last by (rule contrapos_pp) (simp add: OnInboundFrame_def)
  note grow = amd_silent_progress [OF assms(1-4) prev]
  have "2500 \<le> int m * d" using assms(5) n by simp
  moreover have "int m * d \<le> amd_currentSilenceMs ?p + d" using grow by blast
  moreover have "int m * d \<le> amd_totalElapsedMs ?p" using grow by blast
  moreover have "d \<le> amd_totalElapsedMs ?p"
    using grow \<open>2500 \<le> int m * d\<close> by (cases m) auto
  ultimately show False
    using held prev grow assms(1,2) unfolding last by (auto simp: amd_defs split: if_splits)
qed

theorem amd_silence_releases_witness:
  "IsReleased (fst (amd_run (NewAMDGreetingController 0) (silent_frames 126 0 20)))"
  by (rule amd_silence_releases) (simp_all add: NewAMDGreetingController_def)

end
