(* ===== verification/Audio.thy ===== *)
theory Audio
  imports Prelude "HOL-Library.Word" "HOL-Library.Signed_Division"
begin

text \<open>
  The audio codec of the phone service, \<^verbatim>\<open>services/prospera/ulaw.go\<close>: G.711 mu-law
  coding, resampling and little-endian framing of 16-bit samples. \<^verbatim>\<open>byte\<close> is an
  8-bit word, \<^verbatim>\<open>int16\<close> a 16-bit word read with \<^const>\<open>sint\<close>, and the 32-bit
  intermediate sums are 32-bit words divided by the truncating division of Go.
\<close>

unbundle bit_operations_syntax

type_synonym byte = "8 word"
type_synonym int16 = "16 word"
type_synonym int32 = "32 word"

section \<open>Mu-law tables and coding\<close>

text \<open>One entry of the table that \<^verbatim>\<open>init\<close> fills.\<close>

definition muLawEntry :: "byte \<Rightarrow> int16" where
  "muLawEntry i =
     (let inv = NOT i;
          sign = inv AND 0x80;
          exponent = drop_bit 4 inv AND 0x07;
          mantissa = inv AND 0x0F;
          sample = (word_of_int (push_bit (unat exponent) (push_bit 3 (uint mantissa) + 0x84)) :: int16)
                     - 0x84
      in if sign \<noteq> 0 then - sample else sample)"

definition muLawToPCMTable :: "int16 list" where
  "muLawToPCMTable = map (\<lambda>i. muLawEntry (word_of_nat i)) [0..<256]"

definition MuLawToPCM16 :: "byte list \<Rightarrow> int16 list" where
  "MuLawToPCM16 ulaw = map (\<lambda>b. muLawToPCMTable ! unat b) ulaw"

text \<open>The loop that lowers the exponent while the probed bit of the biased sample is clear.\<close>

fun expLoop :: "int \<Rightarrow> int \<Rightarrow> nat \<Rightarrow> nat" where
  "expLoop s expMask 0 = 0"
| "expLoop s expMask (Suc e) =
     (if s AND expMask = 0 then expLoop s (drop_bit 1 expMask) e else Suc e)"

definition biased :: "int16 \<Rightarrow> int" where
  "biased sample =
     (let s = sint sample;
          s = (if s < 0 then - s else s);
          s = (if s > 32635 then 32635 else s)
      in s + 0x84)"

definition muLawByte :: "int16 \<Rightarrow> byte" where
  "muLawByte sample =
     (let sign = (if sint sample < 0 then 0x80 else 0);
          s = biased sample;
          exponent = expLoop s 0x4000 7;
          mantissa = drop_bit (exponent + 3) s AND 0x0F
      in NOT (sign OR word_of_int (push_bit 4 (int exponent)) OR word_of_int mantissa))"

definition PCM16ToMuLaw :: "int16 list \<Rightarrow> byte list" where
  "PCM16ToMuLaw pcm = map muLawByte pcm"

section \<open>Resampling\<close>

text \<open>Go's \<^verbatim>\<open>/\<close> on \<^verbatim>\<open>int32\<close> truncates towards zero.\<close>

definition div32 :: "int32 \<Rightarrow> int \<Rightarrow> int32" where
  "div32 a b = word_of_int (sint a sdiv b)"

definition s32 :: "int16 \<Rightarrow> int32" where
  "s32 x = scast x"

fun Resample8kTo16k :: "int16 list \<Rightarrow> int16 list" where
  "Resample8kTo16k [] = []"
| "Resample8kTo16k [x] = [x, x]"
| "Resample8kTo16k (x # y # zs) = x # scast (div32 (s32 x + s32 y) 2) # Resample8kTo16k (y # zs)"

definition firSum :: "int16 list \<Rightarrow> nat \<Rightarrow> int32" where
  "firSum xs c = s32 (xs ! (c - 3)) + 2 * s32 (xs ! (c - 2)) + 3 * s32 (xs ! (c - 1)) +
     4 * s32 (xs ! c) + 3 * s32 (xs ! (c + 1)) + 2 * s32 (xs ! (c + 2)) + s32 (xs ! (c + 3))"

definition blockSum :: "int16 list \<Rightarrow> nat \<Rightarrow> int32" where
  "blockSum xs i = s32 (xs ! (3 * i)) + s32 (xs ! (3 * i + 1)) + s32 (xs ! (3 * i + 2))"

definition resample24Sample :: "int16 list \<Rightarrow> nat \<Rightarrow> int16" where
  "resample24Sample xs i =
     (let c = 3 * i + 1 in
      if c \<ge> 3 \<and> c + 3 < length xs then scast (div32 (firSum xs c) 16)
      else scast (div32 (blockSum xs i) 3))"

definition Resample24kTo8k :: "int16 list \<Rightarrow> int16 list" where
  "Resample24kTo8k xs = map (resample24Sample xs) [0..<length xs div 3]"

section \<open>Little-endian framing and WAV\<close>

definition putUint16 :: "16 word \<Rightarrow> byte list" where
  "putUint16 x = [ucast x, ucast (drop_bit 8 x)]"

definition putUint32 :: "32 word \<Rightarrow> byte list" where
  "putUint32 x = [ucast x, ucast (drop_bit 8 x), ucast (drop_bit 16 x), ucast (drop_bit 24 x)]"

definition getUint16 :: "byte \<Rightarrow> byte \<Rightarrow> 16 word" where
  "getUint16 b0 b1 = ucast b0 OR push_bit 8 (ucast b1)"

definition getUint32 :: "byte list \<Rightarrow> 32 word" where
  "getUint32 b = ucast (b ! 0) OR push_bit 8 (ucast (b ! 1)) OR push_bit 16 (ucast (b ! 2))
     OR push_bit 24 (ucast (b ! 3))"

definition PCM16ToLEBytes :: "int16 list \<Rightarrow> byte list" where
  "PCM16ToLEBytes samples = concat (map putUint16 samples)"

fun LEBytesToPCM16 :: "byte list \<Rightarrow> int16 list" where
  "LEBytesToPCM16 (b0 # b1 # bs) = getUint16 b0 b1 # LEBytesToPCM16 bs"
| "LEBytesToPCM16 _ = []"

definition bytesOf :: "string \<Rightarrow> byte list" where
  "bytesOf s = map (\<lambda>c. word_of_nat (of_char c)) s"

definition EncodePCM16WAV :: "int16 list \<Rightarrow> int \<Rightarrow> byte list" where
  "EncodePCM16WAV samples rate =
     (if samples = [] then []
      else let sampleRate = (if rate \<le> 0 then 8000 else rate);
               dataSize = int (length samples) * 2
        in bytesOf ''RIFF'' @ putUint32 (word_of_int (36 + dataSize)) @ bytesOf ''WAVE'' @
           bytesOf ''fmt '' @ putUint32 16 @ putUint16 1 @ putUint16 1 @
           putUint32 (word_of_int sampleRate) @ putUint32 (word_of_int (sampleRate * 2)) @
           putUint16 2 @ putUint16 16 @ bytesOf ''data'' @ putUint32 (word_of_int dataSize) @
           PCM16ToLEBytes samples)"

definition clampInt16 :: "int32 \<Rightarrow> int16" where
  "clampInt16 v = (if sint v > 32767 then 32767 else if sint v < -32768 then -32768 else scast v)"

section \<open>Coding lemmas\<close>

lemma sint16_bounds: "- 32768 \<le> sint (x :: int16)" "sint x \<le> 32767"
  using sint_range_size [of x] by (auto simp: size_word_def)

lemma biased_bounds: "132 \<le> biased x \<and> biased x \<le> 32767"
  by (auto simp: biased_def Let_def)

lemma and_pow2_zero_iff: "(s :: int) AND 2 ^ k = 0 \<longleftrightarrow> \<not> odd (s div 2 ^ k)"
  by (auto simp: and_exp_eq_0_iff_not_bit bit_iff_odd)

lemma expLoop_spec:
  assumes "0 \<le> s" "s < 2 ^ (e + 8)" "128 \<le> s"
  shows "expLoop s (2 ^ (e + 7)) e \<le> e \<and> 2 ^ (expLoop s (2 ^ (e + 7)) e + 7) \<le> s \<and>
     s < 2 ^ (expLoop s (2 ^ (e + 7)) e + 8)"
  using assms(2)
proof (induction e)
  case 0
  with assms show ?case by simp
next
  case (Suc e)
  let ?p = "2 ^ (Suc e + 7) :: int"
  have half: "drop_bit 1 (2 ^ (Suc e + 7) :: int) = 2 ^ (e + 7)"
    by (simp add: drop_bit_eq_div power_add)
  show ?case
  proof (cases "?p \<le> s")
    case True
    have "s div ?p = 1"
      using True Suc.prems by (intro int_div_pos_eq [of s ?p 1 "s - ?p"]) (auto simp: power_add)
    then have "s AND 2 ^ (Suc e + 7) \<noteq> 0" by (simp add: and_pow2_zero_iff)
    with True Suc.prems show ?thesis by (simp add: ac_simps)
  next
    case False
    then have "s div ?p = 0" using assms(1) by simp
    then have z: "s AND 2 ^ (Suc e + 7) = 0" by (simp add: and_pow2_zero_iff)
    from False Suc.IH have "expLoop s (2 ^ (e + 7)) e \<le> e \<and>
      2 ^ (expLoop s (2 ^ (e + 7)) e + 7) \<le> s \<and> s < 2 ^ (expLoop s (2 ^ (e + 7)) e + 8)" by (simp add: add.commute)
    then show ?thesis unfolding expLoop.simps half using z by simp
  qed
qed

lemma expLoop7:
  "132 \<le> s \<Longrightarrow> s \<le> 32767 \<Longrightarrow>
     expLoop s 0x4000 7 \<le> 7 \<and> 2 ^ (expLoop s 0x4000 7 + 7) \<le> s \<and> s < 2 ^ (expLoop s 0x4000 7 + 8)"
  using expLoop_spec [of s 7] by simp

text \<open>The code byte from its three fields, and what the table holds for it.\<close>

definition packCode :: "bool \<Rightarrow> nat \<Rightarrow> nat \<Rightarrow> byte" where
  "packCode neg e m = NOT ((if neg then 0x80 else 0) OR word_of_nat (e * 16) OR word_of_nat m)"

lemma muLawEntry_packCode_all:
  "list_all (\<lambda>neg. list_all (\<lambda>e. list_all (\<lambda>m.
      sint (muLawEntry (packCode neg e m)) =
        (if neg then - 1 else 1) * ((int m * 8 + 132) * 2 ^ e - 132)) [0..<16]) [0..<8]) [False, True]"
  by code_simp

lemma muLawEntry_packCode:
  assumes "e < 8" "m < 16"
  shows "sint (muLawEntry (packCode neg e m)) =
    (if neg then - 1 else 1) * ((int m * 8 + 132) * 2 ^ e - 132)"
  using muLawEntry_packCode_all assms by (cases neg) (auto simp: list_all_iff)

lemma packCode_surj_all:
  "list_all (\<lambda>i. word_of_nat i =
      packCode (i < 128) ((255 - i) div 16 mod 8) ((255 - i) mod 16)) [0..<256]"
  by code_simp

lemma packCode_cases:
  obtains neg e m where "e < 8" "m < 16" "(b :: byte) = packCode neg e m"
proof -
  have "unat b < 256" using unsigned_less [of b, where ?'a = nat] by simp
  moreover have "\<And>i. i < 256 \<Longrightarrow>
      word_of_nat i = packCode (i < 128) ((255 - i) div 16 mod 8) ((255 - i) mod 16)"
    using packCode_surj_all by (simp add: list_all_iff)
  ultimately have "word_of_nat (unat b) =
      packCode (unat b < 128) ((255 - unat b) div 16 mod 8) ((255 - unat b) mod 16)" by blast
  then show ?thesis by (intro that) auto
qed

lemma mod16_of_16_32: "16 \<le> q \<Longrightarrow> q < 32 \<Longrightarrow> q mod 16 = q - (16 :: int)"
  by presburger

lemma muLawByte_packCode:
  assumes "e < 8" and b: "2 ^ (e + 7) \<le> biased x" "biased x < 2 ^ (e + 8)"
  shows "muLawByte x = packCode (sint x < 0) e (nat (biased x div 2 ^ (e + 3) - 16)) \<and>
     16 \<le> biased x div 2 ^ (e + 3) \<and> biased x div 2 ^ (e + 3) < 32"
proof -
  let ?s = "biased x" and ?E = "expLoop (biased x) 0x4000 7"
  note r = expLoop7 [OF conjunct1 [OF biased_bounds [of x]] conjunct2 [OF biased_bounds [of x]]]
  have "?E = e"
  proof (rule ccontr)
    assume "?E \<noteq> e"
    then consider "?E + 8 \<le> e + 7" | "e + 8 \<le> ?E + 7" by linarith
    then show False
    proof cases
      case 1
      then have "(2::int) ^ (?E + 8) \<le> 2 ^ (e + 7)" by (rule power_increasing) simp
      with r b show False by linarith
    next
      case 2
      then have "(2::int) ^ (e + 8) \<le> 2 ^ (?E + 7)" by (rule power_increasing) simp
      with r b show False by linarith
    qed
  qed
  have lo: "16 \<le> ?s div 2 ^ (e + 3)"
    using zdiv_mono1 [of "16 * 2 ^ (e + 3)" ?s "2 ^ (e + 3)"] b(1) by (simp add: power_add)
  have hi: "?s div 2 ^ (e + 3) < 32"
  proof -
    have "?s div 2 ^ (e + 3) * 2 ^ (e + 3) \<le> ?s"
      by (simp add: minus_mod_eq_div_mult [symmetric])
    also have "?s < 32 * 2 ^ (e + 3)" using b(2) by (simp add: power_add)
    finally show ?thesis by (rule mult_right_less_imp_less) simp
  qed
  have m: "drop_bit (e + 3) ?s AND 0x0F = ?s div 2 ^ (e + 3) - 16"
  proof -
    have "drop_bit (e + 3) ?s AND 0x0F = (?s div 2 ^ (e + 3)) mod 16"
      using take_bit_eq_mask [of 4 "?s div 2 ^ (e + 3)"]
      by (simp add: drop_bit_eq_div take_bit_eq_mod mask_eq_exp_minus_1)
    also have "\<dots> = ?s div 2 ^ (e + 3) - 16" using lo hi by (rule mod16_of_16_32)
    finally show ?thesis .
  qed
  show ?thesis
    unfolding muLawByte_def Let_def \<open>?E = e\<close> m packCode_def using lo hi
    by (simp add: push_bit_eq_mult)
qed

section \<open>Coding properties\<close>

definition clip :: "int16 \<Rightarrow> int" where
  "clip x = max (- 32635) (min 32635 (sint x))"

lemma biased_clip: "biased x = \<bar>clip x\<bar> + 132"
  by (auto simp: biased_def clip_def Let_def)

lemma clip_neg: "clip x < 0 \<longleftrightarrow> sint x < 0"
  by (auto simp: clip_def)

lemma muLaw_decode_encode:
  "32 * \<bar>sint (muLawEntry (muLawByte x)) - clip x\<bar> \<le> \<bar>clip x\<bar> + 132"
proof -
  define e where "e = expLoop (biased x) 0x4000 7"
  let ?k = "2 ^ (e + 3) :: int" and ?s = "biased x"
  have r: "e < 8" "2 ^ (e + 7) \<le> ?s" "?s < 2 ^ (e + 8)"
    using expLoop7 [of "biased x"] biased_bounds [of x] unfolding e_def by auto
  note p = muLawByte_packCode [OF r]
  define q where "q = ?s div ?k"
  have q: "muLawByte x = packCode (sint x < 0) e (nat (q - 16))" "16 \<le> q" "q < 32"
    using p unfolding q_def by auto
  have val: "sint (muLawEntry (muLawByte x)) = (if sint x < 0 then - 1 else 1) * (q * ?k + 4 * 2 ^ e - 132)"
    unfolding q(1) using q(2,3) r(1) by (subst muLawEntry_packCode) (auto simp: algebra_simps power_add)
  have k: "?k = 8 * 2 ^ e" by (simp add: power_add)
  define rm where "rm = ?s mod ?k"
  have "?s = q * ?k + rm" unfolding q_def rm_def by (rule div_mult_mod_eq [symmetric])
  moreover have "0 \<le> rm" "rm < 8 * 2 ^ e" unfolding rm_def k [symmetric] by simp_all
  ultimately have "\<bar>q * ?k + 4 * 2 ^ e - ?s\<bar> \<le> 4 * 2 ^ e" by linarith
  then have err: "\<bar>sint (muLawEntry (muLawByte x)) - clip x\<bar> \<le> 4 * 2 ^ e"
    unfolding val using biased_clip [of x] clip_neg [of x] by auto
  then have "32 * \<bar>sint (muLawEntry (muLawByte x)) - clip x\<bar> \<le> 32 * (4 * 2 ^ e)" by simp
  also have "\<dots> \<le> ?s" using r(2) by (simp add: power_add)
  finally show ?thesis by (simp add: biased_clip)
qed

lemma muLaw_encode_decode:
  "muLawByte (muLawEntry b) = (if b = 0x7F then 0xFF else b)"
proof -
  obtain neg e m where f: "e < 8" "m < 16" "b = packCode neg e m" by (rule packCode_cases)
  let ?x = "muLawEntry b" and ?v = "(int m * 8 + 132) * 2 ^ e"
  have x: "sint ?x = (if neg then - 1 else 1) * (?v - 132)"
    using f muLawEntry_packCode by simp
  have lo: "132 * 2 ^ e \<le> ?v" and hi: "?v \<le> 252 * 2 ^ e"
    using f(2) by (auto intro: mult_right_mono)
  have "(2::int) ^ e \<le> 2 ^ 7" by (rule power_increasing) (use f(1) in auto)
  then have "(2::int) ^ e \<le> 128" by simp
  moreover have "(1::int) \<le> 2 ^ e" by simp
  ultimately have "132 \<le> ?v" "?v \<le> 32256" using lo hi by linarith+
  then have bv: "biased ?x = ?v" unfolding biased_clip clip_def x by (auto simp: max_def min_def)
  have "2 ^ (e + 7) \<le> biased ?x" "biased ?x < 2 ^ (e + 8)"
    unfolding bv using lo hi by (auto simp: power_add intro: order_less_le_trans order_trans)
  note p = muLawByte_packCode [OF f(1) this]
  have k: "(2::int) ^ (e + 3) = 8 * 2 ^ e" by (simp add: power_add)
  have "?v div 2 ^ (e + 3) = (int m * 8 + 132) div 8" unfolding k by (rule div_mult_mult2) simp
  then have "?v div 2 ^ (e + 3) = int m + 16" by simp
  with p bv have enc: "muLawByte ?x = packCode (sint ?x < 0) e m" by simp
  have zero: "?v = 132 \<longleftrightarrow> e = 0 \<and> m = 0"
  proof
    assume v: "?v = 132"
    have "e = 0"
    proof (rule ccontr)
      assume "e \<noteq> 0"
      then have "(2::int) ^ 1 \<le> 2 ^ e" by (intro power_increasing) auto
      with lo v show False by simp
    qed
    with v show "e = 0 \<and> m = 0" by simp
  qed auto
  have codes: "packCode True 0 0 = 0x7F" "packCode False 0 0 = 0xFF" by (code_simp, code_simp)
  have sign: "sint ?x < 0 \<longleftrightarrow> neg \<and> \<not> (e = 0 \<and> m = 0)"
    using zero x \<open>132 \<le> ?v\<close> by auto
  show ?thesis
  proof (cases "b = 0x7F")
    case True
    have "sint (muLawEntry (packCode True 0 0)) = 0" using muLawEntry_packCode [of 0 0 True] by simp
    with True codes have "sint ?x = 0" by simp
    with x have "?v = 132" by (auto split: if_splits)
    with zero enc sign codes True show ?thesis by simp
  next
    case False
    with f(3) codes have "\<not> (neg \<and> e = 0 \<and> m = 0)" by metis
    with enc sign f(3) False show ?thesis by auto
  qed
qed

lemma table_lookup [simp]: "muLawToPCMTable ! unat b = muLawEntry b"
proof -
  have "unat b < 256" using unsigned_less [of b, where ?'a = nat] by simp
  then show ?thesis by (simp add: muLawToPCMTable_def)
qed

text \<open>
  Decoding mu-law bytes to samples and encoding the samples again gives the bytes back,
  except that the second code of zero, 0x7F, comes back as 0xFF.
\<close>

theorem muLaw_bytes_roundtrip:
  "PCM16ToMuLaw (MuLawToPCM16 bs) = map (\<lambda>b. if b = 0x7F then 0xFF else b) bs"
  by (simp add: PCM16ToMuLaw_def MuLawToPCM16_def muLaw_encode_decode)

text \<open>
  C40. Companding loses little: every sample of a PCM buffer survives encoding and decoding
  within (|c| + 132) / 32 of the clipped sample c, so the relative error of a loud sample
  is about three per cent, and nothing is reordered, dropped or added.
\<close>

theorem muLaw_samples_error:
  "list_all2 (\<lambda>x y. 32 * \<bar>sint y - clip x\<bar> \<le> \<bar>clip x\<bar> + 132) xs (MuLawToPCM16 (PCM16ToMuLaw xs))"
  by (simp add: PCM16ToMuLaw_def MuLawToPCM16_def list_all2_conv_all_nth muLaw_decode_encode)

section \<open>Resampling properties\<close>

lemma sint_s32 [simp]: "sint (s32 x) = sint x"
  unfolding s32_def by (rule sint_up_scast) (simp add: is_up)

lemma sint32_of_int:
  "- (2 ^ 31) \<le> k \<Longrightarrow> k < 2 ^ 31 \<Longrightarrow> sint (word_of_int k :: int32) = k"
  by (simp add: signed_of_int signed_take_bit_int_eq_self)

lemma sint16_of_int:
  "- 32768 \<le> k \<Longrightarrow> k \<le> 32767 \<Longrightarrow> sint (word_of_int k :: int16) = k"
  by (simp add: signed_of_int signed_take_bit_int_eq_self)

lemma s32_of_int: "s32 x = word_of_int (sint x)"
  by (simp add: s32_def)

lemma sdiv_between:
  assumes "lo * n \<le> k" "k \<le> hi * n" "0 < (n :: int)"
  shows "lo \<le> k sdiv n \<and> k sdiv n \<le> hi"
proof (cases "0 \<le> k")
  case True
  then have "k sdiv n = k div n" using assms(3) by (simp add: signed_divide_int_def sgn_if)
  moreover have "lo \<le> k div n" using zdiv_mono1 [OF assms(1,3)] assms(3) by simp
  moreover have "k div n \<le> hi" using zdiv_mono1 [OF assms(2,3)] assms(3) by simp
  ultimately show ?thesis by simp
next
  case False
  then have "k sdiv n = - (- k div n)" using assms(3) by (simp add: signed_divide_int_def sgn_if)
  moreover have "- hi \<le> - k div n"
    using zdiv_mono1 [of "(- hi) * n" "- k" n] nonzero_mult_div_cancel_right [of n "- hi"] assms by linarith
  moreover have "- k div n \<le> - lo"
    using zdiv_mono1 [of "- k" "(- lo) * n" n] nonzero_mult_div_cancel_right [of n "- lo"] assms by linarith
  ultimately show ?thesis by simp
qed

lemma narrow_div32:
  assumes "lo * n \<le> k" "k \<le> hi * n" "0 < n" "- 32768 \<le> lo" "hi \<le> 32767" "- (2 ^ 31) \<le> k" "k < 2 ^ 31"
  shows "sint (scast (div32 (word_of_int k) n) :: int16) = k sdiv n"
proof -
  have b: "lo \<le> k sdiv n" "k sdiv n \<le> hi" using sdiv_between [OF assms(1-3)] by auto
  have "sint (word_of_int (k sdiv n) :: int32) = k sdiv n"
    using b assms(4,5) by (intro sint32_of_int) auto
  then have "(scast (div32 (word_of_int k) n) :: int16) = word_of_int (k sdiv n)"
    unfolding div32_def sint32_of_int [OF assms(6,7)] by (metis scast_eq)
  with b assms(4,5) show ?thesis by (simp add: sint16_of_int)
qed

lemma interp_value: "sint (scast (div32 (s32 x + s32 y) 2) :: int16) = (sint x + sint y) sdiv 2"
proof -
  have "s32 x + s32 y = word_of_int (sint x + sint y)" by (simp add: s32_of_int)
  then show ?thesis
    using sint16_bounds [of x] sint16_bounds [of y]
    by (simp only:) (rule narrow_div32 [where lo = "- 32768" and hi = 32767], auto)
qed

definition firValue :: "int16 list \<Rightarrow> nat \<Rightarrow> int" where
  "firValue xs c = sint (xs ! (c - 3)) + 2 * sint (xs ! (c - 2)) + 3 * sint (xs ! (c - 1)) +
     4 * sint (xs ! c) + 3 * sint (xs ! (c + 1)) + 2 * sint (xs ! (c + 2)) + sint (xs ! (c + 3))"

lemma firSum_value: "firSum xs c = word_of_int (firValue xs c)"
  by (simp add: firSum_def firValue_def s32_of_int)

lemma blockSum_value:
  "blockSum xs i = word_of_int (sint (xs ! (3 * i)) + sint (xs ! (3 * i + 1)) + sint (xs ! (3 * i + 2)))"
  by (simp add: blockSum_def s32_of_int)

lemma resample24Sample_between:
  assumes all: "\<And>j. j < length xs \<Longrightarrow> lo \<le> sint (xs ! j) \<and> sint (xs ! j) \<le> hi"
    and i: "i < length xs div 3" and lh: "- 32768 \<le> lo" "hi \<le> 32767"
  shows "lo \<le> sint (resample24Sample xs i) \<and> sint (resample24Sample xs i) \<le> hi"
proof (cases "3 * i + 1 \<ge> 3 \<and> 3 * i + 1 + 3 < length xs")
  case True
  let ?c = "3 * i + 1" and ?v = "firValue xs (3 * i + 1)"
  have lt: "?c - 3 < length xs" "?c - 2 < length xs" "?c - 1 < length xs" "?c < length xs"
    "?c + 1 < length xs" "?c + 2 < length xs" "?c + 3 < length xs" using True by linarith+
  have "lo * 16 \<le> ?v" "?v \<le> hi * 16"
    using lt [THEN all] unfolding firValue_def by linarith+
  moreover from this have "sint (resample24Sample xs i) = ?v sdiv 16"
    unfolding resample24Sample_def Let_def firSum_value using True lh
    by (simp add: narrow_div32 [where lo = lo and hi = hi])
  ultimately show ?thesis using sdiv_between [of lo 16 ?v hi] by simp
next
  case False
  let ?v = "sint (xs ! (3 * i)) + sint (xs ! (3 * i + 1)) + sint (xs ! (3 * i + 2))"
  have "3 * i + 2 < length xs" using i by linarith
  then have "lo * 3 \<le> ?v" "?v \<le> hi * 3"
    using all [of "3 * i"] all [of "3 * i + 1"] all [of "3 * i + 2"] by auto
  moreover from this have "sint (resample24Sample xs i) = ?v sdiv 3"
    unfolding resample24Sample_def Let_def blockSum_value using False lh
    by (auto simp: narrow_div32 [where lo = lo and hi = hi] simp del: of_int_add)
  ultimately show ?thesis using sdiv_between [of lo 3 ?v hi] by simp
qed

lemma Resample8kTo16k_nth:
  "i < length xs \<Longrightarrow> length (Resample8kTo16k xs) = 2 * length xs \<and> Resample8kTo16k xs ! (2 * i) = xs ! i \<and>
     sint (Resample8kTo16k xs ! (2 * i + 1)) =
       (if i + 1 < length xs then (sint (xs ! i) + sint (xs ! (i + 1))) sdiv 2 else sint (xs ! i))"
proof (induction xs arbitrary: i rule: Resample8kTo16k.induct)
  case (3 x y zs)
  show ?case
  proof (cases i)
    case 0
    with "3.IH" [of 0] show ?thesis by (simp add: interp_value)
  next
    case (Suc j)
    with "3.IH" [of j] "3.prems" show ?thesis by simp
  qed
qed auto

text \<open>
  Resampling stays inside 16 bits: upsampling doubles the buffer, keeps each input sample at
  the even positions and puts the truncated mean of its neighbours (the last sample at the
  end) between them, with no overflow in the 32-bit sum.
\<close>

theorem resample_8k_to_16k:
  "length (Resample8kTo16k xs) = 2 * length xs \<and>
   (\<forall>i < length xs. Resample8kTo16k xs ! (2 * i) = xs ! i \<and>
     sint (Resample8kTo16k xs ! (2 * i + 1)) =
       (if i + 1 < length xs then (sint (xs ! i) + sint (xs ! (i + 1))) sdiv 2 else sint (xs ! i)))"
proof (cases xs)
  case Nil
  then show ?thesis by simp
next
  case Cons
  then have "0 < length xs" by simp
  with Resample8kTo16k_nth [of 0 xs] have "length (Resample8kTo16k xs) = 2 * length xs" by blast
  with Resample8kTo16k_nth [of _ xs] show ?thesis by blast
qed

theorem resample_8k_to_16k_witness:
  "(0::nat) < 2 \<and> Resample8kTo16k [100, - 3] ! 0 = 100 \<and>
   sint (Resample8kTo16k [100, - 3] ! 1) = (sint (100 :: int16) + sint (- 3 :: int16)) sdiv 2"
  using resample_8k_to_16k [of "[100, - 3]"] by (auto dest: spec [of _ 0])

text \<open>
  The anti-aliasing downsampler emits one sample per three input samples and never
  overshoots: if every input sample lies between lo and hi, so does every output sample, on both
  the filtered path and the block-mean path at the buffer's ends.
\<close>

theorem resample_24k_to_8k_bounded:
  assumes "\<forall>x \<in> set xs. lo \<le> sint x \<and> sint x \<le> hi" "- 32768 \<le> lo" "hi \<le> 32767"
  shows "length (Resample24kTo8k xs) = length xs div 3 \<and>
    (\<forall>y \<in> set (Resample24kTo8k xs). lo \<le> sint y \<and> sint y \<le> hi)"
proof -
  have "lo \<le> sint (resample24Sample xs i) \<and> sint (resample24Sample xs i) \<le> hi"
    if "i < length xs div 3" for i
    using assms that by (intro resample24Sample_between) auto
  then show ?thesis by (auto simp: Resample24kTo8k_def)
qed

theorem resample_24k_to_8k_bounded_witness:
  "length (Resample24kTo8k [5, - 7, 9]) = 1 \<and> - 7 \<le> sint (Resample24kTo8k [5, - 7, 9] ! 0)"
  using resample_24k_to_8k_bounded [of "[5, - 7, 9]" "- 7" 9] by (simp add: all_set_conv_all_nth)

section \<open>Framing properties\<close>

lemma get_put16: "getUint16 (ucast x) (ucast (drop_bit 8 x)) = (x :: 16 word)"
  unfolding getUint16_def by (rule bit_word_eqI) (auto simp: bit_simps)

lemma get_put32: "getUint32 (putUint32 x @ ys) = x"
proof (rule bit_word_eqI)
  fix n
  assume "n < LENGTH(32)"
  then consider "n < 8" | "8 \<le> n" "n < 16" | "16 \<le> n" "n < 24" | "24 \<le> n" "n < 32"
    by (simp, linarith)
  then show "bit (getUint32 (putUint32 x @ ys)) n = bit x n"
    unfolding getUint32_def putUint32_def by cases (auto simp: bit_simps)
qed

lemma length_put [simp]: "length (putUint16 w) = 2" "length (putUint32 v) = 4"
  by (simp_all add: putUint16_def putUint32_def)

lemma length_PCM16ToLEBytes [simp]: "length (PCM16ToLEBytes xs) = 2 * length xs"
  by (induction xs) (auto simp: PCM16ToLEBytes_def)

lemma LE_of_put: "LEBytesToPCM16 (PCM16ToLEBytes xs) = xs"
  by (induction xs) (simp_all add: PCM16ToLEBytes_def putUint16_def get_put16)

lemma put_of_LE: "PCM16ToLEBytes (LEBytesToPCM16 bs) = take (2 * (length bs div 2)) bs"
proof (induction bs rule: LEBytesToPCM16.induct)
  case (1 b0 b1 bs)
  have hi: "\<not> bit b0 (8 + n)" for n using bit_imp_le_length [of b0 "8 + n"] by auto
  have "putUint16 (getUint16 b0 b1) = [b0, b1]"
    unfolding putUint16_def getUint16_def by (auto intro!: bit_word_eqI simp: bit_simps hi)
  with 1 show ?case by (simp add: PCM16ToLEBytes_def)
qed (simp_all add: PCM16ToLEBytes_def)

text \<open>
  Little-endian framing is lossless in both directions: samples survive serialisation, and
  bytes survive parsing up to a trailing odd byte, which is dropped.
\<close>

theorem pcm_bytes_roundtrip:
  "LEBytesToPCM16 (PCM16ToLEBytes xs) = xs \<and>
   PCM16ToLEBytes (LEBytesToPCM16 bs) = take (2 * (length bs div 2)) bs"
  using LE_of_put put_of_LE by blast

text \<open>
  A WAV recording is well formed: for a non-empty buffer the file is the 44 byte header and
  two bytes per sample, its RIFF and data sizes are the file's own (modulo 32 bits), the sample
  rate defaults to 8000, and the payload parses back to the samples.
\<close>

theorem wav_well_formed:
  assumes "xs \<noteq> []"
  shows "length (EncodePCM16WAV xs rate) = 44 + 2 * length xs \<and>
    take 4 (EncodePCM16WAV xs rate) = bytesOf ''RIFF'' \<and>
    getUint32 (drop 4 (EncodePCM16WAV xs rate)) = word_of_nat (36 + 2 * length xs) \<and>
    getUint32 (drop 24 (EncodePCM16WAV xs rate)) = word_of_int (if rate \<le> 0 then 8000 else rate) \<and>
    getUint32 (drop 40 (EncodePCM16WAV xs rate)) = word_of_nat (2 * length xs) \<and>
    LEBytesToPCM16 (drop 44 (EncodePCM16WAV xs rate)) = xs"
proof -
  have b: "length (bytesOf s) = length s" for s by (simp add: bytesOf_def)
  show ?thesis
    using assms by (simp add: EncodePCM16WAV_def Let_def b get_put32 LE_of_put mult.commute)
qed

theorem wav_well_formed_witness:
  "length (EncodePCM16WAV [7, - 1] 8000) = 48 \<and> LEBytesToPCM16 (drop 44 (EncodePCM16WAV [7, - 1] 8000)) = [7, - 1]"
  using wav_well_formed [of "[7, - 1]" 8000] by simp

end
