(* ===== verification/GoStd.thy ===== *)
theory GoStd
  imports Prelude
begin

text \<open>
  More of Go's standard library, shared by the service components: results in sequence, decimal
  numbers (\<^verbatim>\<open>strconv.Atoi\<close>, \<^verbatim>\<open>strconv.Itoa\<close> and the verb \<^verbatim>\<open>%d\<close>),
  \<^verbatim>\<open>strings.Join\<close>, \<^verbatim>\<open>strings.Split\<close>, and SQL's
  \<^verbatim>\<open>ORDER BY ... DESC LIMIT 1\<close>.
\<close>

section \<open>Results in sequence\<close>

definition rbind :: "('e, 'a) result \<Rightarrow> ('a \<Rightarrow> ('e, 'b) result) \<Rightarrow> ('e, 'b) result" where
  "rbind r k = (case r of Inl e \<Rightarrow> Inl e | Inr a \<Rightarrow> k a)"

lemma rbind_simps [simp]: "rbind (Inl e) k = Inl e" "rbind (Inr a) k = k a"
  by (simp_all add: rbind_def)

lemma rbind_Inr: "rbind r k = Inr y \<longleftrightarrow> (\<exists>a. r = Inr a \<and> k a = Inr y)"
  by (cases r) auto

text \<open>An early return guarded by a condition: \<^verbatim>\<open>if cond { return err }\<close>.\<close>

definition guardErr :: "bool \<Rightarrow> 'e \<Rightarrow> ('e, 'b) result \<Rightarrow> ('e, 'b) result" where
  "guardErr bad e r = (if bad then Inl e else r)"

lemma guardErr_Inr: "guardErr bad e r = Inr y \<longleftrightarrow> \<not> bad \<and> r = Inr y"
  by (simp add: guardErr_def)

section \<open>Decimal numbers\<close>

definition digitChar :: "nat \<Rightarrow> char" where
  "digitChar d = char_of (48 + d)"

fun natStr :: "nat \<Rightarrow> string" where
  "natStr n = (if n < 10 then [digitChar n] else natStr (n div 10) @ [digitChar (n mod 10)])"

declare natStr.simps [simp del]

definition itoa :: "int \<Rightarrow> string" where
  "itoa i = (if i < 0 then CHR ''-'' # natStr (nat (- i)) else natStr (nat i))"

definition isDigit :: "char \<Rightarrow> bool" where
  "isDigit c = (let n = of_char c :: nat in 48 \<le> n \<and> n \<le> 57)"

definition digitVal :: "char \<Rightarrow> nat" where
  "digitVal c = (of_char c :: nat) - 48"

fun digitsVal :: "nat \<Rightarrow> string \<Rightarrow> nat option" where
  "digitsVal acc [] = Some acc"
| "digitsVal acc (c # s) = (if isDigit c then digitsVal (acc * 10 + digitVal c) s else None)"

definition atoiBody :: "string \<Rightarrow> int option" where
  "atoiBody s = (if s = [] then None else map_option int (digitsVal 0 s))"

text \<open>A syntax error and a range error (\<^verbatim>\<open>int\<close> has 64 bits) are both \<^const>\<open>None\<close>.\<close>

definition inInt64 :: "int \<Rightarrow> bool" where
  "inInt64 i = (- (2 ^ 63) \<le> i \<and> i < 2 ^ 63)"

fun atoi :: "string \<Rightarrow> int option" where
  "atoi [] = None"
| "atoi (c # s) =
     (let v = (if c = CHR ''-'' then map_option uminus (atoiBody s)
               else if c = CHR ''+'' then atoiBody s else atoiBody (c # s))
      in case v of None \<Rightarrow> None | Some i \<Rightarrow> if inInt64 i then Some i else None)"

lemma digitChar_props:
  assumes "d < 10"
  shows "isDigit (digitChar d)" "digitVal (digitChar d) = d"
  using assms by (auto simp: isDigit_def digitChar_def digitVal_def take_bit_nat_def)

lemma digitsVal_append:
  "digitsVal acc (s @ t) = (case digitsVal acc s of None \<Rightarrow> None | Some a \<Rightarrow> digitsVal a t)"
  by (induction s arbitrary: acc) auto

lemma digitsVal_natStr: "digitsVal 0 (natStr n) = Some n"
proof (induction n rule: natStr.induct)
  case (1 n)
  show ?case
  proof (cases "n < 10")
    case True
    then show ?thesis by (simp add: natStr.simps [of n] digitChar_props)
  next
    case False
    then show ?thesis using 1 digitChar_props [of "n mod 10"]
      by (simp add: natStr.simps [of n] digitsVal_append)
  qed
qed

lemma natStr_digits: "\<forall>c\<in>set (natStr n). isDigit c"
proof (induction n rule: natStr.induct)
  case (1 n)
  show ?case
    using 1 digitChar_props(1) [of n] digitChar_props(1) [of "n mod 10"]
    by (cases "n < 10") (auto simp: natStr.simps [of n])
qed

lemma natStr_nonempty [simp]: "natStr n \<noteq> []"
  by (simp add: natStr.simps [of n])

lemma natStr_hd: "hd (natStr n) \<noteq> CHR ''-''" "hd (natStr n) \<noteq> CHR ''+''"
proof -
  have "isDigit (hd (natStr n))" using natStr_digits [of n] by (simp add: hd_in_set)
  then show "hd (natStr n) \<noteq> CHR ''-''" "hd (natStr n) \<noteq> CHR ''+''"
    by (auto simp: isDigit_def)
qed

lemma natStr_inj: "natStr m = natStr n \<Longrightarrow> m = n"
  by (metis digitsVal_natStr option.inject)

lemma atoiBody_natStr [simp]: "atoiBody (natStr n) = Some (int n)"
  by (simp add: atoiBody_def digitsVal_natStr)

lemma atoi_natStr: "atoi (natStr n) = (if inInt64 (int n) then Some (int n) else None)"
proof (cases "natStr n")
  case (Cons c s)
  then have "c \<noteq> CHR ''-''" "c \<noteq> CHR ''+''" using natStr_hd [of n] by auto
  moreover have "atoiBody (c # s) = Some (int n)" using atoiBody_natStr [of n] Cons by simp
  ultimately show ?thesis using Cons by (simp add: Let_def)
qed simp

text \<open>Printing then parsing a 64-bit integer gives it back.\<close>

lemma atoi_itoa: "inInt64 i \<Longrightarrow> atoi (itoa i) = Some i"
  by (auto simp: itoa_def atoi_natStr Let_def)

lemma itoa_inj: "itoa i = itoa j \<Longrightarrow> i = j"
proof -
  have "hd (natStr n) \<noteq> CHR ''-''" for n by (rule natStr_hd)
  then have ne: "CHR ''-'' # s \<noteq> natStr n" for s n by (metis list.sel(1))
  assume "itoa i = itoa j"
  then show "i = j"
    using ne by (auto simp: itoa_def split: if_splits dest: natStr_inj) (metis ne)+
qed

section \<open>strings.Join and strings.Split\<close>

fun joinWith :: "string \<Rightarrow> string list \<Rightarrow> string" where
  "joinWith sep [] = []"
| "joinWith sep [s] = s"
| "joinWith sep (s # t # ss) = s @ sep @ joinWith sep (t # ss)"

text \<open>\<^verbatim>\<open>strings.Split\<close> on a separator of one byte.\<close>

fun splitOn :: "char \<Rightarrow> string \<Rightarrow> string list" where
  "splitOn sep [] = [[]]"
| "splitOn sep (c # s) =
     (if c = sep then [] # splitOn sep s
      else case splitOn sep s of [] \<Rightarrow> [[c]] | p # ps \<Rightarrow> (c # p) # ps)"

lemma splitOn_nonempty [simp]: "splitOn sep s \<noteq> []"
  by (induction s) (auto split: list.splits)

lemma join_splitOn: "joinWith [sep] (splitOn sep s) = s"
proof (induction s)
  case (Cons c s)
  obtain p ps where "splitOn sep s = p # ps" by (cases "splitOn sep s") auto
  then show ?case using Cons by (cases ps) auto
qed simp

lemma splitOn_parts: "\<forall>p\<in>set (splitOn sep s). sep \<notin> set p"
  by (induction s) (auto split: list.splits)

text \<open>\<^verbatim>\<open>strings.Fields\<close>: the runs of non-space runes.\<close>

function fieldsLoop :: "string \<Rightarrow> string \<Rightarrow> string list" where
  "fieldsLoop cur [] = (if cur \<noteq> [] then [cur] else [])"
| "fieldsLoop cur (c # rest) =
     (if runeLenIn spaceRunes (c # rest) > 0
      then (if cur \<noteq> [] then [cur] else []) @ fieldsLoop [] (drop (runeLenIn spaceRunes (c # rest)) (c # rest))
      else fieldsLoop (cur @ [c]) rest)"
  by pat_completeness auto
termination
  by (relation "measure (\<lambda>(cur, rest). length rest)") auto

definition trimSuffix :: "string \<Rightarrow> string \<Rightarrow> string" where
  "trimSuffix s p = rev (trimPrefix (rev s) (rev p))"

section \<open>ORDER BY key DESC LIMIT 1\<close>

text \<open>The first row with the greatest key.\<close>

fun firstMax :: "('a \<Rightarrow> int) \<Rightarrow> 'a list \<Rightarrow> 'a option" where
  "firstMax key [] = None"
| "firstMax key (x # xs) =
     (case firstMax key xs of None \<Rightarrow> Some x | Some y \<Rightarrow> if key y > key x then Some y else Some x)"

lemma firstMax_None [simp]: "firstMax key xs = None \<longleftrightarrow> xs = []"
  by (cases xs) (auto split: option.splits)

lemma firstMax_in: "firstMax key xs = Some x \<Longrightarrow> x \<in> set xs"
  by (induction xs arbitrary: x) (auto split: option.splits if_splits)

lemma firstMax_max: "firstMax key xs = Some x \<Longrightarrow> y \<in> set xs \<Longrightarrow> key y \<le> key x"
proof (induction xs arbitrary: x)
  case (Cons z zs)
  show ?case
  proof (cases "firstMax key zs")
    case None
    then show ?thesis using Cons.prems by auto
  next
    case (Some w)
    then show ?thesis using Cons.prems Cons.IH [OF Some] by (force split: if_splits)
  qed
qed simp

section \<open>Generic lemmas on lists\<close>

lemma find_Some_in: "List.find P xs = Some x \<Longrightarrow> x \<in> set xs \<and> P x"
  by (induction xs) (auto split: if_splits)

lemma find_None_all: "List.find P xs = None \<longleftrightarrow> (\<forall>x\<in>set xs. \<not> P x)"
  by (induction xs) auto

lemma filter_eq_single:
  "distinct (map f xs) \<Longrightarrow> x \<in> set xs \<Longrightarrow> filter (\<lambda>y. f y = f x) xs = [x]"
proof (induction xs)
  case (Cons y ys)
  then show ?case
  proof (cases "x = y")
    case True
    then have "filter (\<lambda>z. f z = f x) ys = []"
      using Cons.prems by (auto simp: filter_empty_conv) (metis imageI)
    then show ?thesis using True by simp
  next
    case False
    then have "f y \<noteq> f x" using Cons.prems by auto
    then show ?thesis using False Cons by simp
  qed
qed simp

lemma map_eq_on: "(\<And>x. x \<in> set xs \<Longrightarrow> f (g x) = f x) \<Longrightarrow> map f (map g xs) = map f xs"
  by simp

end
