(* ===== verification/VanadisStore.thy ===== *)
theory VanadisStore
  imports GoStd "HOL-Library.Multiset"
begin

text \<open>
  The build orchestrator's store (\<^verbatim>\<open>services/vanadis/main.go\<close>,
  \<^verbatim>\<open>services/vanadis/chunks.go\<close>): builds made of ordered chunks, kept in the two
  PostgreSQL tables \<^verbatim>\<open>vanadis_builds\<close> and \<^verbatim>\<open>vanadis_chunks\<close>. A table is a
  list of rows in insertion order; each operation of \<^verbatim>\<open>PostgresVanadisStore\<close> is one
  function of the tables whose SQL statements are written as list operations in the order the
  code executes them, with the primary keys, the unique constraint on
  \<^verbatim>\<open>(build_id, chunk_index)\<close> and the foreign key as explicit checks. An error rolls the
  transaction back, so it returns no new tables.

  Conventions: a NULL time or PR number is 0, as the code reads it; both clocks
  (\<^verbatim>\<open>CURRENT_TIMESTAMP\<close> and \<^verbatim>\<open>time.Now\<close>) are the argument \<^verbatim>\<open>now\<close>;
  connection failures and values outside the range of an SQL integer are not modelled.
\<close>

section \<open>Rows and small helpers\<close>

record VanadisBuild =
  b_ID :: string
  b_ThreadID :: string
  b_Tier :: int
  b_Title :: string
  b_Objective :: string
  b_SharedContext :: string
  b_Status :: string
  b_StatusMessageID :: string
  b_CreatedAt :: int
  b_UpdatedAt :: int

record VanadisChunk =
  c_ID :: string
  c_BuildID :: string
  c_ChunkIndex :: int
  c_Repo :: string
  c_Title :: string
  c_Instructions :: string
  c_TargetFiles :: "string list"
  c_TargetSymbols :: "string list"
  c_Effort :: string
  c_AcceptanceCriteria :: "string list"
  c_Status :: string
  c_PRNumber :: int
  c_StartedAt :: int
  c_CompletedAt :: int
  c_CreatedAt :: int
  c_UpdatedAt :: int

record vdb =
  vbuilds :: "VanadisBuild list"
  vchunks :: "VanadisChunk list"

datatype verr = ErrBuildNotFound | ErrChunkNotFound | ErrBuildConflict | ErrInvalidBuildInput
  | ErrMsg string

fun firstNonEmpty :: "string list \<Rightarrow> string" where
  "firstNonEmpty [] = []"
| "firstNonEmpty (v # vs) = (if trimSpace v \<noteq> [] then trimSpace v else firstNonEmpty vs)"

text \<open>No rune outside ASCII folds to a letter of \<^verbatim>\<open>low\<close>.\<close>

definition capChunkEffort :: "string \<Rightarrow> string" where
  "capChunkEffort effort = (if map lowerByte (trimSpace effort) = ''low'' then ''low'' else ''medium'')"

definition normalizeChunkEffort :: "string \<Rightarrow> (verr, string) result" where
  "normalizeChunkEffort effort =
     (let e = toLower (trimSpace effort)
      in if e = [] \<or> e = ''medium'' \<or> e = ''high'' then Inr ''medium''
         else if e = ''low'' then Inr ''low'' else Inl (ErrMsg ''invalid chunk effort''))"

definition normalizeRepo :: "string \<Rightarrow> string" where
  "normalizeRepo r =
     (let repo = trimSpace r
      in if repo = [] \<or> contains repo ''/'' then repo else ''azylman/'' @ repo)"

definition isIDByte :: "char \<Rightarrow> bool" where
  "isIDByte c = (let n = of_char c :: nat in
     (97 \<le> n \<and> n \<le> 122) \<or> (65 \<le> n \<and> n \<le> 90) \<or> (48 \<le> n \<and> n \<le> 57) \<or> c = CHR ''-'' \<or> c = CHR ''_'')"

definition isValidVanadisChunkID :: "string \<Rightarrow> bool" where
  "isValidVanadisChunkID raw =
     (let i = trimSpace raw in 1 \<le> length i \<and> length i \<le> 120 \<and> list_all isIDByte i)"

definition isTerminalChunkStatus :: "string \<Rightarrow> bool" where
  "isTerminalChunkStatus st =
     (toLower (trimSpace st) \<in> {''merged'', ''completed'', ''failed'', ''cancelled''})"

definition ClassifyBuildQueueState :: "string \<Rightarrow> VanadisChunk list \<Rightarrow> string" where
  "ClassifyBuildQueueState buildStatus chunks =
     (let s = toLower (trimSpace buildStatus)
      in if s \<in> {''completed'', ''merged'', ''failed'', ''cancelled'', ''canceled''} then ''completed''
         else if s = ''running'' then
           (if list_ex (\<lambda>c. toLower (trimSpace (c_Status c)) \<noteq> ''pending'') chunks then ''running''
            else if length chunks > 0 then ''queued'' else ''running'')
         else ''queued'')"

record VanadisBuildEntry =
  e_Build :: VanadisBuild
  QueueState :: string
  TotalChunks :: nat
  CompletedChunks :: nat
  RunningChunks :: nat
  PendingChunks :: nat
  FailedChunks :: nat
  e_Chunks :: "VanadisChunk list"

fun countStatuses :: "VanadisChunk list \<Rightarrow> nat \<times> nat \<times> nat \<times> nat" where
  "countStatuses [] = (0, 0, 0, 0)"
| "countStatuses (c # cs) =
     (let (completed, running, pending, failed) = countStatuses cs;
          s = toLower (trimSpace (c_Status c))
      in if s \<in> {''completed'', ''merged''} then (completed + 1, running, pending, failed)
         else if s \<in> {''running'', ''coding'', ''pr_opened'', ''deploying''} then (completed, running + 1, pending, failed)
         else if s = ''failed'' then (completed, running, pending, failed + 1)
         else if s = ''pending'' then (completed, running, pending + 1, failed)
         else (completed, running, pending, failed))"

definition SummarizeBuildEntry :: "VanadisBuild \<Rightarrow> VanadisChunk list \<Rightarrow> VanadisBuildEntry" where
  "SummarizeBuildEntry build chunks =
     (let (completed, running, pending, failed) = countStatuses chunks
      in \<lparr> e_Build = build, QueueState = ClassifyBuildQueueState (b_Status build) chunks,
           TotalChunks = length chunks, CompletedChunks = completed, RunningChunks = running,
           PendingChunks = pending, FailedChunks = failed, e_Chunks = chunks \<rparr>)"

section \<open>The SQL statements\<close>

definition findBuild :: "vdb \<Rightarrow> string \<Rightarrow> VanadisBuild option" where
  "findBuild db i = List.find (\<lambda>b. b_ID b = i) (vbuilds db)"

definition updBuilds :: "(VanadisBuild \<Rightarrow> bool) \<Rightarrow> (VanadisBuild \<Rightarrow> VanadisBuild) \<Rightarrow> vdb \<Rightarrow> vdb" where
  "updBuilds P f db = db\<lparr>vbuilds := map (\<lambda>b. if P b then f b else b) (vbuilds db)\<rparr>"

definition updChunks :: "(VanadisChunk \<Rightarrow> bool) \<Rightarrow> (VanadisChunk \<Rightarrow> VanadisChunk) \<Rightarrow> vdb \<Rightarrow> vdb" where
  "updChunks P f db = db\<lparr>vchunks := map (\<lambda>c. if P c then f c else c) (vchunks db)\<rparr>"

text \<open>\<^verbatim>\<open>WHERE build_id = $1 ORDER BY chunk_index ASC\<close>\<close>

definition chunksOf :: "vdb \<Rightarrow> string \<Rightarrow> VanadisChunk list" where
  "chunksOf db bid = sort_key c_ChunkIndex (filter (\<lambda>c. c_BuildID c = bid) (vchunks db))"

text \<open>The unique constraint and the primary key of \<^verbatim>\<open>vanadis_chunks\<close>.\<close>

definition uniqueIndex :: "vdb \<Rightarrow> bool" where
  "uniqueIndex db = distinct (map (\<lambda>c. (c_BuildID c, c_ChunkIndex c)) (vchunks db))"

definition uniqueChunkID :: "vdb \<Rightarrow> bool" where
  "uniqueChunkID db = distinct (map c_ID (vchunks db))"

text \<open>\<^verbatim>\<open>COALESCE(t, CURRENT_TIMESTAMP)\<close>\<close>

definition coalesceTime :: "int \<Rightarrow> int \<Rightarrow> int" where
  "coalesceTime t now = (if t = 0 then now else t)"

definition scanBuild :: "VanadisBuild \<Rightarrow> VanadisBuild" where
  "scanBuild b = b\<lparr>b_Title := (if b_Title b = [] then b_Objective b else b_Title b)\<rparr>"

definition scanChunks :: "VanadisChunk list \<Rightarrow> VanadisChunk list" where
  "scanChunks rows = map (\<lambda>c. c\<lparr>c_Effort := capChunkEffort (c_Effort c)\<rparr>) rows"

section \<open>Creating and reading builds\<close>

fun validateChunks :: "string \<Rightarrow> VanadisChunk list \<Rightarrow> verr option" where
  "validateChunks buildID [] = None"
| "validateChunks buildID (c # cs) =
     (if trimSpace (c_ID c) = [] \<or> trimSpace (c_Title c) = [] \<or> trimSpace (c_Instructions c) = []
      then Some (ErrMsg ''chunk id, title, and instructions cannot be empty'')
      else if \<not> isValidVanadisChunkID (trimSpace (c_ID c)) then Some (ErrMsg ''invalid chunk id'')
      else if trimSpace (c_BuildID c) \<noteq> [] \<and> trimSpace (c_BuildID c) \<noteq> buildID
      then Some (ErrMsg ''chunk build_id does not match build id'')
      else case normalizeChunkEffort (c_Effort c) of Inl e \<Rightarrow> Some e
           | Inr _ \<Rightarrow> validateChunks buildID cs)"

definition validateCreateBuildInputs ::
    "string \<Rightarrow> string \<Rightarrow> string \<Rightarrow> VanadisChunk list \<Rightarrow> verr option" where
  "validateCreateBuildInputs buildID threadID objective chunks =
     (if buildID = [] \<or> threadID = [] \<or> objective = []
      then Some (ErrMsg ''build id, thread_id, and objective cannot be empty'')
      else validateChunks buildID chunks)"

definition chunkRow :: "int \<Rightarrow> string \<Rightarrow> string \<Rightarrow> VanadisChunk \<Rightarrow> VanadisChunk" where
  "chunkRow now buildID cEffort c =
     (let cStatus = firstNonEmpty [trimSpace (c_Status c), ''pending'']
      in \<lparr> c_ID = trimSpace (c_ID c), c_BuildID = buildID, c_ChunkIndex = c_ChunkIndex c,
           c_Repo = firstNonEmpty [normalizeRepo (c_Repo c), ''azylman/aerial''],
           c_Title = trimSpace (c_Title c), c_Instructions = trimSpace (c_Instructions c),
           c_TargetFiles = c_TargetFiles c, c_TargetSymbols = c_TargetSymbols c,
           c_Effort = cEffort, c_AcceptanceCriteria = c_AcceptanceCriteria c, c_Status = cStatus,
           c_PRNumber = (if c_PRNumber c > 0 then c_PRNumber c else 0),
           c_StartedAt = (if c_StartedAt c \<noteq> 0 then c_StartedAt c
                          else if cStatus = ''running'' \<or> cStatus = ''coding'' then now else 0),
           c_CompletedAt = (if c_CompletedAt c \<noteq> 0 then c_CompletedAt c
                            else if isTerminalChunkStatus cStatus then now else 0),
           c_CreatedAt = now, c_UpdatedAt = now \<rparr>)"

definition execInsertVanadisChunk :: "int \<Rightarrow> string \<Rightarrow> VanadisChunk \<Rightarrow> vdb \<Rightarrow> (verr, vdb) result" where
  "execInsertVanadisChunk now buildID c db =
     rbind (normalizeChunkEffort (c_Effort c)) (\<lambda>cEffort.
       let db' = db\<lparr>vchunks := vchunks db @ [chunkRow now buildID cEffort c]\<rparr>
       in if uniqueChunkID db' \<and> uniqueIndex db' \<and> findBuild db buildID \<noteq> None then Inr db'
          else Inl (ErrMsg ''failed to insert vanadis chunk''))"

fun insertChunks :: "int \<Rightarrow> string \<Rightarrow> VanadisChunk list \<Rightarrow> vdb \<Rightarrow> (verr, vdb) result" where
  "insertChunks now buildID [] db = Inr db"
| "insertChunks now buildID (c # cs) db =
     rbind (execInsertVanadisChunk now buildID c db) (insertChunks now buildID cs)"

definition buildRow :: "int \<Rightarrow> VanadisBuild \<Rightarrow> VanadisBuild" where
  "buildRow now build =
     \<lparr> b_ID = trimSpace (b_ID build), b_ThreadID = trimSpace (b_ThreadID build),
       b_Tier = (if b_Tier build \<le> 0 then 2 else b_Tier build),
       b_Title = firstNonEmpty [trimSpace (b_Title build), trimSpace (b_Objective build)],
       b_Objective = trimSpace (b_Objective build), b_SharedContext = trimSpace (b_SharedContext build),
       b_Status = firstNonEmpty [trimSpace (b_Status build), ''running''],
       b_StatusMessageID = trimSpace (b_StatusMessageID build), b_CreatedAt = now, b_UpdatedAt = now \<rparr>"

definition CreateBuild :: "int \<Rightarrow> VanadisBuild \<Rightarrow> VanadisChunk list \<Rightarrow> vdb \<Rightarrow> (verr, vdb) result" where
  "CreateBuild now build chunks db =
     (let buildID = trimSpace (b_ID build); threadID = trimSpace (b_ThreadID build);
          objective = trimSpace (b_Objective build)
      in case validateCreateBuildInputs buildID threadID objective chunks of
           Some e \<Rightarrow> Inl e
         | None \<Rightarrow>
             if findBuild db buildID \<noteq> None then Inl (ErrMsg ''failed to insert vanadis build'')
             else insertChunks now buildID chunks (db\<lparr>vbuilds := vbuilds db @ [buildRow now build]\<rparr>))"

definition GetBuild :: "string \<Rightarrow> vdb \<Rightarrow> (verr, VanadisBuild \<times> VanadisChunk list) result" where
  "GetBuild bid db =
     (let buildID = trimSpace bid
      in if buildID = [] then Inl (ErrMsg ''build id cannot be empty'')
         else case findBuild db buildID of
                None \<Rightarrow> Inl ErrBuildNotFound
              | Some b \<Rightarrow> Inr (scanBuild b, scanChunks (chunksOf db buildID)))"

definition GetChunk :: "string \<Rightarrow> vdb \<Rightarrow> (verr, VanadisChunk \<times> VanadisBuild) result" where
  "GetChunk cid db =
     (let chunkID = trimSpace cid
      in if chunkID = [] then Inl (ErrMsg ''chunk id cannot be empty'')
         else case scanChunks (filter (\<lambda>c. c_ID c = chunkID) (vchunks db)) of
                [] \<Rightarrow> Inl ErrChunkNotFound
              | c # _ \<Rightarrow> (case findBuild db (c_BuildID c) of
                          None \<Rightarrow> Inl ErrBuildNotFound
                        | Some b \<Rightarrow> Inr (c, scanBuild b)))"

section \<open>Status updates by id\<close>

definition UpdateChunkStatus :: "int \<Rightarrow> string \<Rightarrow> string \<Rightarrow> vdb \<Rightarrow> (verr, vdb) result" where
  "UpdateChunkStatus now chunkID st db =
     (let i = trimSpace chunkID; v = trimSpace st
      in if i = [] \<or> v = [] then Inl (ErrMsg ''cannot be empty'')
         else if \<not> list_ex (\<lambda>c. c_ID c = i) (vchunks db) then Inl ErrChunkNotFound
         else Inr (updChunks (\<lambda>c. c_ID c = i) (\<lambda>c. c\<lparr>
                c_Status := v,
                c_StartedAt := (if v \<in> {''running'', ''coding''} then coalesceTime (c_StartedAt c) now
                                else c_StartedAt c),
                c_CompletedAt := (if v \<in> {''merged'', ''completed'', ''failed'', ''cancelled''}
                                  then coalesceTime (c_CompletedAt c) now else 0),
                c_UpdatedAt := now\<rparr>) db))"

definition UpdateBuildStatus :: "int \<Rightarrow> string \<Rightarrow> string \<Rightarrow> vdb \<Rightarrow> (verr, vdb) result" where
  "UpdateBuildStatus now buildID st db =
     (let i = trimSpace buildID; v = trimSpace st
      in if i = [] \<or> v = [] then Inl (ErrMsg ''cannot be empty'')
         else if \<not> list_ex (\<lambda>b. b_ID b = i) (vbuilds db) then Inl ErrBuildNotFound
         else Inr (updBuilds (\<lambda>b. b_ID b = i) (\<lambda>b. b\<lparr>b_Status := v, b_UpdatedAt := now\<rparr>) db))"

definition UpdateBuildStatusMessageID :: "int \<Rightarrow> string \<Rightarrow> string \<Rightarrow> vdb \<Rightarrow> (verr, vdb) result" where
  "UpdateBuildStatusMessageID now buildID messageID db =
     (let i = trimSpace buildID; v = trimSpace messageID
      in if i = [] then Inl (ErrMsg ''cannot be empty'')
         else if \<not> list_ex (\<lambda>b. b_ID b = i) (vbuilds db) then Inl ErrBuildNotFound
         else Inr (updBuilds (\<lambda>b. b_ID b = i) (\<lambda>b. b\<lparr>b_StatusMessageID := v, b_UpdatedAt := now\<rparr>) db))"

section \<open>Chunks by pull request\<close>

record VanadisChunkPRLookup =
  l_Matched :: bool
  l_ChunkID :: string
  l_BuildID :: string
  l_Effort :: string
  l_HasRemainingChunks :: bool

definition noLookup :: VanadisChunkPRLookup where
  "noLookup = \<lparr> l_Matched = False, l_ChunkID = [], l_BuildID = [], l_Effort = [], l_HasRemainingChunks = False \<rparr>"

definition GetChunkByPR :: "string \<Rightarrow> int \<Rightarrow> vdb \<Rightarrow> VanadisChunkPRLookup" where
  "GetChunkByPR rawRepo prNumber db =
     (let repo = normalizeRepo rawRepo
      in if repo = [] \<or> prNumber \<le> 0 then noLookup
         else case firstMax c_UpdatedAt (filter (\<lambda>c. c_Repo c = repo \<and> c_PRNumber c = prNumber \<and>
                (case findBuild db (c_BuildID c) of None \<Rightarrow> False | Some b \<Rightarrow> b_Status b \<noteq> ''cancelled''))
                (vchunks db)) of
                None \<Rightarrow> noLookup
              | Some c \<Rightarrow> \<lparr> l_Matched = True, l_ChunkID = c_ID c, l_BuildID = c_BuildID c,
                  l_Effort = capChunkEffort (if c_Effort c = [] then ''medium'' else c_Effort c),
                  l_HasRemainingChunks =
                    list_ex (\<lambda>c2. c_BuildID c2 = c_BuildID c \<and> c_ChunkIndex c2 > c_ChunkIndex c) (vchunks db) \<rparr>)"

definition AttachChunkPR :: "int \<Rightarrow> string \<Rightarrow> int \<Rightarrow> string \<Rightarrow> vdb \<Rightarrow> (verr, string \<times> vdb) result" where
  "AttachChunkPR now cid prNumber rawRepo db =
     (let chunkID = trimSpace cid; repo = normalizeRepo rawRepo;
          hit = (\<lambda>c. c_ID c = chunkID \<and> findBuild db (c_BuildID c) \<noteq> None \<and> (repo = [] \<or> c_Repo c = repo))
      in if chunkID = [] \<or> prNumber \<le> 0 then Inl (ErrMsg ''chunk id and valid pr number are required'')
         else case filter hit (vchunks db) of
                c # _ \<Rightarrow>
                  Inr (case findBuild db (c_BuildID c) of Some b \<Rightarrow> b_ThreadID b | None \<Rightarrow> [],
                       updChunks hit (\<lambda>c. c\<lparr>c_PRNumber := prNumber,
                         c_Status := (if c_Status c \<in> {''merged'', ''failed''} then c_Status c else ''pr_opened''),
                         c_StartedAt := coalesceTime (c_StartedAt c) now, c_UpdatedAt := now\<rparr>) db)
              | [] \<Rightarrow> if \<not> list_ex (\<lambda>c. c_ID c = chunkID) (vchunks db) then Inl ErrChunkNotFound
                       else Inl (ErrMsg ''cannot attach pr (mismatched repo)''))"

record VanadisChunkSummary =
  s_ID :: string
  s_ChunkIndex :: int
  s_Repo :: string
  s_Title :: string
  s_Status :: string
  s_PRNumber :: int
  s_StartedAt :: int
  s_CompletedAt :: int
  s_UpdatedAt :: int

record VanadisAdvancementResult =
  Matched :: bool
  Advanced :: bool
  a_BuildID :: string
  a_ThreadID :: string
  a_Tier :: int
  a_Title :: string
  a_Objective :: string
  a_BuildStatus :: string
  a_StatusMessageID :: string
  MergedChunkIndex :: int
  MergedChunkTitle :: string
  NextChunkIndex :: int
  BuildCompleted :: bool
  a_Chunks :: "VanadisChunkSummary list"

text \<open>The zero value with \<^verbatim>\<open>Matched: false\<close>.\<close>

definition noAdvance :: VanadisAdvancementResult where
  "noAdvance = \<lparr> Matched = False, Advanced = False, a_BuildID = [], a_ThreadID = [], a_Tier = 0,
     a_Title = [], a_Objective = [], a_BuildStatus = [], a_StatusMessageID = [],
     MergedChunkIndex = 0, MergedChunkTitle = [], NextChunkIndex = 0, BuildCompleted = False, a_Chunks = [] \<rparr>"

fun nextChunkLoop :: "VanadisChunkSummary list \<Rightarrow> int \<Rightarrow> int \<Rightarrow> int \<Rightarrow> int \<times> int" where
  "nextChunkLoop [] currentIdx nextChunkIdx fallbackIdx = (nextChunkIdx, fallbackIdx)"
| "nextChunkLoop (cs # css) currentIdx nextChunkIdx fallbackIdx =
     (if s_Status cs \<noteq> ''merged'' then
        (if s_ChunkIndex cs > currentIdx \<and> (nextChunkIdx = -1 \<or> s_ChunkIndex cs < nextChunkIdx)
         then nextChunkLoop css currentIdx (s_ChunkIndex cs) fallbackIdx
         else if fallbackIdx = -1 then nextChunkLoop css currentIdx nextChunkIdx (s_ChunkIndex cs)
         else nextChunkLoop css currentIdx nextChunkIdx fallbackIdx)
      else nextChunkLoop css currentIdx nextChunkIdx fallbackIdx)"

definition computeNextChunkIndex :: "VanadisChunkSummary list \<Rightarrow> int \<Rightarrow> int" where
  "computeNextChunkIndex chunks currentIdx =
     (let (nextChunkIdx, fallbackIdx) = nextChunkLoop chunks currentIdx (-1) (-1)
      in if nextChunkIdx = -1 then fallbackIdx else nextChunkIdx)"

definition scanVanadisChunkSummaries :: "int \<Rightarrow> VanadisChunk list \<Rightarrow> string \<Rightarrow> VanadisChunkSummary list" where
  "scanVanadisChunkSummaries now rows mergedChunkID =
     map (\<lambda>c. \<lparr> s_ID = c_ID c, s_ChunkIndex = c_ChunkIndex c, s_Repo = c_Repo c, s_Title = c_Title c,
       s_Status = (if c_ID c = mergedChunkID then ''merged'' else c_Status c), s_PRNumber = c_PRNumber c,
       s_StartedAt = c_StartedAt c,
       s_CompletedAt = (if c_ID c = mergedChunkID then coalesceTime (c_CompletedAt c) now else c_CompletedAt c),
       s_UpdatedAt = c_UpdatedAt c \<rparr>) rows"

definition isTerminalBuildStatus :: "string \<Rightarrow> bool" where
  "isTerminalBuildStatus st = (st = ''cancelled'')"

text \<open>The summary loop of \<^verbatim>\<open>advanceToNextChunk\<close>, which stops at the first chunk it changes.\<close>

fun startSummary :: "int \<Rightarrow> int \<Rightarrow> VanadisChunkSummary list \<Rightarrow> VanadisChunkSummary list" where
  "startSummary now nextChunkIdx [] = []"
| "startSummary now nextChunkIdx (cs # css) =
     (if s_ChunkIndex cs = nextChunkIdx \<and> s_Status cs = ''pending''
      then cs\<lparr>s_Status := ''running'', s_StartedAt := coalesceTime (s_StartedAt cs) now, s_UpdatedAt := now\<rparr> # css
      else cs # startSummary now nextChunkIdx css)"

definition advanceToNextChunk ::
    "int \<Rightarrow> string \<Rightarrow> int \<Rightarrow> string \<Rightarrow> VanadisChunkSummary list \<Rightarrow> VanadisAdvancementResult \<Rightarrow> vdb
     \<Rightarrow> VanadisAdvancementResult \<times> vdb" where
  "advanceToNextChunk now buildID nextChunkIdx cStatus allChunks res db =
     (let (res1, db1) =
            (if a_BuildStatus res = ''failed''
             then (res\<lparr>a_BuildStatus := ''running''\<rparr>,
                   updBuilds (\<lambda>b. b_ID b = buildID) (\<lambda>b. b\<lparr>b_Status := ''running'', b_UpdatedAt := now\<rparr>) db)
             else (res, db));
          db2 = updChunks (\<lambda>c. c_BuildID c = buildID \<and> c_ChunkIndex c = nextChunkIdx \<and> c_Status c = ''pending'')
                  (\<lambda>c. c\<lparr>c_Status := ''running'', c_StartedAt := coalesceTime (c_StartedAt c) now, c_UpdatedAt := now\<rparr>) db1
      in (res1\<lparr>Advanced := (cStatus \<noteq> ''merged''), NextChunkIndex := nextChunkIdx, BuildCompleted := False,
               a_Chunks := startSummary now nextChunkIdx allChunks\<rparr>, db2))"

definition completeBuild ::
    "int \<Rightarrow> string \<Rightarrow> string \<Rightarrow> VanadisChunkSummary list \<Rightarrow> VanadisAdvancementResult \<Rightarrow> vdb
     \<Rightarrow> VanadisAdvancementResult \<times> vdb" where
  "completeBuild now buildID cStatus allChunks res db =
     (res\<lparr>Advanced := (cStatus \<noteq> ''merged''), a_BuildStatus := ''completed'', NextChunkIndex := -1,
          BuildCompleted := True, a_Chunks := allChunks\<rparr>,
      if a_BuildStatus res \<noteq> ''completed''
      then updBuilds (\<lambda>b. b_ID b = buildID) (\<lambda>b. b\<lparr>b_Status := ''completed'', b_UpdatedAt := now\<rparr>) db
      else db)"

definition queryAndAdvanceChunks ::
    "int \<Rightarrow> string \<Rightarrow> string \<Rightarrow> string \<Rightarrow> int \<Rightarrow> VanadisAdvancementResult \<Rightarrow> vdb
     \<Rightarrow> VanadisAdvancementResult \<times> vdb" where
  "queryAndAdvanceChunks now buildID chunkID cStatus chunkIdx res db =
     (let allChunks = scanVanadisChunkSummaries now (chunksOf db buildID) chunkID;
          nextChunkIdx = computeNextChunkIndex allChunks chunkIdx
      in if nextChunkIdx \<ge> 0 then advanceToNextChunk now buildID nextChunkIdx cStatus allChunks res db
         else completeBuild now buildID cStatus allChunks res db)"

text \<open>The row that \<^verbatim>\<open>selectChunkQuery\<close> locks.\<close>

definition selectChunkByPR :: "string \<Rightarrow> int \<Rightarrow> vdb \<Rightarrow> VanadisChunk option" where
  "selectChunkByPR repo prNumber db =
     firstMax c_UpdatedAt (filter (\<lambda>c. c_Repo c = repo \<and> c_PRNumber c = prNumber \<and>
       findBuild db (c_BuildID c) \<noteq> None) (vchunks db))"

definition AdvanceChunkByPR :: "int \<Rightarrow> string \<Rightarrow> int \<Rightarrow> vdb \<Rightarrow> VanadisAdvancementResult \<times> vdb" where
  "AdvanceChunkByPR now rawRepo prNumber db =
     (let repo = normalizeRepo rawRepo
      in if repo = [] \<or> prNumber \<le> 0 then (noAdvance, db)
         else case selectChunkByPR repo prNumber db of
           None \<Rightarrow> (noAdvance, db)
         | Some c \<Rightarrow> (case findBuild db (c_BuildID c) of
             None \<Rightarrow> (noAdvance, db)
           | Some b \<Rightarrow>
               let res = \<lparr> Matched = True, Advanced = False, a_BuildID = c_BuildID c,
                     a_ThreadID = b_ThreadID b, a_Tier = b_Tier b,
                     a_Title = (if b_Title b = [] then b_Objective b else b_Title b),
                     a_Objective = b_Objective b, a_BuildStatus = b_Status b,
                     a_StatusMessageID = b_StatusMessageID b, MergedChunkIndex = c_ChunkIndex c,
                     MergedChunkTitle = c_Title c, NextChunkIndex = -1,
                     BuildCompleted = (b_Status b = ''completed''), a_Chunks = [] \<rparr>
               in if isTerminalBuildStatus (b_Status b) then (res, db)
                  else
                    let db1 = (if c_Status c \<noteq> ''merged''
                               then updChunks (\<lambda>r. c_ID r = c_ID c) (\<lambda>r. r\<lparr>c_Status := ''merged'',
                                      c_CompletedAt := coalesceTime (c_CompletedAt r) now, c_UpdatedAt := now\<rparr>) db
                               else db)
                    in queryAndAdvanceChunks now (c_BuildID c) (c_ID c) (c_Status c) (c_ChunkIndex c) res db1))"

text \<open>The UPDATE touches every matching row; the code reads the first one it returns.\<close>

definition FailChunkByPR :: "int \<Rightarrow> string \<Rightarrow> int \<Rightarrow> vdb \<Rightarrow> (string \<times> string \<times> bool) \<times> vdb" where
  "FailChunkByPR now rawRepo prNumber db =
     (let repo = normalizeRepo rawRepo;
          hit = (\<lambda>c. findBuild db (c_BuildID c) \<noteq> None \<and> c_Repo c = repo \<and> c_PRNumber c = prNumber \<and>
                  c_Status c \<notin> {''merged'', ''failed''})
      in if repo = [] \<or> prNumber \<le> 0 then (([], [], False), db)
         else case filter hit (vchunks db) of
           [] \<Rightarrow> (([], [], False), db)
         | c # _ \<Rightarrow>
             ((c_BuildID c, c_ID c, True),
              updBuilds (\<lambda>b. b_ID b = c_BuildID c \<and> b_Status b = ''running'')
                (\<lambda>b. b\<lparr>b_Status := ''failed'', b_UpdatedAt := now\<rparr>)
                (updChunks hit (\<lambda>c. c\<lparr>c_Status := ''failed'',
                   c_CompletedAt := coalesceTime (c_CompletedAt c) now, c_UpdatedAt := now\<rparr>) db)))"

section \<open>Editing a running build\<close>

record UpdateBuildRequest =
  ub_Title :: string
  ub_Objective :: string
  ub_SharedContext :: string

text \<open>A nil slice of the request is \<^const>\<open>None\<close>: it leaves the column alone.\<close>

record UpdateChunkRequest =
  uc_Repo :: string
  uc_Title :: string
  uc_Instructions :: string
  uc_TargetFiles :: "string list option"
  uc_TargetSymbols :: "string list option"
  uc_Effort :: string

record CreateChunkInput =
  ci_ID :: string
  ci_Repo :: string
  ci_Title :: string
  ci_Instructions :: string
  ci_TargetFiles :: "string list"
  ci_TargetSymbols :: "string list"
  ci_Effort :: string
  ci_AcceptanceCriteria :: "string list"

definition UpdateBuild :: "int \<Rightarrow> string \<Rightarrow> UpdateBuildRequest \<Rightarrow> vdb \<Rightarrow> (verr, VanadisBuild \<times> vdb) result" where
  "UpdateBuild now bid req db =
     (let buildID = trimSpace bid; title = trimSpace (ub_Title req); obj = trimSpace (ub_Objective req);
          sharedCtx = trimSpace (ub_SharedContext req)
      in if buildID = [] \<or> (title = [] \<and> obj = [] \<and> sharedCtx = []) then Inl ErrInvalidBuildInput
         else case findBuild db buildID of
                None \<Rightarrow> Inl ErrBuildNotFound
              | Some row \<Rightarrow>
                  let b = scanBuild row
                  in if b_Status b \<noteq> ''running'' then Inl ErrBuildConflict
                     else
                       let b1 = (if title \<noteq> [] then b\<lparr>b_Title := title\<rparr> else b);
                           b2 = (if obj \<noteq> [] then b1\<lparr>b_Objective := obj\<rparr> else b1);
                           b3 = (if sharedCtx \<noteq> [] then b2\<lparr>b_SharedContext := sharedCtx\<rparr> else b2)
                       in Inr (b3\<lparr>b_UpdatedAt := now\<rparr>,
                            updBuilds (\<lambda>r. b_ID r = buildID) (\<lambda>r. r\<lparr>b_Title := b_Title b3,
                              b_Objective := b_Objective b3, b_SharedContext := b_SharedContext b3,
                              b_UpdatedAt := now\<rparr>) db))"

definition lockRunningBuildAndChunks :: "string \<Rightarrow> vdb \<Rightarrow> (verr, VanadisChunk list) result" where
  "lockRunningBuildAndChunks buildID db =
     (case findBuild db buildID of
        None \<Rightarrow> Inl ErrBuildNotFound
      | Some b \<Rightarrow> if b_Status b \<noteq> ''running'' then Inl ErrBuildConflict
                  else Inr (scanChunks (chunksOf db buildID)))"

text \<open>The position of the first element satisfying a predicate, -1 for none.\<close>

fun indexWhere :: "('a \<Rightarrow> bool) \<Rightarrow> 'a list \<Rightarrow> nat \<Rightarrow> int" where
  "indexWhere P [] i = -1"
| "indexWhere P (x # xs) i = (if P x then int i else indexWhere P xs (Suc i))"

definition resolveChunkRef :: "VanadisChunk list \<Rightarrow> string \<Rightarrow> int" where
  "resolveChunkRef chunks chunkRef =
     (let clean = trimSpace chunkRef
      in if clean = [] then -1
         else let i = indexWhere (\<lambda>c. c_ID c = clean) chunks 0
              in if i \<ge> 0 then i
                 else case atoi clean of
                        Some idx \<Rightarrow> indexWhere (\<lambda>c. c_ChunkIndex c = idx) chunks 0
                      | None \<Rightarrow> -1)"

definition validateUpdateChunkInput :: "string \<Rightarrow> string \<Rightarrow> UpdateChunkRequest \<Rightarrow> (verr, string) result" where
  "validateUpdateChunkInput buildID chunkRef req =
     (if trimSpace buildID = [] \<or> trimSpace chunkRef = [] then Inl ErrInvalidBuildInput
      else
        let repo = trimSpace (uc_Repo req); title = trimSpace (uc_Title req);
            instructions = trimSpace (uc_Instructions req); effortStr = trimSpace (uc_Effort req);
            hasField = repo \<noteq> [] \<or> title \<noteq> [] \<or> instructions \<noteq> [] \<or> effortStr \<noteq> [] \<or>
                       uc_TargetFiles req \<noteq> None \<or> uc_TargetSymbols req \<noteq> None
        in if \<not> hasField then Inl ErrInvalidBuildInput
           else if effortStr \<noteq> [] then
             (case normalizeChunkEffort effortStr of Inl _ \<Rightarrow> Inl ErrInvalidBuildInput | Inr e \<Rightarrow> Inr e)
           else Inr [])"

definition applyChunkUpdates :: "VanadisChunk \<Rightarrow> UpdateChunkRequest \<Rightarrow> string \<Rightarrow> VanadisChunk" where
  "applyChunkUpdates c req normEffort =
     c\<lparr>c_Repo := (if trimSpace (uc_Repo req) \<noteq> [] then normalizeRepo (trimSpace (uc_Repo req)) else c_Repo c),
       c_Title := (if trimSpace (uc_Title req) \<noteq> [] then trimSpace (uc_Title req) else c_Title c),
       c_Instructions := (if trimSpace (uc_Instructions req) \<noteq> [] then trimSpace (uc_Instructions req)
                          else c_Instructions c),
       c_TargetFiles := (case uc_TargetFiles req of Some fs \<Rightarrow> fs | None \<Rightarrow> c_TargetFiles c),
       c_TargetSymbols := (case uc_TargetSymbols req of Some ss \<Rightarrow> ss | None \<Rightarrow> c_TargetSymbols c),
       c_Effort := (if normEffort \<noteq> [] then normEffort else c_Effort c)\<rparr>"

definition UpdateChunk ::
    "int \<Rightarrow> string \<Rightarrow> string \<Rightarrow> UpdateChunkRequest \<Rightarrow> vdb \<Rightarrow> (verr, VanadisChunk \<times> vdb) result" where
  "UpdateChunk now bid ref req db =
     (let buildID = trimSpace bid; chunkRef = trimSpace ref
      in rbind (validateUpdateChunkInput buildID chunkRef req) (\<lambda>normEffort.
         rbind (lockRunningBuildAndChunks buildID db) (\<lambda>chunks.
         let idx = resolveChunkRef chunks chunkRef
         in if idx < 0 then Inl ErrChunkNotFound
            else if c_Status (chunks ! nat idx) \<noteq> ''pending'' then Inl ErrBuildConflict
            else
              let c = applyChunkUpdates (chunks ! nat idx) req normEffort
              in Inr (c\<lparr>c_UpdatedAt := now\<rparr>,
                   updChunks (\<lambda>r. c_ID r = c_ID c) (\<lambda>r. r\<lparr>c_Repo := c_Repo c, c_Title := c_Title c,
                     c_Instructions := c_Instructions c, c_TargetFiles := c_TargetFiles c,
                     c_TargetSymbols := c_TargetSymbols c, c_Effort := c_Effort c, c_UpdatedAt := now\<rparr>) db))))"

fun validateAppendInputs :: "CreateChunkInput list \<Rightarrow> verr option" where
  "validateAppendInputs [] = None"
| "validateAppendInputs (c # cs) =
     (if trimSpace (ci_Title c) = [] \<or> trimSpace (ci_Instructions c) = [] then Some ErrInvalidBuildInput
      else if trimSpace (ci_ID c) \<noteq> [] \<and> \<not> isValidVanadisChunkID (trimSpace (ci_ID c)) then Some ErrInvalidBuildInput
      else case normalizeChunkEffort (ci_Effort c) of Inl _ \<Rightarrow> Some ErrInvalidBuildInput
           | Inr _ \<Rightarrow> validateAppendInputs cs)"

definition validateAppendChunksInputs :: "string \<Rightarrow> CreateChunkInput list \<Rightarrow> verr option" where
  "validateAppendChunksInputs buildID inputs =
     (if trimSpace buildID = [] \<or> length inputs = 0 then Some ErrInvalidBuildInput
      else validateAppendInputs inputs)"

definition chunkIDCandidate :: "string \<Rightarrow> int \<Rightarrow> string" where
  "chunkIDCandidate buildID n = buildID @ ''-chunk-'' @ itoa n"

lemma chunkIDCandidate_inj: "chunkIDCandidate b m = chunkIDCandidate b n \<Longrightarrow> m = n"
  by (auto simp: chunkIDCandidate_def dest: itoa_inj)

lemma candidates_finite: "finite {n. chunkIDCandidate b n \<in> set used}"
proof -
  have "chunkIDCandidate b ` {n. chunkIDCandidate b n \<in> set used} \<subseteq> set used" by auto
  moreover have "inj_on (chunkIDCandidate b) {n. chunkIDCandidate b n \<in> set used}"
    by (auto intro: inj_onI dest: chunkIDCandidate_inj)
  ultimately show ?thesis by (meson finite_set finite_imageD finite_subset)
qed

text \<open>
  The unbounded search for an unused id. It ends because the candidates from \<^verbatim>\<open>n\<close> on that
  are in use become fewer with every step.
\<close>

function freshChunkID :: "string \<Rightarrow> string list \<Rightarrow> int \<Rightarrow> string" where
  "freshChunkID buildID used n =
     (let candidate = chunkIDCandidate buildID n
      in if candidate \<notin> set used then candidate else freshChunkID buildID used (n + 1))"
  by pat_completeness auto
termination
proof (relation "measure (\<lambda>(b, used, n). card {m. n \<le> m \<and> chunkIDCandidate b m \<in> set used})", simp)
  fix b used n x
  assume "x = chunkIDCandidate b n" "\<not> x \<notin> set used"
  moreover have "finite {m. n \<le> m \<and> chunkIDCandidate b m \<in> set used}"
    by (rule finite_subset [OF _ candidates_finite [of b used]]) auto
  moreover have "n \<notin> {m. n + 1 \<le> m \<and> chunkIDCandidate b m \<in> set used}"
    "{m. n + 1 \<le> m \<and> chunkIDCandidate b m \<in> set used} \<subseteq> {m. n \<le> m \<and> chunkIDCandidate b m \<in> set used}"
    by auto
  ultimately have "card {m. n + 1 \<le> m \<and> chunkIDCandidate b m \<in> set used}
      < card {m. n \<le> m \<and> chunkIDCandidate b m \<in> set used}"
    by (intro psubset_card_mono) blast+
  then show "((b, used, n + 1), b, used, n)
      \<in> measure (\<lambda>(b, used, n). card {m. n \<le> m \<and> chunkIDCandidate b m \<in> set used})"
    by simp
qed

declare freshChunkID.simps [simp del]

definition resolveAppendedChunkID :: "string \<Rightarrow> string \<Rightarrow> int \<Rightarrow> string list \<Rightarrow> (verr, string) result" where
  "resolveAppendedChunkID buildID rawID nextIdx usedIDs =
     (let cleanID = trimSpace rawID
      in if cleanID \<noteq> [] then (if cleanID \<in> set usedIDs then Inl ErrBuildConflict else Inr cleanID)
         else Inr (freshChunkID buildID usedIDs (nextIdx + 1)))"

text \<open>Besides the chunk it returns the map of used ids, which the code updates in place.\<close>

definition buildAppendedChunk ::
    "string \<Rightarrow> CreateChunkInput \<Rightarrow> int \<Rightarrow> string \<Rightarrow> string list \<Rightarrow> int \<Rightarrow> (verr, VanadisChunk \<times> string list) result" where
  "buildAppendedChunk buildID inp nextIdx defaultRepo usedIDs now =
     rbind (resolveAppendedChunkID buildID (ci_ID inp) nextIdx usedIDs) (\<lambda>resolvedID.
     rbind (normalizeChunkEffort (ci_Effort inp)) (\<lambda>eff.
       Inr (\<lparr> c_ID = resolvedID, c_BuildID = buildID, c_ChunkIndex = nextIdx,
              c_Repo = firstNonEmpty [normalizeRepo (ci_Repo inp), defaultRepo],
              c_Title = trimSpace (ci_Title inp), c_Instructions = trimSpace (ci_Instructions inp),
              c_TargetFiles = ci_TargetFiles inp, c_TargetSymbols = ci_TargetSymbols inp,
              c_Effort = eff, c_AcceptanceCriteria = ci_AcceptanceCriteria inp, c_Status = ''pending'',
              c_PRNumber = 0, c_StartedAt = 0, c_CompletedAt = 0, c_CreatedAt = now, c_UpdatedAt = now \<rparr>,
            resolvedID # usedIDs)))"

fun appendLoop ::
    "int \<Rightarrow> string \<Rightarrow> string \<Rightarrow> CreateChunkInput list \<Rightarrow> int \<Rightarrow> string list \<Rightarrow> vdb
     \<Rightarrow> (verr, VanadisChunk list \<times> vdb) result" where
  "appendLoop now buildID defaultRepo [] nextIdx usedIDs db = Inr ([], db)"
| "appendLoop now buildID defaultRepo (inp # inps) nextIdx usedIDs db =
     rbind (buildAppendedChunk buildID inp nextIdx defaultRepo usedIDs now) (\<lambda>(newChunk, usedIDs').
     rbind (execInsertVanadisChunk now buildID newChunk db) (\<lambda>db'.
     rbind (appendLoop now buildID defaultRepo inps (nextIdx + 1) usedIDs' db') (\<lambda>(appended, db'').
       Inr (newChunk # appended, db''))))"

definition AppendChunks ::
    "int \<Rightarrow> string \<Rightarrow> CreateChunkInput list \<Rightarrow> vdb \<Rightarrow> (verr, VanadisChunk list \<times> vdb) result" where
  "AppendChunks now bid inputs db =
     (let buildID = trimSpace bid
      in case validateAppendChunksInputs buildID inputs of
           Some e \<Rightarrow> Inl e
         | None \<Rightarrow> rbind (lockRunningBuildAndChunks buildID db) (\<lambda>existing.
             let nextIdx = (if existing = [] then 0 else c_ChunkIndex (last existing) + 1);
                 defaultRepo = (if existing = [] then ''azylman/aerial''
                                else firstNonEmpty [c_Repo (last existing), ''azylman/aerial''])
             in appendLoop now buildID defaultRepo inputs nextIdx (map c_ID existing) db))"

text \<open>The compaction loop over the chunks behind the removed one, one UPDATE each.\<close>

fun compactLoop :: "int \<Rightarrow> VanadisChunk list \<Rightarrow> vdb \<Rightarrow> (verr, VanadisChunk list \<times> vdb) result" where
  "compactLoop now [] db = Inr ([], db)"
| "compactLoop now (e # es) db =
     (let newIdx = c_ChunkIndex e - 1;
          db' = updChunks (\<lambda>c. c_ID c = c_ID e) (\<lambda>c. c\<lparr>c_ChunkIndex := newIdx, c_UpdatedAt := now\<rparr>) db
      in if \<not> uniqueIndex db' then Inl (ErrMsg ''compact chunk index'')
         else rbind (compactLoop now es db') (\<lambda>(es', db''). Inr (e\<lparr>c_ChunkIndex := newIdx\<rparr> # es', db'')))"

definition RemoveChunk ::
    "int \<Rightarrow> string \<Rightarrow> string \<Rightarrow> vdb \<Rightarrow> (verr, (VanadisChunk \<times> VanadisChunk list) \<times> vdb) result" where
  "RemoveChunk now bid ref db =
     (let buildID = trimSpace bid; chunkRef = trimSpace ref
      in if buildID = [] \<or> chunkRef = [] then Inl ErrInvalidBuildInput
         else rbind (lockRunningBuildAndChunks buildID db) (\<lambda>existing.
           let removeIdx = resolveChunkRef existing chunkRef
           in if removeIdx < 0 then Inl ErrChunkNotFound
              else let r = nat removeIdx; removed = existing ! r
                   in if c_Status removed \<noteq> ''pending'' then Inl ErrBuildConflict
                      else if length existing \<le> 1 then Inl ErrBuildConflict
                      else
                        let db1 = db\<lparr>vchunks := filter (\<lambda>c. c_ID c \<noteq> c_ID removed) (vchunks db)\<rparr>
                        in rbind (compactLoop now (drop (r + 1) existing) db1) (\<lambda>(tail', db2).
                             Inr ((removed, take r existing @ tail'), db2))))"

section \<open>Which chunk comes next\<close>

definition unmergedIdx :: "VanadisChunkSummary list \<Rightarrow> int list" where
  "unmergedIdx chunks = map s_ChunkIndex (filter (\<lambda>cs. s_Status cs \<noteq> ''merged'') chunks)"

definition laterIdx :: "int \<Rightarrow> VanadisChunkSummary list \<Rightarrow> int list" where
  "laterIdx cur chunks = filter (\<lambda>i. i > cur) (unmergedIdx chunks)"

lemma unmergedIdx_simps [simp]:
  "unmergedIdx [] = []"
  "unmergedIdx (c # cs) = (if s_Status c \<noteq> ''merged'' then [s_ChunkIndex c] else []) @ unmergedIdx cs"
  by (simp_all add: unmergedIdx_def)

lemma laterIdx_simps [simp]:
  "laterIdx cur [] = []"
  "laterIdx cur (c # cs) =
     (if s_Status c \<noteq> ''merged'' \<and> s_ChunkIndex c > cur then [s_ChunkIndex c] else []) @ laterIdx cur cs"
  by (simp_all add: laterIdx_def)

lemma nextChunkLoop_next:
  assumes "\<forall>c\<in>set cs. 0 \<le> s_ChunkIndex c" "n = -1 \<or> 0 \<le> n"
  shows "fst (nextChunkLoop cs cur n f) =
    (if n = -1 then (if laterIdx cur cs = [] then -1 else Min (set (laterIdx cur cs)))
     else Min (set (n # laterIdx cur cs)))"
  using assms
proof (induction cs arbitrary: n f)
  case (Cons c cs)
  have "min n (Min (insert x X)) = (if x < n then Min (insert x X) else Min (insert n X))"
    if "finite X" for x X using that by (cases "X = {}") (auto simp: min_def)
  then show ?case using Cons by auto
qed simp

lemma nextChunkLoop_fallback:
  assumes "\<forall>c\<in>set cs. 0 \<le> s_ChunkIndex c" "laterIdx cur cs = []"
  shows "snd (nextChunkLoop cs cur n f) =
    (if f \<noteq> -1 \<or> unmergedIdx cs = [] then f else hd (unmergedIdx cs))"
  using assms by (induction cs arbitrary: f) (auto split: if_splits)

lemma computeNextChunkIndex_eq:
  assumes nn: "\<forall>c\<in>set cs. 0 \<le> s_ChunkIndex c"
  shows "computeNextChunkIndex cs cur =
    (if laterIdx cur cs \<noteq> [] then Min (set (laterIdx cur cs))
     else if unmergedIdx cs \<noteq> [] then hd (unmergedIdx cs) else -1)"
proof -
  have "0 \<le> i" if "i \<in> set (laterIdx cur cs)" for i
    using that nn by (auto simp: laterIdx_def unmergedIdx_def)
  then have "laterIdx cur cs \<noteq> [] \<Longrightarrow> Min (set (laterIdx cur cs)) \<noteq> -1"
    by (metis List.finite_set Min_in list.set_intros(1) neq_Nil_conv empty_iff neg_0_le_iff_le not_one_le_zero)
  then show ?thesis
    using nextChunkLoop_next [OF nn, of "-1" cur "-1"] nextChunkLoop_fallback [OF nn, of cur "-1" "-1"]
    by (auto simp: computeNextChunkIndex_def split: prod.splits)
qed

section \<open>Keys of the tables\<close>

text \<open>
  What the constraints and the numbering of the chunks depend on: the build ids, and the id, build
  and index of every chunk. Most statements leave it alone.
\<close>

type_synonym chunkKey = "string \<times> string \<times> int"

definition ckey :: "VanadisChunk \<Rightarrow> chunkKey" where
  "ckey c = (c_ID c, c_BuildID c, c_ChunkIndex c)"

definition shape :: "vdb \<Rightarrow> string list \<times> chunkKey list" where
  "shape db = (map b_ID (vbuilds db), map ckey (vchunks db))"

definition idxOf :: "string \<Rightarrow> chunkKey list \<Rightarrow> int list" where
  "idxOf b ks = map (snd \<circ> snd) (filter (\<lambda>k. fst (snd k) = b) ks)"

text \<open>The indices of a build are 0, 1, ..., n - 1.\<close>

definition contigIdx :: "int list \<Rightarrow> bool" where
  "contigIdx is = (sort is = map int [0..<length is])"

definition shape_ok :: "string list \<times> chunkKey list \<Rightarrow> bool" where
  "shape_ok sh = (case sh of (bs, ks) \<Rightarrow>
     distinct bs \<and> distinct (map fst ks) \<and> distinct (map snd ks) \<and>
     list_all (\<lambda>k. fst (snd k) \<in> set bs) ks \<and> list_all (\<lambda>b. contigIdx (idxOf b ks)) bs)"

definition store_ok :: "vdb \<Rightarrow> bool" where
  "store_ok db = shape_ok (shape db)"

lemma ckey_sel [simp]: "fst (ckey c) = c_ID c" "fst (snd (ckey c)) = c_BuildID c" "snd (snd (ckey c)) = c_ChunkIndex c"
  by (simp_all add: ckey_def)

lemma snd_ckey: "snd (ckey c) = (c_BuildID c, c_ChunkIndex c)"
  by (simp add: ckey_def)

lemma shape_updBuilds [simp]:
  "(\<And>b. b_ID (f b) = b_ID b) \<Longrightarrow> shape (updBuilds P f db) = shape db"
  by (simp add: shape_def updBuilds_def)

lemma shape_updChunks [simp]:
  "(\<And>c. ckey (f c) = ckey c) \<Longrightarrow> shape (updChunks P f db) = shape db"
  by (simp add: shape_def updChunks_def)

lemma vchunks_updBuilds [simp]: "vchunks (updBuilds P f db) = vchunks db"
  and vbuilds_updChunks [simp]: "vbuilds (updChunks Q g db) = vbuilds db"
  by (simp_all add: updBuilds_def updChunks_def)

lemma vchunks_updChunks: "vchunks (updChunks P f db) = map (\<lambda>c. if P c then f c else c) (vchunks db)"
  and vbuilds_updBuilds: "vbuilds (updBuilds Q g db) = map (\<lambda>b. if Q b then g b else b) (vbuilds db)"
  by (simp_all add: updBuilds_def updChunks_def)

lemma updChunks_comp:
  assumes "\<And>c. c \<in> set (vchunks db) \<Longrightarrow>
    (let c' = if Q c then g c else c in if P c' then f c' else c') = (if R c then h c else c)"
  shows "updChunks P f (updChunks Q g db) = updChunks R h db"
  using assms by (simp add: updChunks_def Let_def)

lemma store_okD:
  assumes "store_ok db"
  shows "distinct (map b_ID (vbuilds db))" "distinct (map c_ID (vchunks db))" "uniqueIndex db"
    "c \<in> set (vchunks db) \<Longrightarrow> c_BuildID c \<in> b_ID ` set (vbuilds db)"
    "b \<in> set (vbuilds db) \<Longrightarrow> contigIdx (idxOf (b_ID b) (map ckey (vchunks db)))"
  using assms
  by (auto simp: store_ok_def shape_ok_def shape_def uniqueIndex_def list_all_iff comp_def ckey_def)

lemma idxOf_ckey: "idxOf b (map ckey cs) = map c_ChunkIndex (filter (\<lambda>c. c_BuildID c = b) cs)"
  by (induction cs) (auto simp: idxOf_def)

lemma map_sort_key: "map f (sort_key f xs) = sort (map f xs)"
  by (metis mset_map mset_sort properties_for_sort sorted_sort_key)

lemma findBuild_Some: "findBuild db i = Some b \<Longrightarrow> b \<in> set (vbuilds db) \<and> b_ID b = i"
  unfolding findBuild_def by (auto dest: find_Some_in)

lemma findBuild_None: "findBuild db i = None \<longleftrightarrow> i \<notin> b_ID ` set (vbuilds db)"
  unfolding findBuild_def find_None_all by auto

lemma set_chunksOf [simp]: "set (chunksOf db b) = {c \<in> set (vchunks db). c_BuildID c = b}"
  by (simp add: chunksOf_def)

lemma chunksOf_index:
  assumes "store_ok db" "b \<in> b_ID ` set (vbuilds db)"
  shows "map c_ChunkIndex (chunksOf db b) = map int [0..<length (chunksOf db b)]"
proof -
  have "contigIdx (idxOf b (map ckey (vchunks db)))" using store_okD(5) [OF assms(1)] assms(2) by auto
  then show ?thesis by (simp add: contigIdx_def idxOf_ckey chunksOf_def map_sort_key)
qed

lemma chunksOf_nth_index:
  assumes "store_ok db" "b \<in> b_ID ` set (vbuilds db)" "i < length (chunksOf db b)"
  shows "c_ChunkIndex (chunksOf db b ! i) = int i"
  using chunksOf_index [OF assms(1,2)] assms(3) by (metis length_map nth_map nth_upt add_0 diff_zero length_upt)

lemma chunk_by_id:
  assumes "distinct (map c_ID cs)" "c \<in> set cs" "d \<in> set cs" "c_ID c = c_ID d"
  shows "c = d"
  using assms by (auto simp: distinct_map inj_on_def)

section \<open>Removing a chunk\<close>

lemma distinct_map_inj: "distinct (map f xs) \<Longrightarrow> inj_on (h \<circ> u) (set xs) \<Longrightarrow> distinct (map h (map u xs))"
  by (auto simp: distinct_map comp_def inj_on_def)

definition decIdx :: "int \<Rightarrow> VanadisChunk \<Rightarrow> VanadisChunk" where
  "decIdx now c = c\<lparr>c_ChunkIndex := c_ChunkIndex c - 1, c_UpdatedAt := now\<rparr>"

lemma compact_unique:
  assumes ids: "distinct (map c_ID (vchunks db))" and uq: "uniqueIndex db"
    and x: "x \<in> set (vchunks db)" and free: "\<And>c. c \<in> set (vchunks db) \<Longrightarrow> c \<noteq> x \<Longrightarrow>
      (c_BuildID c, c_ChunkIndex c) \<noteq> (c_BuildID x, i)"
  shows "uniqueIndex (updChunks (\<lambda>c. c_ID c = c_ID x) (\<lambda>c. c\<lparr>c_ChunkIndex := i, c_UpdatedAt := now\<rparr>) db)"
proof -
  have only: "c_ID c = c_ID x \<longleftrightarrow> c = x" if "c \<in> set (vchunks db)" for c
    using chunk_by_id [OF ids that x] by auto
  have "inj_on (\<lambda>c. (c_BuildID c, c_ChunkIndex c)) (set (vchunks db))"
    using uq by (simp add: uniqueIndex_def distinct_map)
  then show ?thesis
    unfolding uniqueIndex_def vchunks_updChunks
  proof (intro distinct_map_inj [OF ids] inj_onI)
    fix c d
    assume c: "c \<in> set (vchunks db)" and d: "d \<in> set (vchunks db)"
      and eq: "((\<lambda>c. (c_BuildID c, c_ChunkIndex c)) \<circ>
        (\<lambda>c. if c_ID c = c_ID x then c\<lparr>c_ChunkIndex := i, c_UpdatedAt := now\<rparr> else c)) c =
        ((\<lambda>c. (c_BuildID c, c_ChunkIndex c)) \<circ>
        (\<lambda>c. if c_ID c = c_ID x then c\<lparr>c_ChunkIndex := i, c_UpdatedAt := now\<rparr> else c)) d"
    show "c = d"
      using eq only [OF c] only [OF d] free [OF c] free [OF d]
        inj_onD [OF \<open>inj_on _ _\<close> _ c d]
      by (cases "c = x"; cases "d = x") simp_all
  qed
qed

lemma compactLoop_ok:
  assumes "distinct (map c_ID (vchunks db))" "uniqueIndex db"
    "sorted_wrt (\<lambda>x y. c_ChunkIndex x < c_ChunkIndex y) es"
    "\<forall>e\<in>set es. c_BuildID e = bid \<and> (\<exists>c\<in>set (vchunks db). ckey c = ckey e)"
    "\<forall>c\<in>set (vchunks db). \<forall>e\<in>set es. c_BuildID c = bid \<longrightarrow> c_ChunkIndex c \<ge> c_ChunkIndex e - 1 \<longrightarrow>
       (\<exists>e'\<in>set es. c_ID c = c_ID e')"
  shows "compactLoop now es db =
    Inr (map (\<lambda>e. e\<lparr>c_ChunkIndex := c_ChunkIndex e - 1\<rparr>) es,
         updChunks (\<lambda>c. c_ID c \<in> c_ID ` set es) (decIdx now) db)"
  using assms
proof (induction es arbitrary: db)
  case Nil
  then show ?case by (simp add: updChunks_def)
next
  case (Cons e es)
  obtain x where x: "x \<in> set (vchunks db)" "ckey x = ckey e" using Cons.prems(4) by auto
  then have xe: "c_ID x = c_ID e" "c_BuildID x = bid" "c_ChunkIndex x = c_ChunkIndex e"
    using Cons.prems(4) by (auto simp: ckey_def)
  have row: "c = x" if "c \<in> set (vchunks db)" "c_ID c = c_ID e" for c
    using chunk_by_id [OF Cons.prems(1) that(1) x(1)] that xe by simp
  have gt: "c_ChunkIndex e < c_ChunkIndex d" if "d \<in> set es" for d using Cons.prems(3) that by simp
  have tl: "\<exists>c\<in>set (vchunks db). ckey c = ckey d \<and> c_ID d \<noteq> c_ID e" if d: "d \<in> set es" for d
    using Cons.prems(4) d gt [OF d] row xe(3) by (auto simp: ckey_def) (metis less_irrefl)
  have free: "(c_BuildID c, c_ChunkIndex c) \<noteq> (c_BuildID x, c_ChunkIndex e - 1)"
    if c: "c \<in> set (vchunks db)" "c \<noteq> x" for c
  proof
    assume eq: "(c_BuildID c, c_ChunkIndex c) = (c_BuildID x, c_ChunkIndex e - 1)"
    then obtain d where "d \<in> set (e # es)" "c_ID c = c_ID d" using Cons.prems(5) c xe by fastforce
    then have "d \<in> set es" using row c by auto
    then obtain y where "y \<in> set (vchunks db)" "ckey y = ckey d" using tl by blast
    moreover from this have "y = c"
      using chunk_by_id [OF Cons.prems(1)] c \<open>c_ID c = c_ID d\<close> by (auto simp: ckey_def)
    ultimately show False using eq gt [OF \<open>d \<in> set es\<close>] by (auto simp: ckey_def)
  qed
  define db' where "db' = updChunks (\<lambda>c. c_ID c = c_ID e)
      (\<lambda>c. c\<lparr>c_ChunkIndex := c_ChunkIndex e - 1, c_UpdatedAt := now\<rparr>) db"
  have rows': "set (vchunks db') = insert (x\<lparr>c_ChunkIndex := c_ChunkIndex e - 1, c_UpdatedAt := now\<rparr>)
      {c \<in> set (vchunks db). c_ID c \<noteq> c_ID e}"
  proof -
    have "c_ID c = c_ID e \<longleftrightarrow> c = x" if "c \<in> set (vchunks db)" for c using row [OF that] xe(1) by auto
    moreover from this have "{c \<in> set (vchunks db). c_ID c \<noteq> c_ID e} = set (vchunks db) - {x}" by blast
    ultimately show ?thesis using x(1) by (auto simp: db'_def vchunks_updChunks image_iff)
  qed
  have uq': "uniqueIndex db'"
    using compact_unique [OF Cons.prems(1,2) x(1) free] xe(1) by (simp add: db'_def)
  have ids': "distinct (map c_ID (vchunks db'))"
    using Cons.prems(1) by (auto simp: db'_def vchunks_updChunks comp_def if_distrib cong: if_cong)
  have H4: "\<forall>d\<in>set es. c_BuildID d = bid \<and> (\<exists>c\<in>set (vchunks db'). ckey c = ckey d)"
    using tl Cons.prems(4) by (fastforce simp: rows' ckey_def)
  have H5: "\<forall>c\<in>set (vchunks db'). \<forall>d\<in>set es. c_BuildID c = bid \<longrightarrow> c_ChunkIndex c \<ge> c_ChunkIndex d - 1 \<longrightarrow>
       (\<exists>d'\<in>set es. c_ID c = c_ID d')"
    using Cons.prems(5) gt by (force simp: rows')
  have "compactLoop now es db' = Inr (map (\<lambda>e. e\<lparr>c_ChunkIndex := c_ChunkIndex e - 1\<rparr>) es,
         updChunks (\<lambda>c. c_ID c \<in> c_ID ` set es) (decIdx now) db')"
    using Cons.prems(3) by (intro Cons.IH ids' uq' H4 H5) simp
  moreover have "updChunks (\<lambda>c. c_ID c \<in> c_ID ` set es) (decIdx now) db' =
      updChunks (\<lambda>c. c_ID c \<in> c_ID ` set (e # es)) (decIdx now) db"
  proof -
    have ne: "c_ID e \<notin> c_ID ` set es" using tl by fastforce
    show ?thesis unfolding db'_def
    proof (rule updChunks_comp)
      fix c assume c: "c \<in> set (vchunks db)"
      show "(let c' = if c_ID c = c_ID e then c\<lparr>c_ChunkIndex := c_ChunkIndex e - 1, c_UpdatedAt := now\<rparr> else c
             in if c_ID c' \<in> c_ID ` set es then decIdx now c' else c') =
            (if c_ID c \<in> c_ID ` set (e # es) then decIdx now c else c)"
        using row [OF c] xe(3) ne by (cases "c_ID c = c_ID e") (simp_all add: decIdx_def)
    qed
  qed
  ultimately show ?case using uq' by (simp add: db'_def Let_def)
qed

lemma compactLoop_unique:
  "compactLoop now es db = Inr (es', db') \<Longrightarrow> uniqueIndex db \<Longrightarrow> uniqueIndex db'"
  by (induction es arbitrary: db es' db') (auto simp: Let_def rbind_Inr split: if_splits)

lemma scan_sel [simp]:
  "length (scanChunks cs) = length cs"
  "map c_ID (scanChunks cs) = map c_ID cs"
  "map ckey (scanChunks cs) = map ckey cs"
  "i < length cs \<Longrightarrow> ckey (scanChunks cs ! i) = ckey (cs ! i)"
  "i < length cs \<Longrightarrow> c_ID (scanChunks cs ! i) = c_ID (cs ! i)"
  "i < length cs \<Longrightarrow> c_Status (scanChunks cs ! i) = c_Status (cs ! i)"
  by (simp_all add: scanChunks_def comp_def ckey_def)

lemma indexWhere_bound: "indexWhere P xs k \<ge> 0 \<Longrightarrow> nat (indexWhere P xs k) < k + length xs"
  by (induction xs arbitrary: k) (fastforce split: if_splits)+

lemma resolveChunkRef_bound: "\<not> resolveChunkRef cs r < 0 \<Longrightarrow> nat (resolveChunkRef cs r) < length cs"
  using indexWhere_bound [of _ cs 0]
  by (auto simp: resolveChunkRef_def Let_def split: if_splits option.splits)

lemma store_okI:
  assumes "distinct (map b_ID (vbuilds db))" "distinct (map c_ID (vchunks db))" "uniqueIndex db"
    "\<And>c. c \<in> set (vchunks db) \<Longrightarrow> c_BuildID c \<in> b_ID ` set (vbuilds db)"
    "\<And>b. b \<in> b_ID ` set (vbuilds db) \<Longrightarrow>
       map c_ChunkIndex (chunksOf db b) = map int [0..<length (chunksOf db b)]"
  shows "store_ok db"
  using assms
  by (auto simp: store_ok_def shape_ok_def shape_def uniqueIndex_def list_all_iff comp_def snd_ckey
      contigIdx_def idxOf_ckey chunksOf_def map_sort_key)

lemma distinct_chunksOf: "distinct (map c_ID (vchunks db)) \<Longrightarrow> distinct (map c_ID (chunksOf db b))"
  by (simp add: chunksOf_def distinct_map) (auto simp: inj_on_def)

lemma map_int_upt_shift:
  assumes "map f xs = map int [0..<length xs]" "r < length xs"
  shows "map f (take r xs) @ map (\<lambda>c. f c - 1) (drop (Suc r) xs) = map int [0..<length xs - 1]"
proof (rule nth_equalityI)
  have f: "f (xs ! i) = int i" if "i < length xs" for i
    using assms(1) that by (metis add_0 diff_zero length_map length_upt nth_map nth_upt)
  fix i assume "i < length (map f (take r xs) @ map (\<lambda>c. f c - 1) (drop (Suc r) xs))"
  then have i: "i < length xs - 1" using assms(2) by auto
  show "(map f (take r xs) @ map (\<lambda>c. f c - 1) (drop (Suc r) xs)) ! i = map int [0..<length xs - 1] ! i"
  proof (cases "i < r")
    case False
    have "Suc i < length xs" using i by simp
    moreover have "drop (Suc r) xs ! (i - r) = xs ! Suc i" using False assms(2) by (subst nth_drop) auto
    ultimately have "f (drop (Suc r) xs ! (i - r)) - 1 = int i" using f [of "Suc i"] by simp
    then show ?thesis using False i assms(2) by (simp add: nth_append del: nth_drop)
  qed (use i assms(2) f [of i] in \<open>simp add: nth_append\<close>)
qed (use assms in simp)

text \<open>The tables after the removal of the \<^term>\<open>r\<close>-th chunk of a build.\<close>

definition removedDB :: "int \<Rightarrow> string \<Rightarrow> nat \<Rightarrow> vdb \<Rightarrow> vdb" where
  "removedDB now bid r db =
     updChunks (\<lambda>c. c_ID c \<in> c_ID ` set (drop (Suc r) (chunksOf db bid))) (decIdx now)
       (db\<lparr>vchunks := filter (\<lambda>c. c_ID c \<noteq> c_ID (chunksOf db bid ! r)) (vchunks db)\<rparr>)"

lemma filter_drop_one:
  assumes "distinct (map f xs)" "r < length xs"
  shows "filter (\<lambda>c. f c \<noteq> f (xs ! r)) xs = take r xs @ drop (Suc r) xs"
proof -
  have xs: "xs = take r xs @ xs ! r # drop (Suc r) xs" using assms(2) by (rule id_take_nth_drop)
  have "distinct (map f (take r xs @ xs ! r # drop (Suc r) xs))" using assms(1) xs by simp
  then have "\<forall>c \<in> set (take r xs) \<union> set (drop (Suc r) xs). f c \<noteq> f (xs ! r)" by (auto simp: rev_image_eqI)
  then show ?thesis by (subst xs) (simp add: filter_id_conv)
qed

lemma map_upd_tail:
  assumes "distinct (map f (ys @ zs))"
  shows "map (\<lambda>c. if f c \<in> f ` set zs then g c else c) (ys @ zs) = ys @ map g zs"
  using assms by (auto intro!: map_idI) (metis IntI empty_iff imageI)

lemma chunksOf_removedDB:
  assumes ok: "store_ok db" and b: "bid \<in> b_ID ` set (vbuilds db)" and r: "r < length (chunksOf db bid)"
  defines "ex \<equiv> chunksOf db bid"
  shows "chunksOf (removedDB now bid r db) bid = take r ex @ map (decIdx now) (drop (Suc r) ex)"
proof -
  let ?u = "\<lambda>c. if c_ID c \<in> c_ID ` set (drop (Suc r) ex) then decIdx now c else c"
  let ?keep = "\<lambda>c. c_ID c \<noteq> c_ID (ex ! r)"
  have ids: "distinct (map c_ID ex)"
    unfolding ex_def by (rule distinct_chunksOf [OF store_okD(2) [OF ok]])
  have r': "r < length ex" using r by (simp add: ex_def)
  have "filter (\<lambda>c. c_BuildID c = bid) (vchunks (removedDB now bid r db)) =
      map ?u (filter ?keep (filter (\<lambda>c. c_BuildID c = bid) (vchunks db)))"
    by (simp add: removedDB_def vchunks_updChunks ex_def filter_map comp_def decIdx_def conj_commute if_distrib cong: if_cong)
  then have "mset (filter (\<lambda>c. c_BuildID c = bid) (vchunks (removedDB now bid r db))) = mset (map ?u (filter ?keep ex))"
    by (simp add: ex_def chunksOf_def filter_filter_mset conj_commute)
  also have "map ?u (filter ?keep ex) = take r ex @ map (decIdx now) (drop (Suc r) ex)"
  proof -
    have "distinct (map c_ID (take r ex @ drop (Suc r) ex))"
      using ids by (metis filter_drop_one [OF ids r'] distinct_map_filter)
    then show ?thesis by (subst filter_drop_one [OF ids r']) (rule map_upd_tail)
  qed
  finally have ms: "mset (filter (\<lambda>c. c_BuildID c = bid) (vchunks (removedDB now bid r db))) =
    mset (take r ex @ map (decIdx now) (drop (Suc r) ex))" .
  have "map c_ChunkIndex (take r ex @ map (decIdx now) (drop (Suc r) ex)) = map int [0..<length ex - 1]"
    using map_int_upt_shift [OF chunksOf_index [OF ok b] r] by (simp add: ex_def comp_def decIdx_def)
  then have so: "sorted (map c_ChunkIndex (take r ex @ map (decIdx now) (drop (Suc r) ex)))"
    and di: "distinct (map c_ChunkIndex (take r ex @ map (decIdx now) (drop (Suc r) ex)))"
    by (simp_all add: sorted_iff_nth_mono distinct_map)
  have "inj_on c_ChunkIndex (set (filter (\<lambda>c. c_BuildID c = bid) (vchunks (removedDB now bid r db))))"
    using di unfolding distinct_map mset_eq_setD [OF ms] by blast
  then show ?thesis
    unfolding chunksOf_def [of "removedDB now bid r db"] by (rule sort_key_inj_key_eq [OF ms _ so])
qed

lemma lockRunning_Inr:
  "lockRunningBuildAndChunks b db = Inr ex \<longleftrightarrow>
     (\<exists>r. findBuild db b = Some r \<and> b_Status r = ''running'') \<and> ex = scanChunks (chunksOf db b)"
  by (auto simp: lockRunningBuildAndChunks_def split: option.splits)

lemma lockRunning_build: "lockRunningBuildAndChunks b db = Inr ex \<Longrightarrow> b \<in> b_ID ` set (vbuilds db)"
  unfolding lockRunning_Inr using findBuild_None [of db b] by auto

lemma drop_chunksOf_sorted:
  assumes "store_ok db" "b \<in> b_ID ` set (vbuilds db)"
  shows "sorted_wrt (\<lambda>x y. c_ChunkIndex x < c_ChunkIndex y) (scanChunks (chunksOf db b))"
proof -
  have "map c_ChunkIndex (scanChunks (chunksOf db b)) = map int [0..<length (chunksOf db b)]"
    using chunksOf_index [OF assms] by (simp add: scanChunks_def comp_def)
  then have "sorted_wrt (<) (map c_ChunkIndex (scanChunks (chunksOf db b)))"
    by (simp add: sorted_wrt_map)
  then show ?thesis by (simp add: sorted_wrt_map)
qed

lemma scan_drop: "drop n (scanChunks cs) = scanChunks (drop n cs)"
  by (simp add: scanChunks_def drop_map)

lemma scan_ids: "c_ID ` set (scanChunks cs) = c_ID ` set cs"
  by (metis list.set_map scan_sel(2))

lemma scan_in: "e \<in> set (scanChunks cs) \<Longrightarrow> \<exists>c\<in>set cs. ckey c = ckey e"
  by (auto simp: scanChunks_def ckey_def)

lemma later_in_drop:
  assumes ok: "store_ok db" and b: "b \<in> b_ID ` set (vbuilds db)" and r: "r < length (chunksOf db b)"
    and c: "c \<in> set (vchunks db)" "c_BuildID c = b" "c_ID c \<noteq> c_ID (chunksOf db b ! r)" "c_ChunkIndex c \<ge> int r"
  shows "c \<in> set (drop (Suc r) (chunksOf db b))"
proof -
  have "c \<in> set (chunksOf db b)" using c by simp
  then obtain i where i: "i < length (chunksOf db b)" "c = chunksOf db b ! i" by (metis in_set_conv_nth)
  then have "int i \<ge> int r" "i \<noteq> r" using chunksOf_nth_index [OF ok b i(1)] c by auto
  then have "c = drop (Suc r) (chunksOf db b) ! (i - Suc r)" "i - Suc r < length (drop (Suc r) (chunksOf db b))"
    using i by auto
  then show ?thesis by (metis nth_mem)
qed

lemma compact_removed:
  assumes ok: "store_ok db" and b: "b \<in> b_ID ` set (vbuilds db)" and r: "r < length (chunksOf db b)"
  shows "compactLoop now (drop (Suc r) (scanChunks (chunksOf db b)))
      (db\<lparr>vchunks := filter (\<lambda>c. c_ID c \<noteq> c_ID (chunksOf db b ! r)) (vchunks db)\<rparr>) =
    Inr (map (\<lambda>e. e\<lparr>c_ChunkIndex := c_ChunkIndex e - 1\<rparr>) (drop (Suc r) (scanChunks (chunksOf db b))),
         removedDB now b r db)"
proof -
  let ?ex = "chunksOf db b"
  let ?db1 = "db\<lparr>vchunks := filter (\<lambda>c. c_ID c \<noteq> c_ID (?ex ! r)) (vchunks db)\<rparr>"
  let ?es = "drop (Suc r) (scanChunks ?ex)"
  have ids: "distinct (map c_ID (vchunks db))" by (rule store_okD(2) [OF ok])
  have uq: "uniqueIndex ?db1" using store_okD(3) [OF ok] by (simp add: uniqueIndex_def distinct_map_filter)
  have so: "sorted_wrt (\<lambda>x y. c_ChunkIndex x < c_ChunkIndex y) ?es"
    by (rule sorted_wrt_drop [OF drop_chunksOf_sorted [OF ok b]])
  have tl: "d \<in> set (vchunks ?db1) \<and> c_ChunkIndex d > int r" if "d \<in> set (drop (Suc r) ?ex)" for d
  proof -
    from that obtain i where i: "i < length (drop (Suc r) ?ex)" "drop (Suc r) ?ex ! i = d"
      by (auto simp: in_set_conv_nth)
    then have d: "d = ?ex ! (Suc r + i)" "Suc r + i < length ?ex" using r by auto
    then have "c_ChunkIndex d = int (Suc r + i)" using chunksOf_nth_index [OF ok b] by auto
    moreover have "d \<in> set ?ex" using d by (metis nth_mem)
    moreover have "c_ID d \<noteq> c_ID (?ex ! r)"
      using distinct_chunksOf [OF ids, of b] d r nth_eq_iff_index_eq [of "map c_ID ?ex" "Suc r + i" r] by auto
    ultimately show ?thesis by auto
  qed
  have k4: "\<forall>e\<in>set ?es. c_BuildID e = b \<and> (\<exists>c\<in>set (vchunks ?db1). ckey c = ckey e)"
  proof
    fix e assume "e \<in> set ?es"
    then obtain d where "d \<in> set (drop (Suc r) ?ex)" "ckey d = ckey e" using scan_in by (auto simp: scan_drop)
    then show "c_BuildID e = b \<and> (\<exists>c\<in>set (vchunks ?db1). ckey c = ckey e)"
      using tl in_set_dropD [of d "Suc r" ?ex] by (auto simp: ckey_def)
  qed
  have k5: "\<forall>c\<in>set (vchunks ?db1). \<forall>e\<in>set ?es. c_BuildID c = b \<longrightarrow> c_ChunkIndex c \<ge> c_ChunkIndex e - 1 \<longrightarrow>
       (\<exists>e'\<in>set ?es. c_ID c = c_ID e')"
  proof (intro ballI impI)
    fix c e assume c: "c \<in> set (vchunks ?db1)" "c_BuildID c = b" and e: "e \<in> set ?es"
      and le: "c_ChunkIndex c \<ge> c_ChunkIndex e - 1"
    obtain d where "d \<in> set (drop (Suc r) ?ex)" "ckey d = ckey e" using scan_in e by (auto simp: scan_drop)
    then have "c_ChunkIndex c \<ge> int r" using tl [of d] le by (auto simp: ckey_def)
    then have "c \<in> set (drop (Suc r) ?ex)" using later_in_drop [OF ok b r] c by auto
    then have "c_ID c \<in> c_ID ` set ?es" by (simp add: scan_drop scan_ids)
    then show "\<exists>e'\<in>set ?es. c_ID c = c_ID e'" by auto
  qed
  have "distinct (map c_ID (vchunks ?db1))" using ids by (simp add: distinct_map_filter)
  from compactLoop_ok [OF this uq so k4 k5] show ?thesis
    by (simp add: removedDB_def scan_drop scan_ids)
qed

lemma filter_upd_other:
  "(\<And>c. c \<in> set cs \<Longrightarrow> P c \<Longrightarrow> f c \<notin> A \<and> f c \<noteq> x) \<Longrightarrow> (\<And>c. P (g c) = P c) \<Longrightarrow>
   filter P (map (\<lambda>c. if f c \<in> A then g c else c) (filter (\<lambda>c. f c \<noteq> x) cs)) = filter P cs"
  by (induction cs) auto

lemma chunksOf_removedDB_other:
  assumes ok: "store_ok db" and ne: "b' \<noteq> b" and r: "r < length (chunksOf db b)"
  shows "chunksOf (removedDB now b r db) b' = chunksOf db b'"
proof -
  have "\<not> c_ID c \<in> c_ID ` set (drop (Suc r) (chunksOf db b)) \<and> c_ID c \<noteq> c_ID (chunksOf db b ! r)"
    if c: "c \<in> set (vchunks db)" "c_BuildID c = b'" for c
  proof -
    have *: "c_ID c \<noteq> c_ID d" if "d \<in> set (chunksOf db b)" for d
      using chunk_by_id [OF store_okD(2) [OF ok] c(1), of d] that c ne by auto
    have "c_ID c \<noteq> c_ID (chunksOf db b ! r)" using * [OF nth_mem [OF r]] .
    then show ?thesis using * by (metis imageE in_set_dropD)
  qed
  then have "filter (\<lambda>c. c_BuildID c = b') (vchunks (removedDB now b r db)) =
      filter (\<lambda>c. c_BuildID c = b') (vchunks db)"
    by (simp add: removedDB_def vchunks_updChunks decIdx_def filter_upd_other)
  then show ?thesis by (simp add: chunksOf_def)
qed

lemma removedDB_builds [simp]: "vbuilds (removedDB now b r db) = vbuilds db"
  by (simp add: removedDB_def)

lemma removedDB_ok:
  assumes ok: "store_ok db" and b: "b \<in> b_ID ` set (vbuilds db)" and r: "r < length (chunksOf db b)"
  shows "store_ok (removedDB now b r db)"
proof (rule store_okI)
  show "uniqueIndex (removedDB now b r db)"
    using compactLoop_unique [OF compact_removed [OF ok b r]] store_okD(3) [OF ok]
    by (simp add: uniqueIndex_def distinct_map_filter)
  show "distinct (map c_ID (vchunks (removedDB now b r db)))"
    using store_okD(2) [OF ok]
    by (simp add: removedDB_def vchunks_updChunks comp_def if_distrib decIdx_def distinct_map_filter cong: if_cong)
  show "distinct (map b_ID (vbuilds (removedDB now b r db)))" using store_okD(1) [OF ok] by simp
  show "c_BuildID c \<in> b_ID ` set (vbuilds (removedDB now b r db))"
    if "c \<in> set (vchunks (removedDB now b r db))" for c
    using that store_okD(4) [OF ok] by (auto simp: removedDB_def vchunks_updChunks decIdx_def)
  show "map c_ChunkIndex (chunksOf (removedDB now b r db) b') =
      map int [0..<length (chunksOf (removedDB now b r db) b')]"
    if "b' \<in> b_ID ` set (vbuilds (removedDB now b r db))" for b'
  proof (cases "b' = b")
    case True
    then show ?thesis
      using map_int_upt_shift [OF chunksOf_index [OF ok b] r] r
      by (simp add: chunksOf_removedDB [OF ok b r] comp_def decIdx_def)
  next
    case False
    then show ?thesis
      using chunksOf_index [OF ok] that by (simp add: chunksOf_removedDB_other [OF ok False r])
  qed
qed

lemma RemoveChunk_eq:
  assumes ok: "store_ok db"
  shows "RemoveChunk now bid ref db =
    (let b = trimSpace bid; cr = trimSpace ref
     in if b = [] \<or> cr = [] then Inl ErrInvalidBuildInput
        else rbind (lockRunningBuildAndChunks b db) (\<lambda>ex.
          let i = resolveChunkRef ex cr; r = nat i
          in if i < 0 then Inl ErrChunkNotFound
             else if c_Status (ex ! r) \<noteq> ''pending'' \<or> length ex \<le> 1 then Inl ErrBuildConflict
             else Inr ((ex ! r, take r ex @ map (\<lambda>e. e\<lparr>c_ChunkIndex := c_ChunkIndex e - 1\<rparr>) (drop (Suc r) ex)),
                       removedDB now b r db)))"
proof (cases "lockRunningBuildAndChunks (trimSpace bid) db")
  case (Inl e)
  then show ?thesis by (simp add: RemoveChunk_def Let_def)
next
  case (Inr ex)
  let ?b = "trimSpace bid" and ?i = "resolveChunkRef ex (trimSpace ref)"
  have b: "?b \<in> b_ID ` set (vbuilds db)" using lockRunning_build [OF Inr] .
  have ex: "ex = scanChunks (chunksOf db ?b)" using Inr by (simp add: lockRunning_Inr)
  have "compactLoop now (drop (Suc (nat ?i)) ex)
      (db\<lparr>vchunks := filter (\<lambda>c. c_ID c \<noteq> c_ID (ex ! nat ?i)) (vchunks db)\<rparr>) =
    Inr (map (\<lambda>e. e\<lparr>c_ChunkIndex := c_ChunkIndex e - 1\<rparr>) (drop (Suc (nat ?i)) ex), removedDB now ?b (nat ?i) db)"
    if "\<not> ?i < 0"
    using compact_removed [OF ok b, of "nat ?i"] resolveChunkRef_bound [OF that] by (simp add: ex)
  then show ?thesis using Inr by (simp add: RemoveChunk_def Let_def)
qed

lemma map_remove_nth:
  assumes "distinct (map f xs)" "r < length xs"
  shows "map f (take r xs @ drop (Suc r) xs) = remove1 (f (xs ! r)) (map f xs)"
  using filter_drop_one [OF assms] assms(1)
  by (simp add: distinct_remove1_removeAll removeAll_filter_not_eq filter_map comp_def eq_commute)

definition remove_result_ok :: "vdb \<Rightarrow> string \<Rightarrow> VanadisChunk \<Rightarrow> VanadisChunk list \<Rightarrow> vdb \<Rightarrow> bool" where
  "remove_result_ok db b removed remaining db' =
     (c_Status removed = ''pending'' \<and> c_ID removed \<in> c_ID ` set (chunksOf db b) \<and> remaining \<noteq> [] \<and>
      map c_ID remaining = remove1 (c_ID removed) (map c_ID (chunksOf db b)) \<and>
      map c_ChunkIndex remaining = map int [0..<length remaining] \<and>
      map ckey (chunksOf db' b) = map ckey remaining \<and>
      (\<forall>b'. b' \<noteq> b \<longrightarrow> chunksOf db' b' = chunksOf db b'))"

lemma removedDB_result:
  assumes ok: "store_ok db" and b: "b \<in> b_ID ` set (vbuilds db)" and r: "r < length (chunksOf db b)"
    and p: "c_Status (chunksOf db b ! r) = ''pending''" and l: "1 < length (chunksOf db b)"
  defines "ex \<equiv> scanChunks (chunksOf db b)"
  shows "remove_result_ok db b (ex ! r)
    (take r ex @ map (\<lambda>e. e\<lparr>c_ChunkIndex := c_ChunkIndex e - 1\<rparr>) (drop (Suc r) ex)) (removedDB now b r db)"
proof -
  have r': "r < length ex" using r by (simp add: ex_def)
  have ids: "distinct (map c_ID ex)" using distinct_chunksOf [OF store_okD(2) [OF ok], of b] by (simp add: ex_def)
  have idx: "map c_ChunkIndex ex = map int [0..<length ex]"
    using chunksOf_index [OF ok b] by (simp add: ex_def scanChunks_def comp_def)
  have keys: "map ckey (take r ex) = map ckey (take r (chunksOf db b))"
    "map ckey (drop (Suc r) ex) = map ckey (drop (Suc r) (chunksOf db b))"
    by (simp_all add: ex_def scanChunks_def take_map drop_map ckey_def comp_def)
  have "map (ckey \<circ> decIdx now) (drop (Suc r) (chunksOf db b)) =
      map (ckey \<circ> (\<lambda>e. e\<lparr>c_ChunkIndex := c_ChunkIndex e - 1\<rparr>)) (drop (Suc r) ex)"
    by (simp add: ex_def scanChunks_def drop_map comp_def ckey_def decIdx_def)
  moreover have "c_ID (ex ! r) \<in> c_ID ` set (chunksOf db b)" using r by (simp add: ex_def) (metis nth_mem set_chunksOf imageI)
  ultimately show ?thesis
    using map_remove_nth [OF ids r'] map_int_upt_shift [OF idx r'] r l p keys
    by (auto simp: remove_result_ok_def chunksOf_removedDB [OF ok b r] chunksOf_removedDB_other [OF ok _ r]
        comp_def ex_def)
qed

section \<open>Appending chunks\<close>

lemma runeLenIn_dash:
  assumes "runeLenIn spaceRunes b = 0"
  shows "runeLenIn spaceRunes (b @ CHR ''-'' # t) = 0"
proof -
  have "\<not> hasPrefix (b @ CHR ''-'' # t) r" if r: "r \<in> set spaceRunes" for r
  proof
    assume "hasPrefix (b @ CHR ''-'' # t) r"
    then obtain u where "b @ CHR ''-'' # t = r @ u" by (auto simp: hasPrefix_iff)
    then have "hasPrefix b r \<or> CHR ''-'' \<in> set r"
      by (auto simp: append_eq_append_conv2 hasPrefix_iff Cons_eq_append_conv)
    moreover have "CHR ''-'' \<notin> set r" using r by (auto simp: spaceRunes_def)
    ultimately show False using assms r runeLenIn_0 [OF spaceRunes_nonempty(1)] by blast
  qed
  then show ?thesis using runeLenIn_0 [OF spaceRunes_nonempty(1)] by blast
qed

lemma runeLenIn_digit: "isDigit d \<Longrightarrow> runeLenIn (map rev spaceRunes) (d # t) = 0"
proof -
  have hds: "\<forall>r\<in>set (map rev spaceRunes). \<not> isDigit (hd r)" by (simp add: spaceRunes_def isDigit_def)
  have "hd r = d" if "r \<noteq> []" "hasPrefix (d # t) r" for r using that by (cases r) auto
  then show "isDigit d \<Longrightarrow> runeLenIn (map rev spaceRunes) (d # t) = 0"
    using hds spaceRunes_nonempty(2) runeLenIn_0 [OF spaceRunes_nonempty(2)] by blast
qed

lemma itoa_last_digit: "\<exists>d t. isDigit d \<and> rev (itoa n) = d # t"
proof -
  have ne: "itoa n \<noteq> []" by (simp add: itoa_def)
  have "last (itoa n) = last (natStr (nat \<bar>n\<bar>))" by (simp add: itoa_def)
  then have "isDigit (last (itoa n))" using natStr_digits last_in_set [OF natStr_nonempty] by metis
  moreover have "rev (itoa n) = last (itoa n) # rev (butlast (itoa n))"
    using append_butlast_last_id [OF ne] by (metis rev.simps(2) rev_append rev_singleton_conv append_Cons append_Nil)
  ultimately show ?thesis by blast
qed

lemma trimSpace_candidate:
  assumes "trimSpace b = b"
  shows "trimSpace (chunkIDCandidate b n) = chunkIDCandidate b n"
proof (rule trimSpace_fix)
  show "runeLenIn spaceRunes (chunkIDCandidate b n) = 0"
    using runeLenIn_dash [of b] trimSpace_done(1) [of b] assms by (simp add: chunkIDCandidate_def)
  obtain d t where "isDigit d" "rev (itoa n) = d # t" using itoa_last_digit by blast
  then show "runeLenIn (map rev spaceRunes) (rev (chunkIDCandidate b n)) = 0"
    using runeLenIn_digit by (simp add: chunkIDCandidate_def)
qed

lemma freshChunkID_spec:
  "freshChunkID b used n \<notin> set used \<and> (\<exists>m\<ge>n. freshChunkID b used n = chunkIDCandidate b m)"
proof (induction b used n rule: freshChunkID.induct)
  case (1 b used n)
  show ?case
  proof (cases "chunkIDCandidate b n \<in> set used")
    case True
    then obtain m where "freshChunkID b used (n + 1) = chunkIDCandidate b m" "n + 1 \<le> m"
      "freshChunkID b used (n + 1) \<notin> set used" using "1.IH" by auto
    moreover have "freshChunkID b used n = freshChunkID b used (n + 1)"
      using True by (simp add: freshChunkID.simps [of b used n])
    ultimately show ?thesis by (metis add_increasing2 dual_order.trans le_add_same_cancel1 zero_le_one)
  qed (auto simp: freshChunkID.simps [of b used n])
qed

lemma resolveAppendedChunkID_fresh:
  assumes "resolveAppendedChunkID b raw n used = Inr i" "trimSpace b = b"
  shows "i \<notin> set used" "trimSpace i = i" "trimSpace raw \<noteq> [] \<Longrightarrow> i = trimSpace raw"
proof -
  have "freshChunkID b used (n + 1) \<notin> set used"
    "trimSpace (freshChunkID b used (n + 1)) = freshChunkID b used (n + 1)"
    using freshChunkID_spec [of b used "n + 1"] trimSpace_candidate [OF assms(2)] by auto
  then show "i \<notin> set used" "trimSpace i = i" "trimSpace raw \<noteq> [] \<Longrightarrow> i = trimSpace raw"
    using assms(1) by (auto simp: resolveAppendedChunkID_def Let_def split: if_splits)
qed

lemma buildAppendedChunk_Inr:
  assumes "buildAppendedChunk b inp n repo used now = Inr (c, used')" "trimSpace b = b"
  shows "c_BuildID c = b" "c_ChunkIndex c = n" "c_Status c = ''pending''" "used' = c_ID c # used"
    "c_ID c \<notin> set used" "trimSpace (c_ID c) = c_ID c"
  using assms resolveAppendedChunkID_fresh by (auto simp: buildAppendedChunk_def rbind_Inr)

lemma chunkRow_sel [simp]:
  "ckey (chunkRow now b e c) = (trimSpace (c_ID c), b, c_ChunkIndex c)"
  "c_BuildID (chunkRow now b e c) = b" "c_ID (chunkRow now b e c) = trimSpace (c_ID c)"
  "c_ChunkIndex (chunkRow now b e c) = c_ChunkIndex c"
  "c_Status (chunkRow now b e c) = firstNonEmpty [c_Status c, ''pending'']"
  by (simp_all add: chunkRow_def ckey_def Let_def)

lemma execInsert_Inr:
  assumes "execInsertVanadisChunk now b c db = Inr db'"
  shows "\<exists>e. db' = db\<lparr>vchunks := vchunks db @ [chunkRow now b e c]\<rparr>"
    "uniqueChunkID db'" "uniqueIndex db'" "b \<in> b_ID ` set (vbuilds db)"
  using assms findBuild_None [of db b]
  by (auto simp: execInsertVanadisChunk_def rbind_Inr Let_def split: if_splits)

lemma trimSpace_literals: "trimSpace ''pending'' = ''pending''" "trimSpace ''running'' = ''running''"
  "trimSpace ''failed'' = ''failed''" "trimSpace ''cancelled'' = ''cancelled''"
  "trimSpace ''pr_opened'' = ''pr_opened''" "trimSpace ''azylman/aerial'' = ''azylman/aerial''"
  by (rule trimSpace_fix; simp add: spaceRunes_def)+

lemma appendLoop_Inr:
  assumes "appendLoop now b repo inps n used db = Inr (app, db')" "trimSpace b = b"
    "uniqueChunkID db" "uniqueIndex db"
  shows "\<exists>rows. db' = db\<lparr>vchunks := vchunks db @ rows\<rparr> \<and> map ckey rows = map ckey app \<and>
      map c_Status rows = replicate (length inps) ''pending'' \<and> map c_Status app = replicate (length inps) ''pending'' \<and>
      map c_ChunkIndex app = map (\<lambda>i. n + int i) [0..<length inps] \<and>
      list_all (\<lambda>c. c_BuildID c = b \<and> trimSpace (c_ID c) = c_ID c) app"
    "uniqueChunkID db'" "uniqueIndex db'"
  using assms
proof (induction inps arbitrary: n used db app)
  case Nil
  {
    case 1 then show ?case by (auto intro: exI [of _ "[]"])
  next
    case 2 then show ?case by simp
  next
    case 3 then show ?case by simp
  }
next
  case (Cons inp inps)
  have step: "\<exists>c used' e db1 app1. app = c # app1 \<and>
      buildAppendedChunk b inp n repo used now = Inr (c, used') \<and>
      db1 = db\<lparr>vchunks := vchunks db @ [chunkRow now b e c]\<rparr> \<and> uniqueChunkID db1 \<and> uniqueIndex db1 \<and>
      appendLoop now b repo inps (n + 1) used' db1 = Inr (app1, db')"
    if "appendLoop now b repo (inp # inps) n used db = Inr (app, db')" for n used db app
    using that execInsert_Inr by (fastforce simp: rbind_Inr split: prod.splits)
  {
    case 1
    then obtain c used' e db1 app1 where st: "app = c # app1"
      "buildAppendedChunk b inp n repo used now = Inr (c, used')"
      "db1 = db\<lparr>vchunks := vchunks db @ [chunkRow now b e c]\<rparr>" "uniqueChunkID db1" "uniqueIndex db1"
      "appendLoop now b repo inps (n + 1) used' db1 = Inr (app1, db')" using step [OF "1"(1)] by metis
    note c = buildAppendedChunk_Inr [OF st(2) "1"(2)]
    from Cons.IH(1) [OF st(6) "1"(2) st(4,5)] obtain rows where
      rows: "db' = db1\<lparr>vchunks := vchunks db1 @ rows\<rparr>" "map ckey rows = map ckey app1"
      "map c_Status rows = replicate (length inps) ''pending''" "map c_Status app1 = replicate (length inps) ''pending''"
      "map c_ChunkIndex app1 = map (\<lambda>i. n + 1 + int i) [0..<length inps]"
      "list_all (\<lambda>c. c_BuildID c = b \<and> trimSpace (c_ID c) = c_ID c) app1"
      by auto
    have up: "map (\<lambda>i. n + int i) [0..<Suc (length inps)] = n # map (\<lambda>i. n + 1 + int i) [0..<length inps]"
      by (simp add: upt_conv_Cons map_Suc_upt [symmetric] comp_def del: upt_Suc)
    have "ckey c = (c_ID c, b, n)" using c by (simp add: ckey_def)
    then show ?case
      using rows c st(1,3) up
      by (intro exI [of _ "chunkRow now b e c # rows"]) (simp add: trimSpace_literals del: upt_Suc)
  next
    case 2
    then show ?case using step [OF "2"(1)] Cons.IH(2) by metis
  next
    case 3
    then show ?case using step [OF "3"(1)] Cons.IH(3) by metis
  }
qed

lemma int_upt_add: "map int [0..<m + n] = map int [0..<m] @ map (\<lambda>i. int m + int i) [0..<n]"
  by (rule nth_equalityI) (auto simp: nth_append)

lemma chunksOf_appended:
  assumes ok: "store_ok db" and b: "b \<in> b_ID ` set (vbuilds db)"
    and db': "db' = db\<lparr>vchunks := vchunks db @ rows\<rparr>" and uq: "uniqueIndex db'"
    and bs: "list_all (\<lambda>c. c_BuildID c = b) rows"
    and idx: "map c_ChunkIndex rows = map (\<lambda>i. int (length (chunksOf db b)) + int i) [0..<length rows]"
  shows "chunksOf db' b = chunksOf db b @ rows"
    "map c_ChunkIndex (chunksOf db' b) = map int [0..<length (chunksOf db' b)]"
    "b' \<noteq> b \<Longrightarrow> chunksOf db' b' = chunksOf db b'"
proof -
  have fl: "filter (\<lambda>c. c_BuildID c = b) (vchunks db') = filter (\<lambda>c. c_BuildID c = b) (vchunks db) @ rows"
    using bs by (simp add: db' list_all_iff filter_id_conv)
  then have ms: "mset (filter (\<lambda>c. c_BuildID c = b) (vchunks db')) = mset (chunksOf db b @ rows)"
    by (simp add: chunksOf_def)
  have ix: "map c_ChunkIndex (chunksOf db b @ rows) = map int [0..<length (chunksOf db b @ rows)]"
    using chunksOf_index [OF ok b] idx by (simp add: int_upt_add)
  have "inj_on (\<lambda>c. (c_BuildID c, c_ChunkIndex c)) (set (vchunks db'))"
    using uq by (simp add: uniqueIndex_def distinct_map)
  then have "inj_on c_ChunkIndex (set (filter (\<lambda>c. c_BuildID c = b) (vchunks db')))"
    by (auto simp: inj_on_def)
  moreover have "sorted (map c_ChunkIndex (chunksOf db b @ rows))" unfolding ix by (simp add: sorted_iff_nth_mono)
  ultimately show eq: "chunksOf db' b = chunksOf db b @ rows"
    unfolding chunksOf_def [of db'] by (rule sort_key_inj_key_eq [OF ms])
  show "map c_ChunkIndex (chunksOf db' b) = map int [0..<length (chunksOf db' b)]" unfolding eq by (rule ix)
  assume "b' \<noteq> b"
  then have "filter (\<lambda>c. c_BuildID c = b') rows = []" using bs by (auto simp: list_all_iff filter_empty_conv)
  then show "chunksOf db' b' = chunksOf db b'" by (simp add: chunksOf_def db')
qed

lemma appended_ok:
  assumes ok: "store_ok db" and b: "b \<in> b_ID ` set (vbuilds db)"
    and db': "db' = db\<lparr>vchunks := vchunks db @ rows\<rparr>" and uq: "uniqueIndex db'" "uniqueChunkID db'"
    and bs: "list_all (\<lambda>c. c_BuildID c = b) rows"
    and idx: "map c_ChunkIndex rows = map (\<lambda>i. int (length (chunksOf db b)) + int i) [0..<length rows]"
  shows "store_ok db'"
proof (rule store_okI)
  note ch = chunksOf_appended [OF ok b db' uq(1) bs idx]
  show "distinct (map b_ID (vbuilds db'))" using store_okD(1) [OF ok] by (simp add: db')
  show "distinct (map c_ID (vchunks db'))" using uq(2) by (simp add: uniqueChunkID_def)
  show "uniqueIndex db'" by (rule uq(1))
  show "c_BuildID c \<in> b_ID ` set (vbuilds db')" if "c \<in> set (vchunks db')" for c
    using that store_okD(4) [OF ok] b bs by (auto simp: db' list_all_iff)
  show "map c_ChunkIndex (chunksOf db' b') = map int [0..<length (chunksOf db' b')]"
    if "b' \<in> b_ID ` set (vbuilds db')" for b'
    using ch(2,3) chunksOf_index [OF ok, of b'] that by (cases "b' = b") (simp_all add: db')
qed

lemma nextIdx_length:
  assumes "store_ok db" "b \<in> b_ID ` set (vbuilds db)"
  shows "(if scanChunks (chunksOf db b) = [] then 0 else c_ChunkIndex (last (scanChunks (chunksOf db b))) + 1)
    = int (length (chunksOf db b))"
proof (cases "chunksOf db b = []")
  case False
  then have "c_ChunkIndex (last (chunksOf db b)) = int (length (chunksOf db b) - 1)"
    using chunksOf_nth_index [OF assms, of "length (chunksOf db b) - 1"] by (simp add: last_conv_nth)
  moreover have "length (chunksOf db b) > 0" using False by simp
  ultimately show ?thesis using False by (simp add: scanChunks_def last_map of_nat_diff)
qed (simp add: scanChunks_def)

definition append_result_ok ::
    "vdb \<Rightarrow> string \<Rightarrow> CreateChunkInput list \<Rightarrow> VanadisChunk list \<Rightarrow> vdb \<Rightarrow> bool" where
  "append_result_ok db b inputs appended db' =
     (length appended = length inputs \<and>
      map ckey (chunksOf db' b) = map ckey (chunksOf db b) @ map ckey appended \<and>
      map c_ChunkIndex appended = map (\<lambda>i. int (length (chunksOf db b)) + int i) [0..<length inputs] \<and>
      map c_Status appended = replicate (length inputs) ''pending'' \<and>
      (\<forall>b'. b' \<noteq> b \<longrightarrow> chunksOf db' b' = chunksOf db b'))"

lemma AppendChunks_Inr:
  assumes ok: "store_ok db" and r: "AppendChunks now bid inputs db = Inr (appended, db')"
  shows "store_ok db'" "append_result_ok db (trimSpace bid) inputs appended db'"
    "\<exists>rows. db' = db\<lparr>vchunks := vchunks db @ rows\<rparr> \<and>
       list_all (\<lambda>c. c_Status c = ''pending'' \<and> c_BuildID c = trimSpace bid \<and> trimSpace (c_ID c) = c_ID c) rows"
    "lockRunningBuildAndChunks (trimSpace bid) db = Inr (scanChunks (chunksOf db (trimSpace bid)))"
proof -
  let ?b = "trimSpace bid"
  from r obtain ex where lk: "lockRunningBuildAndChunks ?b db = Inr ex"
    by (auto simp: AppendChunks_def rbind_Inr Let_def split: option.splits)
  then have ex: "ex = scanChunks (chunksOf db ?b)" and b: "?b \<in> b_ID ` set (vbuilds db)"
    using lockRunning_Inr lockRunning_build by auto
  obtain repo where lp: "appendLoop now ?b repo inputs (int (length (chunksOf db ?b))) (map c_ID ex) db = Inr (appended, db')"
    using r lk nextIdx_length [OF ok b] by (auto simp: AppendChunks_def Let_def ex split: option.splits)
  have uq: "uniqueChunkID db" "uniqueIndex db" using store_okD(2,3) [OF ok] by (simp_all add: uniqueChunkID_def)
  note lp' = appendLoop_Inr [OF lp _ uq, simplified]
  obtain rows where rows: "db' = db\<lparr>vchunks := vchunks db @ rows\<rparr>" "map ckey rows = map ckey appended"
    "map c_Status rows = replicate (length inputs) ''pending''" "map c_Status appended = replicate (length inputs) ''pending''"
    "map c_ChunkIndex appended = map (\<lambda>i. int (length (chunksOf db ?b)) + int i) [0..<length inputs]"
    "list_all (\<lambda>c. c_BuildID c = ?b \<and> trimSpace (c_ID c) = c_ID c) appended" using lp'(1) by auto
  have len: "length appended = length inputs" "length rows = length inputs"
    using arg_cong [OF rows(4), of length] arg_cong [OF rows(3), of length] by simp_all
  have "map (fst \<circ> snd) (map ckey rows) = map (fst \<circ> snd) (map ckey appended)"
    "map (snd \<circ> snd) (map ckey rows) = map (snd \<circ> snd) (map ckey appended)" by (simp_all only: rows(2))
  then have bsids: "map c_BuildID rows = map c_BuildID appended" and ixs: "map c_ChunkIndex rows = map c_ChunkIndex appended"
    by (simp_all add: comp_def)
  have "map fst (map ckey rows) = map fst (map ckey appended)" by (simp only: rows(2))
  then have ids: "map c_ID rows = map c_ID appended" by (simp add: comp_def)
  have tr: "list_all (\<lambda>c. trimSpace (c_ID c) = c_ID c) rows"
    using rows(6) arg_cong [OF ids, of "list_all (\<lambda>i. trimSpace i = i)"] by (simp add: list.pred_map comp_def list_all_iff)
  have bs: "list_all (\<lambda>c. c_BuildID c = ?b) rows"
    using rows(6) arg_cong [OF bsids, of set] unfolding list_all_iff by (auto simp: image_iff)
  have idx: "map c_ChunkIndex rows = map (\<lambda>i. int (length (chunksOf db ?b)) + int i) [0..<length rows]"
    using ixs rows(5) len by simp
  note ch = chunksOf_appended [OF ok b rows(1) lp'(3) bs idx]
  show "store_ok db'" by (rule appended_ok [OF ok b rows(1) lp'(3,2) bs idx])
  show "append_result_ok db ?b inputs appended db'"
    using ch(1,3) rows(2,4,5) len by (simp add: append_result_ok_def)
  have "list_all (\<lambda>c. c_Status c = ''pending'') rows"
    using arg_cong [OF rows(3), of set] by (auto simp: list_all_iff set_replicate_conv_if split: if_splits)
  then show "\<exists>rows. db' = db\<lparr>vchunks := vchunks db @ rows\<rparr> \<and>
       list_all (\<lambda>c. c_Status c = ''pending'' \<and> c_BuildID c = ?b \<and> trimSpace (c_ID c) = c_ID c) rows"
    using rows(1) bs tr by (auto simp: list_all_iff)
  show "lockRunningBuildAndChunks ?b db = Inr (scanChunks (chunksOf db ?b))" using lk ex by simp
qed

lemma insertChunks_Inr:
  assumes "insertChunks now b cs db = Inr db'" "uniqueChunkID db" "uniqueIndex db"
  shows "\<exists>rows. db' = db\<lparr>vchunks := vchunks db @ rows\<rparr> \<and>
      map ckey rows = map (\<lambda>c. (trimSpace (c_ID c), b, c_ChunkIndex c)) cs \<and>
      map c_Status rows = map (\<lambda>c. firstNonEmpty [c_Status c, ''pending'']) cs"
    "uniqueChunkID db'" "uniqueIndex db'"
  using assms
proof (induction cs arbitrary: db)
  case Nil
  { case 1 then show ?case by (auto intro: exI [of _ "[]"]) next
    case 2 then show ?case by simp next
    case 3 then show ?case by simp }
next
  case (Cons c cs)
  have step: "\<exists>e db1. db1 = db\<lparr>vchunks := vchunks db @ [chunkRow now b e c]\<rparr> \<and> uniqueChunkID db1 \<and> uniqueIndex db1 \<and>
      insertChunks now b cs db1 = Inr db'" if "insertChunks now b (c # cs) db = Inr db'" for db
  proof -
    from that obtain db1 where i: "execInsertVanadisChunk now b c db = Inr db1" "insertChunks now b cs db1 = Inr db'"
      by (auto simp: rbind_Inr)
    then show ?thesis using execInsert_Inr [OF i(1)] by auto
  qed
  {
    case 1
    from step [OF "1"(1)] obtain e db1 where st: "db1 = db\<lparr>vchunks := vchunks db @ [chunkRow now b e c]\<rparr>"
      "uniqueChunkID db1" "uniqueIndex db1" "insertChunks now b cs db1 = Inr db'" by auto
    from Cons.IH(1) [OF st(4,2,3)] obtain rows where "db' = db1\<lparr>vchunks := vchunks db1 @ rows\<rparr>"
      "map ckey rows = map (\<lambda>c. (trimSpace (c_ID c), b, c_ChunkIndex c)) cs"
      "map c_Status rows = map (\<lambda>c. firstNonEmpty [c_Status c, ''pending'']) cs" by auto
    then show ?case using st(1) by (intro exI [of _ "chunkRow now b e c # rows"]) simp
  next
    case 2 then show ?case using step [OF "2"(1)] Cons.IH(2) by metis
  next
    case 3 then show ?case using step [OF "3"(1)] Cons.IH(3) by metis
  }
qed

section \<open>Advancing a build by a merged pull request\<close>

text \<open>The indices still to do once chunk \<^term>\<open>c\<close> is merged.\<close>

definition todoIdx :: "vdb \<Rightarrow> VanadisChunk \<Rightarrow> int set" where
  "todoIdx db c = c_ChunkIndex ` set (filter (\<lambda>d. c_BuildID d = c_BuildID c \<and> c_ID d \<noteq> c_ID c \<and>
     c_Status d \<noteq> ''merged'') (vchunks db))"

definition nextSpec :: "int set \<Rightarrow> int \<Rightarrow> int" where
  "nextSpec T cur = (if \<exists>i\<in>T. i > cur then Min {i\<in>T. i > cur} else if T \<noteq> {} then Min T else -1)"

definition advStatus :: "VanadisChunk \<Rightarrow> int \<Rightarrow> VanadisChunk \<Rightarrow> string" where
  "advStatus c n d = (if c_ID d = c_ID c then ''merged''
     else if c_BuildID d = c_BuildID c \<and> c_ChunkIndex d = n \<and> c_Status d = ''pending'' then ''running''
     else c_Status d)"

lemma sorted_filter_map: "sorted (map f xs) \<Longrightarrow> sorted (map f (filter P xs))"
  by (induction xs) auto

lemma hd_sorted_Min: "sorted xs \<Longrightarrow> xs \<noteq> [] \<Longrightarrow> hd xs = Min (set xs)"
  by (cases xs) (auto intro: Min_eqI [symmetric])

lemma unmergedIdx_scan:
  "unmergedIdx (scanVanadisChunkSummaries now rows i) =
    map c_ChunkIndex (filter (\<lambda>c. c_ID c \<noteq> i \<and> c_Status c \<noteq> ''merged'') rows)"
  by (induction rows) (auto simp: scanVanadisChunkSummaries_def)

lemma computeNext_todo:
  assumes ok: "store_ok db" and b: "c_BuildID c \<in> b_ID ` set (vbuilds db)"
  shows "computeNextChunkIndex (scanVanadisChunkSummaries now (chunksOf db (c_BuildID c)) (c_ID c)) (c_ChunkIndex c)
    = nextSpec (todoIdx db c) (c_ChunkIndex c)" (is "computeNextChunkIndex ?s _ = _")
proof -
  have ix: "map c_ChunkIndex (chunksOf db (c_BuildID c)) = map int [0..<length (chunksOf db (c_BuildID c))]"
    by (rule chunksOf_index [OF ok b])
  have "0 \<le> c_ChunkIndex d" if "d \<in> set (chunksOf db (c_BuildID c))" for d
    using arg_cong [OF ix, of set] that by force
  then have nn: "\<forall>x\<in>set ?s. 0 \<le> s_ChunkIndex x" by (auto simp: scanVanadisChunkSummaries_def)
  have T: "set (unmergedIdx ?s) = todoIdx db c" by (auto simp: unmergedIdx_scan todoIdx_def)
  have "sorted (map c_ChunkIndex (chunksOf db (c_BuildID c)))" unfolding ix by (simp add: sorted_iff_nth_mono)
  then have so: "sorted (unmergedIdx ?s)" unfolding unmergedIdx_scan by (rule sorted_filter_map)
  have "set (laterIdx (c_ChunkIndex c) ?s) = {i \<in> todoIdx db c. i > c_ChunkIndex c}"
    using T by (auto simp: laterIdx_def)
  moreover from this have "laterIdx (c_ChunkIndex c) ?s \<noteq> [] \<longleftrightarrow> (\<exists>i\<in>todoIdx db c. i > c_ChunkIndex c)"
    unfolding set_empty [symmetric] by auto
  moreover have "unmergedIdx ?s \<noteq> [] \<longleftrightarrow> todoIdx db c \<noteq> {}" unfolding T [symmetric] by simp
  ultimately show ?thesis
    using computeNextChunkIndex_eq [OF nn, of "c_ChunkIndex c"] hd_sorted_Min [OF so] T
    by (simp add: nextSpec_def)
qed

lemma nextSpec_nonneg:
  assumes "\<forall>i\<in>T. 0 \<le> i" "finite T"
  shows "0 \<le> nextSpec T cur \<longleftrightarrow> T \<noteq> {}"
proof -
  have "Min {i\<in>T. i > cur} \<in> T" if "\<exists>i\<in>T. i > cur"
  proof -
    have "Min {i\<in>T. i > cur} \<in> {i\<in>T. i > cur}" using that assms(2) by (intro Min_in) auto
    then show ?thesis by blast
  qed
  moreover have "T \<noteq> {} \<Longrightarrow> Min T \<in> T" using assms(2) by simp
  ultimately show ?thesis using assms(1) unfolding nextSpec_def by force
qed

lemma todoIdx_nonneg:
  assumes "store_ok db" "i \<in> todoIdx db c"
  shows "0 \<le> i"
proof -
  obtain d where d: "d \<in> set (vchunks db)" "i = c_ChunkIndex d" using assms(2) by (auto simp: todoIdx_def)
  then have "c_BuildID d \<in> b_ID ` set (vbuilds db)" using store_okD(4) [OF assms(1)] by blast
  then have "map c_ChunkIndex (chunksOf db (c_BuildID d)) = map int [0..<length (chunksOf db (c_BuildID d))]"
    using chunksOf_index [OF assms(1)] by blast
  from arg_cong [OF this, of set] d show ?thesis by force
qed

lemma store_ok_shape: "shape db' = shape db \<Longrightarrow> store_ok db' = store_ok db"
  by (simp add: store_ok_def)

lemma shape_builds: "shape db' = shape db \<Longrightarrow> b_ID ` set (vbuilds db') = b_ID ` set (vbuilds db)"
  unfolding shape_def by (metis list.set_map prod.inject)

lemma find_map_upd:
  "(\<And>x. P (g x) = P x) \<Longrightarrow> List.find P (map g xs) = map_option g (List.find P xs)"
  by (induction xs) auto

lemma findBuild_updBuilds:
  "(\<And>b. b_ID (f b) = b_ID b) \<Longrightarrow>
   findBuild (updBuilds Q f db) i = map_option (\<lambda>b. if Q b then f b else b) (findBuild db i)"
  unfolding findBuild_def vbuilds_updBuilds by (rule find_map_upd) simp

lemma findBuild_updChunks [simp]: "findBuild (updChunks Q f db) i = findBuild db i"
  by (simp add: findBuild_def)

definition mergeRow :: "int \<Rightarrow> VanadisChunk \<Rightarrow> vdb \<Rightarrow> vdb" where
  "mergeRow now c db = (if c_Status c \<noteq> ''merged''
     then updChunks (\<lambda>r. c_ID r = c_ID c) (\<lambda>r. r\<lparr>c_Status := ''merged'',
            c_CompletedAt := coalesceTime (c_CompletedAt r) now, c_UpdatedAt := now\<rparr>) db
     else db)"

lemma mergeRow_facts:
  assumes ok: "store_ok db" and c: "c \<in> set (vchunks db)"
  shows "shape (mergeRow now c db) = shape db" "vbuilds (mergeRow now c db) = vbuilds db"
    "todoIdx (mergeRow now c db) c = todoIdx db c"
    "map (\<lambda>d. (ckey d, c_Status d)) (vchunks (mergeRow now c db)) =
     map (\<lambda>d. (ckey d, if c_ID d = c_ID c then ''merged'' else c_Status d)) (vchunks db)"
proof -
  show "shape (mergeRow now c db) = shape db" by (simp add: mergeRow_def ckey_def)
  show "vbuilds (mergeRow now c db) = vbuilds db" by (simp add: mergeRow_def)
  show "map (\<lambda>d. (ckey d, c_Status d)) (vchunks (mergeRow now c db)) =
     map (\<lambda>d. (ckey d, if c_ID d = c_ID c then ''merged'' else c_Status d)) (vchunks db)"
    using chunk_by_id [OF store_okD(2) [OF ok] _ c]
    by (auto simp: mergeRow_def vchunks_updChunks ckey_def)
  show "todoIdx (mergeRow now c db) c = todoIdx db c"
    by (auto simp: mergeRow_def todoIdx_def vchunks_updChunks image_iff split: if_splits)
qed

lemma AdvanceChunkByPR_hit:
  assumes "normalizeRepo repo \<noteq> []" "pr > 0" "selectChunkByPR (normalizeRepo repo) pr db = Some c"
    "findBuild db (c_BuildID c) = Some b" "b_Status b \<noteq> ''cancelled''"
  shows "\<exists>res. AdvanceChunkByPR now repo pr db =
      queryAndAdvanceChunks now (c_BuildID c) (c_ID c) (c_Status c) (c_ChunkIndex c) res (mergeRow now c db) \<and>
      Matched res \<and> a_BuildStatus res = b_Status b \<and> a_BuildID res = c_BuildID c \<and> MergedChunkIndex res = c_ChunkIndex c"
  using assms by (auto simp: AdvanceChunkByPR_def mergeRow_def isTerminalBuildStatus_def Let_def)

lemma selectChunkByPR_in:
  "selectChunkByPR repo pr db = Some c \<Longrightarrow> c \<in> set (vchunks db) \<and> c_Repo c = repo \<and> c_PRNumber c = pr"
  unfolding selectChunkByPR_def by (auto dest: firstMax_in)

lemma queryAndAdvance_facts:
  assumes ok: "store_ok db" and b: "findBuild db (c_BuildID c) = Some b" and st: "a_BuildStatus res = b_Status b"
    and q: "queryAndAdvanceChunks now (c_BuildID c) (c_ID c) cst (c_ChunkIndex c) res db = (r, db')"
  shows "shape db' = shape db" "Matched r = Matched res" "Advanced r = (cst \<noteq> ''merged'')" "a_BuildID r = a_BuildID res"
    "MergedChunkIndex r = MergedChunkIndex res"
    "NextChunkIndex r = nextSpec (todoIdx db c) (c_ChunkIndex c)" "BuildCompleted r = (todoIdx db c = {})"
    "vchunks db' = map (\<lambda>d. if c_BuildID d = c_BuildID c \<and> c_ChunkIndex d = NextChunkIndex r \<and> c_Status d = ''pending''
       then d\<lparr>c_Status := ''running'', c_StartedAt := coalesceTime (c_StartedAt d) now, c_UpdatedAt := now\<rparr> else d) (vchunks db)"
    "map_option b_Status (findBuild db' (c_BuildID c)) = Some (if todoIdx db c = {} then ''completed''
       else if b_Status b = ''failed'' then ''running'' else b_Status b)"
    "i \<noteq> c_BuildID c \<Longrightarrow> findBuild db' i = findBuild db i"
proof -
  let ?n = "nextSpec (todoIdx db c) (c_ChunkIndex c)"
  let ?s = "scanVanadisChunkSummaries now (chunksOf db (c_BuildID c)) (c_ID c)"
  have bin: "c_BuildID c \<in> b_ID ` set (vbuilds db)" using findBuild_None [of db "c_BuildID c"] b by auto
  have fin: "finite (todoIdx db c)" by (simp add: todoIdx_def)
  have nn: "0 \<le> ?n \<longleftrightarrow> todoIdx db c \<noteq> {}"
    using nextSpec_nonneg [OF _ fin] todoIdx_nonneg [OF ok] by blast
  have q': "(r, db') = (if todoIdx db c \<noteq> {} then advanceToNextChunk now (c_BuildID c) ?n cst ?s res db
      else completeBuild now (c_BuildID c) cst ?s res db)"
    using q unfolding queryAndAdvanceChunks_def Let_def computeNext_todo [OF ok bin] nn by simp
  have idle: "d \<in> set (vchunks db) \<Longrightarrow> c_ChunkIndex d \<noteq> -1" for d
  proof -
    assume d: "d \<in> set (vchunks db)"
    then have "map c_ChunkIndex (chunksOf db (c_BuildID d)) = map int [0..<length (chunksOf db (c_BuildID d))]"
      using chunksOf_index [OF ok] store_okD(4) [OF ok] by blast
    from arg_cong [OF this, of set] d show ?thesis by force
  qed
  have n1: "todoIdx db c = {} \<Longrightarrow> ?n = -1" by (simp add: nextSpec_def)
  note defs = advanceToNextChunk_def completeBuild_def Let_def findBuild_updBuilds vchunks_updChunks
  show "shape db' = shape db" using q' by (auto simp: defs ckey_def split: if_splits)
  show "Matched r = Matched res" "Advanced r = (cst \<noteq> ''merged'')" "a_BuildID r = a_BuildID res"
    "MergedChunkIndex r = MergedChunkIndex res" "BuildCompleted r = (todoIdx db c = {})"
    using q' by (auto simp: defs split: if_splits)
  show nx: "NextChunkIndex r = ?n" using q' n1 by (auto simp: defs split: if_splits)
  show "map_option b_Status (findBuild db' (c_BuildID c)) = Some (if todoIdx db c = {} then ''completed''
       else if b_Status b = ''failed'' then ''running'' else b_Status b)"
    using q' st b findBuild_Some [OF b] by (auto simp: defs split: if_splits)
  show "vchunks db' = map (\<lambda>d. if c_BuildID d = c_BuildID c \<and> c_ChunkIndex d = NextChunkIndex r \<and> c_Status d = ''pending''
       then d\<lparr>c_Status := ''running'', c_StartedAt := coalesceTime (c_StartedAt d) now, c_UpdatedAt := now\<rparr> else d) (vchunks db)"
    using q' idle n1 unfolding nx by (auto simp: defs intro!: map_idI [symmetric] split: if_splits)
  show "findBuild db' i = findBuild db i" if "i \<noteq> c_BuildID c"
  proof -
    have "b_ID x = i" if "findBuild db i = Some x" for x using findBuild_Some [OF that] by simp
    then show ?thesis using q' that by (cases "findBuild db i") (auto simp: defs split: if_splits)
  qed
qed

text \<open>
  C9. When a pull request that belongs to a chunk of a build that is not cancelled is merged, the
  chunk becomes merged, the chunk to run next is the first unmerged one behind it (or the first
  unmerged one at all), it is started if it was pending, no other chunk changes its status, and the
  build is completed exactly when nothing is left to do.\<close>

theorem vanadis_advance:
  assumes ok: "store_ok db" and rp: "normalizeRepo repo \<noteq> []" "pr > 0"
    and sel: "selectChunkByPR (normalizeRepo repo) pr db = Some c"
    and b: "findBuild db (c_BuildID c) = Some b" "b_Status b \<noteq> ''cancelled''"
    and adv: "AdvanceChunkByPR now repo pr db = (r, db')"
  shows "Matched r \<and> Advanced r = (c_Status c \<noteq> ''merged'') \<and> MergedChunkIndex r = c_ChunkIndex c \<and>
    NextChunkIndex r = nextSpec (todoIdx db c) (c_ChunkIndex c) \<and> BuildCompleted r = (todoIdx db c = {}) \<and>
    map c_Status (vchunks db') = map (advStatus c (NextChunkIndex r)) (vchunks db) \<and>
    map_option b_Status (findBuild db' (c_BuildID c)) = Some (if todoIdx db c = {} then ''completed''
       else if b_Status b = ''failed'' then ''running'' else b_Status b) \<and>
    store_ok db'"
proof -
  obtain res where q: "queryAndAdvanceChunks now (c_BuildID c) (c_ID c) (c_Status c) (c_ChunkIndex c) res
      (mergeRow now c db) = (r, db')"
    and res: "Matched res" "a_BuildStatus res = b_Status b" "MergedChunkIndex res = c_ChunkIndex c"
    using AdvanceChunkByPR_hit [OF rp sel b] adv by metis
  have c: "c \<in> set (vchunks db)" using selectChunkByPR_in [OF sel] by simp
  note mr = mergeRow_facts [OF ok c, of now]
  have ok1: "store_ok (mergeRow now c db)" using ok mr(1) store_ok_shape by blast
  have b1: "findBuild (mergeRow now c db) (c_BuildID c) = Some b" using b(1) mr(2) by (simp add: findBuild_def)
  note f = queryAndAdvance_facts [OF ok1 b1 res(2) q]
  let ?h = "\<lambda>(k, st). if fst (snd k) = c_BuildID c \<and> snd (snd k) = NextChunkIndex r \<and> st = ''pending''
      then ''running'' else st"
  have "map c_Status (vchunks db') = map ?h (map (\<lambda>d. (ckey d, c_Status d)) (vchunks (mergeRow now c db)))"
    unfolding f(8) by simp
  also have "\<dots> = map ?h (map (\<lambda>d. (ckey d, if c_ID d = c_ID c then ''merged'' else c_Status d)) (vchunks db))"
    by (simp only: mr(4))
  also have "\<dots> = map (advStatus c (NextChunkIndex r)) (vchunks db)" by (simp add: advStatus_def)
  finally have "map c_Status (vchunks db') = map (advStatus c (NextChunkIndex r)) (vchunks db)" .
  then show ?thesis using f(2,3,5,6,7,9) res mr(3) ok1 store_ok_shape [OF f(1)] by simp
qed

text \<open>
  C12. Removing a chunk of a consistent store never runs into the unique constraint, and when it
  succeeds the removed chunk was pending, at least one chunk is left, the others keep their order
  and are renumbered 0, 1, ..., the answer agrees with the tables, and no other build is touched.\<close>

theorem vanadis_remove_compacts:
  assumes ok: "store_ok db"
  shows "RemoveChunk now bid ref db \<noteq> Inl (ErrMsg m) \<and>
    (\<forall>removed remaining db'. RemoveChunk now bid ref db = Inr ((removed, remaining), db') \<longrightarrow>
       store_ok db' \<and> remove_result_ok db (trimSpace bid) removed remaining db')"
proof (intro conjI allI impI)
  show "RemoveChunk now bid ref db \<noteq> Inl (ErrMsg m)"
    unfolding RemoveChunk_eq [OF ok]
    by (auto simp: Let_def rbind_def lockRunningBuildAndChunks_def split: option.splits)
next
  fix removed remaining db'
  assume r: "RemoveChunk now bid ref db = Inr ((removed, remaining), db')"
  let ?b = "trimSpace bid"
  let ?ex = "scanChunks (chunksOf db ?b)"
  let ?r = "resolveChunkRef ?ex (trimSpace ref)"
  define i where "i = nat ?r"
  obtain ex where lk0: "lockRunningBuildAndChunks ?b db = Inr ex"
    and body: "(if resolveChunkRef ex (trimSpace ref) < 0 then Inl ErrChunkNotFound
      else if c_Status (ex ! nat (resolveChunkRef ex (trimSpace ref))) \<noteq> ''pending'' \<or> length ex \<le> 1 then Inl ErrBuildConflict
      else Inr ((ex ! nat (resolveChunkRef ex (trimSpace ref)), take (nat (resolveChunkRef ex (trimSpace ref))) ex @
        map (\<lambda>e. e\<lparr>c_ChunkIndex := c_ChunkIndex e - 1\<rparr>) (drop (Suc (nat (resolveChunkRef ex (trimSpace ref)))) ex)),
        removedDB now ?b (nat (resolveChunkRef ex (trimSpace ref))) db)) = Inr ((removed, remaining), db')"
    using r unfolding RemoveChunk_eq [OF ok] Let_def by (cases "lockRunningBuildAndChunks ?b db") (simp_all split: if_splits)
  have ex: "ex = ?ex" using lk0 by (simp add: lockRunning_Inr)
  note lk = lk0 [unfolded ex] and body = body [unfolded ex]
  have i: "\<not> ?r < 0" and p: "c_Status (?ex ! i) = ''pending''" "1 < length (chunksOf db ?b)"
    and res: "removed = ?ex ! i" "db' = removedDB now ?b i db"
      "remaining = take i ?ex @ map (\<lambda>e. e\<lparr>c_ChunkIndex := c_ChunkIndex e - 1\<rparr>) (drop (Suc i) ?ex)"
    using body by (simp_all add: i_def split: if_splits)
  have b: "?b \<in> b_ID ` set (vbuilds db)" by (rule lockRunning_build [OF lk])
  have il: "i < length (chunksOf db ?b)" using resolveChunkRef_bound [OF i] by (simp add: i_def)
  show "store_ok db'" unfolding res by (rule removedDB_ok [OF ok b il])
  show "remove_result_ok db ?b removed remaining db'"
    unfolding res using removedDB_result [OF ok b il _ p(2)] p(1) il by simp
qed


section \<open>A concrete store\<close>

definition demoChunk :: "string \<Rightarrow> int \<Rightarrow> string \<Rightarrow> int \<Rightarrow> VanadisChunk" where
  "demoChunk i n st pr = \<lparr> c_ID = i, c_BuildID = ''b1'', c_ChunkIndex = n, c_Repo = ''azylman/aerial'',
     c_Title = ''t'', c_Instructions = ''do'', c_TargetFiles = [], c_TargetSymbols = [], c_Effort = ''low'',
     c_AcceptanceCriteria = [], c_Status = st, c_PRNumber = pr, c_StartedAt = 0, c_CompletedAt = 0,
     c_CreatedAt = 1, c_UpdatedAt = 1 \<rparr>"

definition demoDB :: vdb where
  "demoDB = \<lparr> vbuilds = [\<lparr> b_ID = ''b1'', b_ThreadID = ''42'', b_Tier = 2, b_Title = ''T'', b_Objective = ''O'',
      b_SharedContext = [], b_Status = ''running'', b_StatusMessageID = [], b_CreatedAt = 1, b_UpdatedAt = 1 \<rparr>],
     vchunks = [demoChunk ''x'' 0 ''pr_opened'' 7, demoChunk ''y'' 1 ''pending'' 0, demoChunk ''z'' 2 ''pending'' 0] \<rparr>"

lemma demoDB_ok: "store_ok demoDB"
  by code_simp

theorem vanadis_advance_witness:
  "NextChunkIndex (fst (AdvanceChunkByPR 9 ''aerial'' 7 demoDB)) = nextSpec (todoIdx demoDB (demoChunk ''x'' 0 ''pr_opened'' 7)) 0 \<and>
   map c_Status (vchunks (snd (AdvanceChunkByPR 9 ''aerial'' 7 demoDB))) = [''merged'', ''running'', ''pending'']"
proof -
  have h: "normalizeRepo ''aerial'' \<noteq> []" "(7::int) > 0"
    "selectChunkByPR (normalizeRepo ''aerial'') 7 demoDB = Some (demoChunk ''x'' 0 ''pr_opened'' 7)"
    "findBuild demoDB (c_BuildID (demoChunk ''x'' 0 ''pr_opened'' 7)) = Some (hd (vbuilds demoDB))"
    "b_Status (hd (vbuilds demoDB)) \<noteq> ''cancelled''"
    by code_simp+
  have n: "NextChunkIndex (fst (AdvanceChunkByPR 9 ''aerial'' 7 demoDB)) = 1" by code_simp
  have m: "map (advStatus (demoChunk ''x'' 0 ''pr_opened'' 7) 1) (vchunks demoDB) = [''merged'', ''running'', ''pending'']"
    by code_simp
  have i: "c_ChunkIndex (demoChunk ''x'' 0 ''pr_opened'' 7) = 0" by code_simp
  note w = vanadis_advance [OF demoDB_ok h surjective_pairing, of 9]
  show ?thesis using w unfolding n m i by blast
qed

theorem vanadis_remove_compacts_witness:
  "\<exists>db'. RemoveChunk 9 ''b1'' ''1'' demoDB = Inr ((demoChunk ''y'' 1 ''pending'' 0,
      [demoChunk ''x'' 0 ''pr_opened'' 7, demoChunk ''z'' 1 ''pending'' 0]), db') \<and> store_ok db'"
proof -
  have "(case RemoveChunk 9 ''b1'' ''1'' demoDB of Inl _ \<Rightarrow> None | Inr (r, _) \<Rightarrow> Some r) =
      Some (demoChunk ''y'' 1 ''pending'' 0, [demoChunk ''x'' 0 ''pr_opened'' 7, demoChunk ''z'' 1 ''pending'' 0])"
    by code_simp
  then obtain db' where "RemoveChunk 9 ''b1'' ''1'' demoDB = Inr ((demoChunk ''y'' 1 ''pending'' 0,
      [demoChunk ''x'' 0 ''pr_opened'' 7, demoChunk ''z'' 1 ''pending'' 0]), db')"
    by (auto split: sum.splits)
  then show ?thesis using vanadis_remove_compacts [OF demoDB_ok] by blast
qed

definition demoInput :: CreateChunkInput where
  "demoInput = \<lparr> ci_ID = [], ci_Repo = [], ci_Title = ''new'', ci_Instructions = ''do'', ci_TargetFiles = [],
     ci_TargetSymbols = [], ci_Effort = ''high'', ci_AcceptanceCriteria = [] \<rparr>"


end
