(* ===== verification/VanadisServer.thy ===== *)
theory VanadisServer
  imports VanadisStore
begin

text \<open>
  The HTTP handlers and the chunk worker of the build orchestrator
  (\<^verbatim>\<open>services/vanadis/main.go\<close>, \<^verbatim>\<open>services/vanadis/chunks.go\<close>) on top of the
  store. A handler maps the decoded request and the tables to the HTTP status it writes, the tables
  it leaves and the chunk jobs it asked River to run. A body that is not JSON is
  \<^const>\<open>None\<close>. What the other services answer is an argument: whether River accepted a job,
  whether Brain accepted a dispatch, the message id Brain returned for a widget, and the generated
  build id. A handler is one step: its store calls are composed in the order of the code and are
  not interleaved with those of another request.
\<close>

section \<open>Responses\<close>

type_synonym job = "string \<times> int"

record vout =
  o_status :: nat
  o_db :: vdb
  o_jobs :: "job list"

definition reply :: "nat \<Rightarrow> vdb \<Rightarrow> vout" where
  "reply st db = \<lparr> o_status = st, o_db = db, o_jobs = [] \<rparr>"

lemma reply_sel [simp]: "o_status (reply st db) = st" "o_db (reply st db) = db" "o_jobs (reply st db) = []"
  by (simp_all add: reply_def)

fun storeErrStatus :: "verr \<Rightarrow> nat" where
  "storeErrStatus ErrInvalidBuildInput = 400"
| "storeErrStatus ErrBuildNotFound = 404"
| "storeErrStatus ErrChunkNotFound = 404"
| "storeErrStatus ErrBuildConflict = 409"
| "storeErrStatus (ErrMsg m) = 500"

definition writeStoreErr :: "verr \<Rightarrow> vdb \<Rightarrow> vout" where
  "writeStoreErr e db = reply (storeErrStatus e) db"

text \<open>A store call whose error is only logged leaves the tables as they were.\<close>

definition tryStore :: "(verr, vdb) result \<Rightarrow> vdb \<Rightarrow> vdb" where
  "tryStore r db = (case r of Inl _ \<Rightarrow> db | Inr db' \<Rightarrow> db')"

section \<open>Creating a build\<close>

record CreateBuildRequest =
  cb_ID :: string
  cb_Repo :: string
  cb_ThreadID :: string
  cb_Tier :: int
  cb_Title :: string
  cb_Objective :: string
  cb_SharedContext :: string
  cb_Chunks :: "CreateChunkInput list"

text \<open>\<^verbatim>\<open>strings.LastIndex(clean, ":")\<close> and the slice behind it.\<close>

definition afterLastColon :: "string \<Rightarrow> string" where
  "afterLastColon s = rev (takeWhile (\<lambda>c. c \<noteq> CHR '':'') (rev s))"

definition normalizeDiscordThreadID :: "string \<Rightarrow> string" where
  "normalizeDiscordThreadID s =
     (let clean = trimSpace s;
          clean2 = (if CHR '':'' \<in> set clean then trimSpace (afterLastColon clean) else clean)
      in trimSpace (trimPrefix clean2 ''discord-''))"

definition isNumericSnowflake :: "string \<Rightarrow> bool" where
  "isNumericSnowflake s = (s \<noteq> [] \<and> list_all isDigit s)"

fun parseCreateBuildChunks ::
    "string \<Rightarrow> string \<Rightarrow> int \<Rightarrow> nat \<Rightarrow> CreateChunkInput list \<Rightarrow> (verr, VanadisChunk list) result" where
  "parseCreateBuildChunks buildID repo now i [] = Inr []"
| "parseCreateBuildChunks buildID repo now i (c # cs) =
     (let title = trimSpace (ci_Title c); instructions = trimSpace (ci_Instructions c);
          chunkID = firstNonEmpty [trimSpace (ci_ID c), chunkIDCandidate buildID (int i + 1)]
      in if title = [] \<or> instructions = [] then Inl (ErrMsg ''title and instructions are required'')
         else if \<not> isValidVanadisChunkID chunkID then Inl (ErrMsg ''invalid chunk id'')
         else rbind (normalizeChunkEffort (ci_Effort c)) (\<lambda>effort.
              rbind (parseCreateBuildChunks buildID repo now (Suc i) cs) (\<lambda>rest.
                Inr (\<lparr> c_ID = chunkID, c_BuildID = buildID, c_ChunkIndex = int i,
                       c_Repo = firstNonEmpty [normalizeRepo (ci_Repo c), repo], c_Title = title,
                       c_Instructions = instructions, c_TargetFiles = ci_TargetFiles c,
                       c_TargetSymbols = ci_TargetSymbols c, c_Effort = effort,
                       c_AcceptanceCriteria = ci_AcceptanceCriteria c,
                       c_Status = (if i = 0 then ''running'' else ''pending''), c_PRNumber = 0,
                       c_StartedAt = (if i = 0 then now else 0), c_CompletedAt = 0,
                       c_CreatedAt = now, c_UpdatedAt = now \<rparr> # rest))))"

definition newBuild :: "int \<Rightarrow> string \<Rightarrow> CreateBuildRequest \<Rightarrow> VanadisBuild" where
  "newBuild now buildID req =
     \<lparr> b_ID = buildID, b_ThreadID = normalizeDiscordThreadID (cb_ThreadID req),
       b_Tier = (if cb_Tier req \<le> 0 then 2 else cb_Tier req),
       b_Title = firstNonEmpty [trimSpace (cb_Title req), trimSpace (cb_Objective req)],
       b_Objective = trimSpace (cb_Objective req), b_SharedContext = trimSpace (cb_SharedContext req),
       b_Status = ''running'', b_StatusMessageID = [], b_CreatedAt = now, b_UpdatedAt = now \<rparr>"

definition handleCreateBuild :: "int \<Rightarrow> string \<Rightarrow> bool \<Rightarrow> CreateBuildRequest option \<Rightarrow> vdb \<Rightarrow> vout" where
  "handleCreateBuild now genID riverOk body db =
     (case body of
        None \<Rightarrow> reply 400 db
      | Some req \<Rightarrow>
          let repo0 = normalizeRepo (cb_Repo req);
              repo = (if repo0 = [] \<and> cb_Chunks req \<noteq> [] then normalizeRepo (ci_Repo (hd (cb_Chunks req))) else repo0);
              threadID = normalizeDiscordThreadID (cb_ThreadID req);
              objective = trimSpace (cb_Objective req)
          in if repo = [] \<or> \<not> isNumericSnowflake threadID \<or> objective = [] \<or> cb_Chunks req = [] then reply 400 db
             else
               let buildID = firstNonEmpty [trimSpace (cb_ID req), genID]
               in case parseCreateBuildChunks buildID repo now 0 (cb_Chunks req) of
                    Inl _ \<Rightarrow> reply 400 db
                  | Inr chunks \<Rightarrow> (case CreateBuild now (newBuild now buildID req) chunks db of
                      Inl _ \<Rightarrow> reply 500 db
                    | Inr db1 \<Rightarrow>
                        if \<not> riverOk then reply 500 (tryStore (UpdateBuildStatus now buildID ''failed'' db1) db1)
                        else \<lparr> o_status = 202, o_db = db1, o_jobs = [(buildID, 0)] \<rparr>))"

section \<open>Cancelling a build\<close>

definition isCancellableChunkStatus :: "string \<Rightarrow> bool" where
  "isCancellableChunkStatus st = (toLower (trimSpace st) \<in> {''pending'', ''running'', ''coding''})"

fun cancelBuildChunksAndPrompts :: "int \<Rightarrow> VanadisChunk list \<Rightarrow> vdb \<Rightarrow> vdb" where
  "cancelBuildChunksAndPrompts now [] db = db"
| "cancelBuildChunksAndPrompts now (c # cs) db =
     (if \<not> isCancellableChunkStatus (c_Status c) then cancelBuildChunksAndPrompts now cs db
      else cancelBuildChunksAndPrompts now cs (tryStore (UpdateChunkStatus now (c_ID c) ''cancelled'' db) db))"

definition handleBuildCancel :: "int \<Rightarrow> string \<Rightarrow> vdb \<Rightarrow> vout" where
  "handleBuildCancel now bid db =
     (let existing = GetBuild bid db
      in if (case existing of Inl _ \<Rightarrow> False | Inr (b, _) \<Rightarrow> b_Status b = ''completed'' \<or> b_Status b = ''failed'')
         then reply 409 db
         else case UpdateBuildStatus now bid ''cancelled'' db of
                Inl e \<Rightarrow> writeStoreErr e db
              | Inr db1 \<Rightarrow>
                  reply 200 (cancelBuildChunksAndPrompts now (case existing of Inl _ \<Rightarrow> [] | Inr (_, cs) \<Rightarrow> cs) db1))"

section \<open>Pull request events\<close>

definition handleAttachChunkPR :: "int \<Rightarrow> (string \<times> int \<times> string) option \<Rightarrow> vdb \<Rightarrow> vout" where
  "handleAttachChunkPR now body db =
     (case body of
        None \<Rightarrow> reply 400 db
      | Some (chunkID, prNumber, repo) \<Rightarrow>
          if trimSpace chunkID = [] \<or> prNumber \<le> 0 then reply 400 db
          else case AttachChunkPR now (trimSpace chunkID) prNumber repo db of
                 Inl e \<Rightarrow> writeStoreErr e db
               | Inr (_, db1) \<Rightarrow> reply 200 db1)"

definition handleAdvanceChunkPR :: "int \<Rightarrow> bool \<Rightarrow> (string \<times> int) option \<Rightarrow> vdb \<Rightarrow> vout" where
  "handleAdvanceChunkPR now riverOk body db =
     (case body of
        None \<Rightarrow> reply 400 db
      | Some (repo, prNumber) \<Rightarrow>
          if trimSpace repo = [] \<or> prNumber \<le> 0 then reply 400 db
          else
            let (res, db1) = AdvanceChunkByPR now (trimSpace repo) prNumber db
            in if Matched res \<and> \<not> BuildCompleted res \<and> NextChunkIndex res \<ge> 0 then
                 (if \<not> riverOk then reply 500 db1
                  else \<lparr> o_status = 200, o_db = db1, o_jobs = [(a_BuildID res, NextChunkIndex res)] \<rparr>)
               else reply 200 db1)"

definition handleFailChunkPR :: "int \<Rightarrow> (string \<times> int) option \<Rightarrow> vdb \<Rightarrow> vout" where
  "handleFailChunkPR now body db =
     (case body of
        None \<Rightarrow> reply 400 db
      | Some (repo, prNumber) \<Rightarrow>
          if trimSpace repo = [] \<or> prNumber \<le> 0 then reply 400 db
          else reply 200 (snd (FailChunkByPR now (trimSpace repo) prNumber db)))"

section \<open>The status widget\<close>

definition normalizeWidgetStatus :: "string \<Rightarrow> string" where
  "normalizeWidgetStatus dbStatus =
     (let s = toLower (trimSpace dbStatus) in if s \<in> {''ci_failed'', ''deploy_failed''} then ''failed'' else s)"

definition resolveVanadisChunkWidgetStatus :: "string \<Rightarrow> string \<Rightarrow> string" where
  "resolveVanadisChunkWidgetStatus chunkStatus prDBStatus =
     (let cStat = normalizeWidgetStatus chunkStatus; p = normalizeWidgetStatus prDBStatus
      in if p \<in> {''deployed'', ''deploying'', ''synced'', ''failed'', ''conflict'', ''merged''} then p
         else if p = ''closed'' then (if cStat = ''merged'' then ''merged'' else ''failed'')
         else if p \<in> {''open'', ''pr_opened''} then (if cStat = ''merged'' then ''merged'' else ''open'')
         else firstNonEmpty [cStat, ''open''])"

definition isVanadisChunkStreamingPhase :: "string \<Rightarrow> bool" where
  "isVanadisChunkStreamingPhase chunkStatus =
     (toLower (trimSpace chunkStatus) \<in> {''open'', ''pr_opened'', ''merged'', ''synced'', ''deploying''})"

record SyncChunkPRWidgetRequest =
  sy_BuildID :: string
  sy_Repo :: string
  sy_PRNumber :: int
  sy_PRStatus :: string
  sy_PRBanner :: string
  sy_ActiveStep :: string
  sy_PRFound :: bool

record StatusWidgetChunk =
  w_ID :: string
  w_Index :: int
  w_Repo :: string
  w_Title :: string
  w_Status :: string
  w_ActiveStep :: string
  w_PRNumber :: int
  w_StartedAt :: int
  w_CompletedAt :: int
  w_UpdatedAt :: int

record StatusWidgetRequest =
  wr_ChannelID :: string
  wr_MessageID :: string
  wr_ID :: string
  wr_Tier :: int
  wr_Title :: string
  wr_Status :: string
  wr_Banner :: string
  wr_Chunks :: "StatusWidgetChunk list"
  wr_StartedAt :: int

definition hasFailedWidgetChunk :: "StatusWidgetChunk list \<Rightarrow> bool" where
  "hasFailedWidgetChunk chunks = list_ex (\<lambda>c. w_Status c = ''failed'' \<or> w_Status c = ''conflict'') chunks"

definition resolveWidgetBanner :: "string \<Rightarrow> SyncChunkPRWidgetRequest \<Rightarrow> string" where
  "resolveWidgetBanner widgetStatus req =
     (if (widgetStatus = ''failed'' \<or> widgetStatus = ''conflict'') \<and> sy_PRFound req then sy_PRBanner req
      else if sy_PRNumber req = 0 \<and> trimSpace (sy_PRBanner req) \<noteq> [] then trimSpace (sy_PRBanner req)
      else [])"

text \<open>One round of the loop over the chunks: the widget chunk and the widget status so far.\<close>

definition widgetChunk ::
    "SyncChunkPRWidgetRequest \<Rightarrow> VanadisChunk \<Rightarrow> string \<Rightarrow> StatusWidgetChunk \<times> string" where
  "widgetChunk req c widgetStatus =
     (let hit = sy_PRNumber req > 0 \<and> c_PRNumber c = sy_PRNumber req \<and> sy_PRFound req;
          plain = normalizeWidgetStatus (c_Status c);
          chunkStatus = (if hit then resolveVanadisChunkWidgetStatus (c_Status c) (sy_PRStatus req)
                         else if plain = ''merged'' then ''deployed'' else plain);
          streaming = hit \<and> isVanadisChunkStreamingPhase chunkStatus
      in (\<lparr> w_ID = c_ID c, w_Index = c_ChunkIndex c, w_Repo = firstNonEmpty [c_Repo c, ''azylman/aerial''],
            w_Title = c_Title c, w_Status = chunkStatus,
            w_ActiveStep = (if streaming then trimSpace (sy_ActiveStep req) else []),
            w_PRNumber = c_PRNumber c, w_StartedAt = c_StartedAt c,
            w_CompletedAt = (if streaming then 0 else c_CompletedAt c), w_UpdatedAt = c_UpdatedAt c \<rparr>,
          if hit \<and> (chunkStatus = ''failed'' \<or> chunkStatus = ''conflict'') \<and> widgetStatus \<noteq> ''completed''
          then ''failed'' else widgetStatus))"

fun widgetLoop ::
    "SyncChunkPRWidgetRequest \<Rightarrow> VanadisChunk list \<Rightarrow> string \<Rightarrow> StatusWidgetChunk list \<times> string" where
  "widgetLoop req [] widgetStatus = ([], widgetStatus)"
| "widgetLoop req (c # cs) widgetStatus =
     (let (w, st) = widgetChunk req c widgetStatus; (ws, st') = widgetLoop req cs st in (w # ws, st'))"

definition buildSyncWidgetRequest ::
    "VanadisBuild \<Rightarrow> VanadisChunk list \<Rightarrow> SyncChunkPRWidgetRequest \<Rightarrow> StatusWidgetRequest" where
  "buildSyncWidgetRequest build chunks req =
     (let (wChunks, st) = widgetLoop req chunks (firstNonEmpty [normalizeWidgetStatus (b_Status build), ''running'']);
          widgetStatus = (if st = ''failed'' \<and> sy_PRFound req \<and> sy_PRNumber req > 0 \<and> \<not> hasFailedWidgetChunk wChunks
                          then ''running'' else st)
      in \<lparr> wr_ChannelID = b_ThreadID build, wr_MessageID = b_StatusMessageID build, wr_ID = b_ID build,
           wr_Tier = b_Tier build, wr_Title = firstNonEmpty [trimSpace (b_Title build), b_Objective build],
           wr_Status = widgetStatus, wr_Banner = resolveWidgetBanner widgetStatus req, wr_Chunks = wChunks,
           wr_StartedAt = b_CreatedAt build \<rparr>)"

fun recoverChunks ::
    "int \<Rightarrow> SyncChunkPRWidgetRequest \<Rightarrow> VanadisChunk list \<Rightarrow> vdb \<Rightarrow> VanadisChunk list \<times> vdb" where
  "recoverChunks now req [] db = ([], db)"
| "recoverChunks now req (c # cs) db =
     (if c_PRNumber c = sy_PRNumber req \<and> normalizeWidgetStatus (c_Status c) = ''failed'' \<and>
         isVanadisChunkStreamingPhase (resolveVanadisChunkWidgetStatus (c_Status c) (sy_PRStatus req))
      then (case UpdateChunkStatus now (c_ID c) ''pr_opened'' db of
              Inl _ \<Rightarrow> (let (cs', db') = recoverChunks now req cs db in (c # cs', db'))
            | Inr db1 \<Rightarrow> (let (cs', db') = recoverChunks now req cs db1
                          in (c\<lparr>c_Status := ''pr_opened'', c_CompletedAt := 0\<rparr> # cs', db')))
      else (let (cs', db') = recoverChunks now req cs db in (c # cs', db')))"

definition recoverBuildOnPRSync ::
    "int \<Rightarrow> SyncChunkPRWidgetRequest \<Rightarrow> VanadisBuild \<Rightarrow> VanadisChunk list \<Rightarrow> vdb
     \<Rightarrow> VanadisBuild \<times> VanadisChunk list \<times> vdb" where
  "recoverBuildOnPRSync now req build chunks db =
     (if \<not> sy_PRFound req \<or> sy_PRNumber req \<le> 0 then (build, chunks, db)
      else
        let (chunks', db1) = recoverChunks now req chunks db
        in if normalizeWidgetStatus (b_Status build) = ''failed'' \<and>
              \<not> list_ex (\<lambda>c. normalizeWidgetStatus (c_Status c) \<in> {''failed'', ''conflict''}) chunks'
           then (case UpdateBuildStatus now (b_ID build) ''running'' db1 of
                   Inl _ \<Rightarrow> (build, chunks', db1)
                 | Inr db2 \<Rightarrow> (build\<lparr>b_Status := ''running''\<rparr>, chunks', db2))
           else (build, chunks', db1))"

text \<open>
  The answer of Brain to the widget request: \<^const>\<open>None\<close> for a failed call, otherwise the
  message id it returned (empty when the answer has none).
\<close>

definition dispatchAndPersistWidget :: "int \<Rightarrow> string option \<Rightarrow> string \<Rightarrow> string \<Rightarrow> vdb \<Rightarrow> (verr, vdb) result" where
  "dispatchAndPersistWidget now answer buildID existingMsgID db =
     (case answer of
        None \<Rightarrow> Inl (ErrMsg ''dispatch vanadis widget'')
      | Some messageID \<Rightarrow>
          if messageID \<noteq> [] \<and> messageID \<noteq> existingMsgID
          then Inr (tryStore (UpdateBuildStatusMessageID now buildID messageID db) db) else Inr db)"

definition syncWidget ::
    "int \<Rightarrow> string option \<Rightarrow> SyncChunkPRWidgetRequest \<Rightarrow> VanadisBuild \<Rightarrow> VanadisChunk list \<Rightarrow> vdb \<Rightarrow> vout" where
  "syncWidget now answer req build chunks db =
     (let (build', chunks', db1) = recoverBuildOnPRSync now req build chunks db
      in case dispatchAndPersistWidget now answer (b_ID build') (b_StatusMessageID build') db1 of
           Inl _ \<Rightarrow> reply 500 db1
         | Inr db2 \<Rightarrow> reply 200 db2)"

definition handleSyncPRWidget :: "int \<Rightarrow> string option \<Rightarrow> SyncChunkPRWidgetRequest option \<Rightarrow> vdb \<Rightarrow> vout" where
  "handleSyncPRWidget now answer body db =
     (case body of
        None \<Rightarrow> reply 400 db
      | Some req \<Rightarrow>
          let buildID = trimSpace (sy_BuildID req); repo = trimSpace (sy_Repo req)
          in if buildID \<noteq> [] then
               (case GetBuild buildID db of
                  Inl ErrBuildNotFound \<Rightarrow> reply 200 db
                | Inl e \<Rightarrow> writeStoreErr e db
                | Inr (build, chunks) \<Rightarrow> syncWidget now answer req build chunks db)
             else if repo = [] \<or> sy_PRNumber req \<le> 0 then reply 400 db
             else
               let lookup = GetChunkByPR repo (sy_PRNumber req) db
               in if \<not> l_Matched lookup then reply 200 db
                  else case GetBuild (l_BuildID lookup) db of
                         Inl e \<Rightarrow> writeStoreErr e db
                       | Inr (build, chunks) \<Rightarrow> syncWidget now answer req build chunks db)"

section \<open>Editing handlers\<close>

definition handleUpdateBuild :: "int \<Rightarrow> string \<Rightarrow> UpdateBuildRequest option \<Rightarrow> vdb \<Rightarrow> vout" where
  "handleUpdateBuild now buildID body db =
     (case body of
        None \<Rightarrow> reply 400 db
      | Some req \<Rightarrow> (case UpdateBuild now buildID req db of
          Inl e \<Rightarrow> writeStoreErr e db | Inr (_, db1) \<Rightarrow> reply 200 db1))"

definition handleUpdateChunk :: "int \<Rightarrow> string \<Rightarrow> string \<Rightarrow> UpdateChunkRequest option \<Rightarrow> vdb \<Rightarrow> vout" where
  "handleUpdateChunk now buildID chunkRef body db =
     (case body of
        None \<Rightarrow> reply 400 db
      | Some req \<Rightarrow> (case UpdateChunk now buildID chunkRef req db of
          Inl e \<Rightarrow> writeStoreErr e db | Inr (_, db1) \<Rightarrow> reply 200 db1))"

definition handleAppendChunks :: "int \<Rightarrow> string \<Rightarrow> CreateChunkInput list option \<Rightarrow> vdb \<Rightarrow> vout" where
  "handleAppendChunks now buildID body db =
     (case body of
        None \<Rightarrow> reply 400 db
      | Some chunks \<Rightarrow> (case AppendChunks now buildID chunks db of
          Inl e \<Rightarrow> writeStoreErr e db | Inr (_, db1) \<Rightarrow> reply 200 db1))"

definition handleRemoveChunk :: "int \<Rightarrow> string \<Rightarrow> string \<Rightarrow> vdb \<Rightarrow> vout" where
  "handleRemoveChunk now buildID chunkRef db =
     (case RemoveChunk now buildID chunkRef db of
        Inl e \<Rightarrow> writeStoreErr e db | Inr (_, db1) \<Rightarrow> reply 200 db1)"

definition handleGetBuildChunk :: "string \<Rightarrow> string \<Rightarrow> vdb \<Rightarrow> vout" where
  "handleGetBuildChunk buildID chunkRef db =
     (case GetBuild buildID db of
        Inl e \<Rightarrow> writeStoreErr e db
      | Inr (_, chunks) \<Rightarrow> if resolveChunkRef chunks chunkRef < 0 then writeStoreErr ErrChunkNotFound db
                          else reply 200 db)"

section \<open>The chunk worker\<close>

text \<open>\<^verbatim>\<open>FormatChunkPrompt\<close> fails only for an empty slice or an index out of range.\<close>

definition formatPromptFails :: "VanadisChunk list \<Rightarrow> nat \<Rightarrow> bool" where
  "formatPromptFails chunks activeIdx = (chunks = [] \<or> activeIdx \<ge> length chunks)"

definition handleFinalDispatchFailure :: "int \<Rightarrow> string \<Rightarrow> string \<Rightarrow> vdb \<Rightarrow> vdb" where
  "handleFinalDispatchFailure now buildID chunkID db =
     (let db1 = tryStore (UpdateChunkStatus now chunkID ''failed'' db) db
      in tryStore (UpdateBuildStatus now buildID ''failed'' db1) db1)"

text \<open>The result says whether the job succeeded; a failed job is retried by River.\<close>

definition ProcessExecuteChunk :: "int \<Rightarrow> bool \<Rightarrow> string \<Rightarrow> int \<Rightarrow> bool \<Rightarrow> vdb \<Rightarrow> bool \<times> vdb" where
  "ProcessExecuteChunk now dispatchOk buildID chunkIndex isFinalAttempt db =
     (case GetBuild buildID db of
        Inl ErrBuildNotFound \<Rightarrow> (True, db)
      | Inl _ \<Rightarrow> (False, db)
      | Inr (build, chunks) \<Rightarrow>
          if b_Status build \<noteq> ''running'' then (True, db)
          else
            let activeIdx = indexWhere (\<lambda>c. c_ChunkIndex c = chunkIndex) chunks 0
            in if activeIdx < 0 then (False, db)
               else
                 let chunk = chunks ! nat activeIdx
                 in if c_Status chunk = ''pr_opened'' \<or> c_Status chunk = ''merged'' then (True, db)
                    else case UpdateChunkStatus now (c_ID chunk) ''running'' db of
                           Inl _ \<Rightarrow> (False, db)
                         | Inr db1 \<Rightarrow>
                             if formatPromptFails chunks (nat activeIdx) then (False, db1)
                             else if dispatchOk then (True, db1)
                             else if isFinalAttempt
                             then (False, handleFinalDispatchFailure now (b_ID build) (c_ID chunk) db1)
                             else (False, db1))"

section \<open>Routing below /builds/\<close>

text \<open>
  A request to \<^verbatim>\<open>/builds/...\<close>; its body is given decoded at each of the three types the
  handlers decode it to.
\<close>

record buildsRequest =
  rq_Method :: string
  rq_Path :: string
  rq_UpdateBuild :: "UpdateBuildRequest option"
  rq_UpdateChunk :: "UpdateChunkRequest option"
  rq_AppendChunks :: "CreateChunkInput list option"

definition handleBuildRoot :: "int \<Rightarrow> buildsRequest \<Rightarrow> string \<Rightarrow> vdb \<Rightarrow> vout" where
  "handleBuildRoot now r bid db =
     (if rq_Method r = ''GET'' then (case GetBuild bid db of Inl e \<Rightarrow> writeStoreErr e db | Inr _ \<Rightarrow> reply 200 db)
      else if rq_Method r = ''PATCH'' then handleUpdateBuild now bid (rq_UpdateBuild r) db
      else reply 405 db)"

definition handleBuildChunkRoutes :: "int \<Rightarrow> buildsRequest \<Rightarrow> string \<Rightarrow> string \<Rightarrow> vdb \<Rightarrow> vout" where
  "handleBuildChunkRoutes now r bid chunkRef db =
     (if rq_Method r = ''GET'' then handleGetBuildChunk bid chunkRef db
      else if rq_Method r = ''PATCH'' then handleUpdateChunk now bid chunkRef (rq_UpdateChunk r) db
      else if rq_Method r = ''DELETE'' then handleRemoveChunk now bid chunkRef db
      else reply 405 db)"

definition handleBuildByID :: "int \<Rightarrow> buildsRequest \<Rightarrow> vdb \<Rightarrow> vout" where
  "handleBuildByID now r db =
     (let raw = trimPrefix (trimPrefix (rq_Path r) ''/runs/'') ''/builds/'';
          hasTrailingSlash = hasSuffix raw ''/'';
          clean = trimSuffix raw ''/''
      in if clean = [] then reply 400 db
         else
           let parts = splitOn (CHR ''/'') clean; bid = trimSpace (parts ! 0)
           in if bid = [] then reply 400 db
              else if length parts = 1 then handleBuildRoot now r bid db
              else if length parts = 2 then
                (if parts ! 1 = ''cancel'' then
                   (if rq_Method r \<noteq> ''POST'' then reply 405 db else handleBuildCancel now bid db)
                 else if parts ! 1 = ''chunks'' then
                   (if hasTrailingSlash \<and> rq_Method r \<in> {''GET'', ''PATCH'', ''DELETE''} then reply 400 db
                    else if rq_Method r \<noteq> ''POST'' then reply 405 db
                    else handleAppendChunks now bid (rq_AppendChunks r) db)
                 else reply 404 db)
              else if length parts = 3 \<and> parts ! 1 = ''chunks'' then
                (let chunkRef = trimSpace (parts ! 2)
                 in if chunkRef = [] then reply 400 db else handleBuildChunkRoutes now r bid chunkRef db)
              else reply 404 db)"

section \<open>The server as a transition system\<close>

datatype vevent =
    EvCreate string bool "CreateBuildRequest option"
  | EvBuilds buildsRequest
  | EvAttach "(string \<times> int \<times> string) option"
  | EvAdvance bool "(string \<times> int) option"
  | EvFail "(string \<times> int) option"
  | EvSync "string option" "SyncChunkPRWidgetRequest option"
  | EvChunkJob bool string int bool

fun serve :: "int \<Rightarrow> vevent \<Rightarrow> vdb \<Rightarrow> vout" where
  "serve now (EvCreate genID riverOk body) db = handleCreateBuild now genID riverOk body db"
| "serve now (EvBuilds r) db = handleBuildByID now r db"
| "serve now (EvAttach body) db = handleAttachChunkPR now body db"
| "serve now (EvAdvance riverOk body) db = handleAdvanceChunkPR now riverOk body db"
| "serve now (EvFail body) db = handleFailChunkPR now body db"
| "serve now (EvSync answer body) db = handleSyncPRWidget now answer body db"
| "serve now (EvChunkJob dispatchOk bid i final) db =
     reply 0 (snd (ProcessExecuteChunk now dispatchOk bid i final db))"

inductive vstep :: "vdb \<Rightarrow> vdb \<Rightarrow> bool" where
  "vstep db (o_db (serve now ev db))"

definition vinit :: "vdb \<Rightarrow> bool" where
  "vinit db = (db = \<lparr> vbuilds = [], vchunks = [] \<rparr>)"

definition chunkStatuses :: "string set" where
  "chunkStatuses = {''pending'', ''running'', ''pr_opened'', ''merged'', ''failed'', ''cancelled''}"

definition buildStatuses :: "string set" where
  "buildStatuses = {''running'', ''completed'', ''failed'', ''cancelled''}"

text \<open>A completed build has only merged chunks.\<close>

definition completed_ok :: "vdb \<Rightarrow> bool" where
  "completed_ok db = list_all (\<lambda>b. b_Status b = ''completed'' \<longrightarrow>
     list_all (\<lambda>c. c_BuildID c = b_ID b \<longrightarrow> c_Status c = ''merged'') (vchunks db)) (vbuilds db)"

text \<open>Ids are stored without surrounding white space.\<close>

definition ids_trimmed :: "vdb \<Rightarrow> bool" where
  "ids_trimmed db = (list_all (\<lambda>b. trimSpace (b_ID b) = b_ID b) (vbuilds db) \<and>
     list_all (\<lambda>c. trimSpace (c_ID c) = c_ID c) (vchunks db))"

definition vinv :: "vdb \<Rightarrow> bool" where
  "vinv db = (store_ok db \<and> ids_trimmed db \<and> list_all (\<lambda>b. b_Status b \<in> buildStatuses) (vbuilds db) \<and>
     list_all (\<lambda>c. c_Status c \<in> chunkStatuses) (vchunks db) \<and> completed_ok db)"

lemma vinvD:
  assumes "vinv db"
  shows "store_ok db" "ids_trimmed db"
    "b \<in> set (vbuilds db) \<Longrightarrow> b_Status b \<in> buildStatuses" "c \<in> set (vchunks db) \<Longrightarrow> c_Status c \<in> chunkStatuses"
    "b \<in> set (vbuilds db) \<Longrightarrow> b_Status b = ''completed'' \<Longrightarrow> c \<in> set (vchunks db) \<Longrightarrow> c_BuildID c = b_ID b \<Longrightarrow>
      c_Status c = ''merged''"
    "b \<in> set (vbuilds db) \<Longrightarrow> trimSpace (b_ID b) = b_ID b" "c \<in> set (vchunks db) \<Longrightarrow> trimSpace (c_ID c) = c_ID c"
  using assms by (auto simp: vinv_def completed_ok_def ids_trimmed_def list_all_iff)

lemma ids_trimmed_shape: "shape db' = shape db \<Longrightarrow> ids_trimmed db' = ids_trimmed db"
proof -
  have "ids_trimmed db = (case shape db of (bs, ks) \<Rightarrow>
      list_all (\<lambda>i. trimSpace i = i) bs \<and> list_all (\<lambda>k. trimSpace (fst k) = fst k) ks)" for db
    by (simp add: ids_trimmed_def shape_def list.pred_map comp_def)
  then show "shape db' = shape db \<Longrightarrow> ids_trimmed db' = ids_trimmed db" by simp
qed

text \<open>No build with this id is completed.\<close>

definition openBuild :: "vdb \<Rightarrow> string \<Rightarrow> bool" where
  "openBuild db i = (\<forall>b\<in>set (vbuilds db). b_ID b = i \<longrightarrow> b_Status b \<noteq> ''completed'')"

lemma vinv_updChunks:
  assumes inv: "vinv db" and key: "\<And>c. ckey (f c) = ckey c"
    and st: "\<And>c. c \<in> set (vchunks db) \<Longrightarrow> P c \<Longrightarrow> c_Status (f c) \<in> chunkStatuses"
    and mg: "\<And>c. c \<in> set (vchunks db) \<Longrightarrow> P c \<Longrightarrow> c_Status c = ''merged'' \<Longrightarrow>
      c_Status (f c) = ''merged'' \<or> openBuild db (c_BuildID c)"
  shows "vinv (updChunks P f db)"
proof -
  have sh: "shape (updChunks P f db) = shape db" using key by simp
  have bid: "c_BuildID (f c) = c_BuildID c" for c using key [of c] by (simp add: ckey_def)
  have "completed_ok (updChunks P f db)"
    unfolding completed_ok_def list_all_iff vchunks_updChunks
    using vinvD(5) [OF inv] mg bid by (fastforce simp: openBuild_def)
  then show ?thesis
    using inv st store_ok_shape [OF sh] ids_trimmed_shape [OF sh]
    by (auto simp: vinv_def list_all_iff vchunks_updChunks)
qed

lemma vinv_updBuilds:
  assumes inv: "vinv db" and key: "\<And>b. b_ID (f b) = b_ID b"
    and st: "\<And>b. b \<in> set (vbuilds db) \<Longrightarrow> Q b \<Longrightarrow> b_Status (f b) \<in> buildStatuses"
    and cp: "\<And>b. b \<in> set (vbuilds db) \<Longrightarrow> Q b \<Longrightarrow> b_Status (f b) = ''completed'' \<Longrightarrow> b_Status b \<noteq> ''completed'' \<Longrightarrow>
      \<forall>c\<in>set (vchunks db). c_BuildID c = b_ID b \<longrightarrow> c_Status c = ''merged''"
  shows "vinv (updBuilds Q f db)"
proof -
  have sh: "shape (updBuilds Q f db) = shape db" using key by simp
  have "completed_ok (updBuilds Q f db)"
    unfolding completed_ok_def list_all_iff vbuilds_updBuilds
    using vinvD(5) [OF inv] cp key by fastforce
  then show ?thesis
    using inv st store_ok_shape [OF sh] ids_trimmed_shape [OF sh]
    by (auto simp: vinv_def list_all_iff vbuilds_updBuilds)
qed

section \<open>Each operation keeps the invariant\<close>

lemma UpdateChunkStatus_inv:
  assumes inv: "vinv db" and v: "trimSpace v \<in> chunkStatuses"
    and ok: "\<And>c. c \<in> set (vchunks db) \<Longrightarrow> c_ID c = trimSpace i \<Longrightarrow> c_Status c \<noteq> ''merged'' \<or> openBuild db (c_BuildID c)"
  shows "vinv (tryStore (UpdateChunkStatus now i v db) db)"
proof -
  have "vinv (updChunks (\<lambda>c. c_ID c = trimSpace i) (\<lambda>c. c\<lparr>c_Status := trimSpace v, c_StartedAt := s c,
      c_CompletedAt := e c, c_UpdatedAt := now\<rparr>) db)" for s e
    by (rule vinv_updChunks [OF inv]) (use v ok in \<open>auto simp: ckey_def\<close>)
  then show ?thesis using inv by (simp add: tryStore_def UpdateChunkStatus_def Let_def)
qed

lemma UpdateBuildStatus_inv:
  assumes inv: "vinv db" and v: "trimSpace v \<in> buildStatuses" "trimSpace v \<noteq> ''completed''"
  shows "vinv (tryStore (UpdateBuildStatus now i v db) db)"
proof -
  have "vinv (updBuilds (\<lambda>b. b_ID b = trimSpace i) (\<lambda>b. b\<lparr>b_Status := trimSpace v, b_UpdatedAt := now\<rparr>) db)"
    by (rule vinv_updBuilds [OF inv]) (use v in auto)
  then show ?thesis using inv by (simp add: tryStore_def UpdateBuildStatus_def Let_def)
qed

lemma literal_statuses [simp]:
  "trimSpace ''running'' \<in> chunkStatuses" "trimSpace ''failed'' \<in> chunkStatuses" "trimSpace ''pr_opened'' \<in> chunkStatuses"
  "trimSpace ''cancelled'' \<in> chunkStatuses" "trimSpace ''running'' \<in> buildStatuses" "trimSpace ''failed'' \<in> buildStatuses"
  "trimSpace ''cancelled'' \<in> buildStatuses" "trimSpace ''running'' \<noteq> ''completed''" "trimSpace ''failed'' \<noteq> ''completed''"
  "trimSpace ''cancelled'' \<noteq> ''completed''"
  by (simp_all add: trimSpace_literals chunkStatuses_def buildStatuses_def)

text \<open>The chunk with this id, if any, belongs to a build that is not completed.\<close>

definition idOpen :: "vdb \<Rightarrow> string \<Rightarrow> bool" where
  "idOpen db i = (\<forall>k\<in>set (map ckey (vchunks db)). fst k = i \<longrightarrow> openBuild db (fst (snd k)))"

lemma idOpen_frame:
  assumes "shape db' = shape db" "vbuilds db' = vbuilds db"
  shows "idOpen db' i = idOpen db i"
proof -
  have "map ckey (vchunks db') = map ckey (vchunks db)" using assms(1) by (simp add: shape_def)
  then show ?thesis unfolding idOpen_def openBuild_def assms(2) by metis
qed

lemma chunkStatus_frame:
  "shape (tryStore (UpdateChunkStatus now i v db) db) = shape db"
  "vbuilds (tryStore (UpdateChunkStatus now i v db) db) = vbuilds db"
  by (simp_all add: tryStore_def UpdateChunkStatus_def Let_def ckey_def)

lemma UpdateChunkStatus_open:
  "vinv db \<Longrightarrow> trimSpace v \<in> chunkStatuses \<Longrightarrow> idOpen db (trimSpace i) \<Longrightarrow>
   vinv (tryStore (UpdateChunkStatus now i v db) db)"
  by (rule UpdateChunkStatus_inv) (auto simp: idOpen_def)

lemma UpdateChunkStatus_Inr: "UpdateChunkStatus now i v db = Inr db' \<Longrightarrow> db' = tryStore (UpdateChunkStatus now i v db) db"
  by (simp add: tryStore_def)

lemma UpdateBuildStatus_Inr: "UpdateBuildStatus now i v db = Inr db' \<Longrightarrow> db' = tryStore (UpdateBuildStatus now i v db) db"
  by (simp add: tryStore_def)

lemma GetBuild_Inr:
  "GetBuild bid db = Inr (b, cs) \<Longrightarrow> \<exists>row. findBuild db (trimSpace bid) = Some row \<and> b = scanBuild row \<and>
     cs = scanChunks (chunksOf db (trimSpace bid))"
  by (auto simp: GetBuild_def Let_def split: if_splits option.splits)

lemma openBuild_find:
  assumes "store_ok db" "findBuild db i = Some b" "b_Status b \<noteq> ''completed''"
  shows "openBuild db i"
  using findBuild_Some [OF assms(2)] assms(3) store_okD(1) [OF assms(1)]
  unfolding openBuild_def by (auto simp: distinct_map inj_on_def)

lemma snapshot_idOpen:
  assumes inv: "vinv db" and c: "c \<in> set (scanChunks (chunksOf db i))"
    and ok: "openBuild db i \<or> c_Status c \<noteq> ''merged''"
  shows "idOpen db (trimSpace (c_ID c))"
proof -
  obtain r where r: "r \<in> set (vchunks db)" "c_BuildID r = i" "c_ID r = c_ID c" "c_Status r = c_Status c"
    using c by (auto simp: scanChunks_def)
  have "openBuild db i" using ok r vinvD(5) [OF inv _ _ r(1)] unfolding openBuild_def by metis
  moreover have "c_BuildID d = i" if "d \<in> set (vchunks db)" "c_ID d = c_ID c" for d
    using chunk_by_id [OF store_okD(2) [OF vinvD(1) [OF inv]] that(1) r(1)] that r by simp
  moreover have "trimSpace (c_ID c) = c_ID c" using r vinvD(7) [OF inv r(1)] by simp
  ultimately show ?thesis unfolding idOpen_def by simp
qed

lemma cancel_inv:
  "vinv db \<Longrightarrow> \<forall>c\<in>set cs. idOpen db (trimSpace (c_ID c)) \<Longrightarrow> vinv (cancelBuildChunksAndPrompts now cs db)"
proof (induction cs arbitrary: db)
  case (Cons c cs)
  let ?db = "tryStore (UpdateChunkStatus now (c_ID c) ''cancelled'' db) db"
  have "vinv ?db" using Cons.prems by (intro UpdateChunkStatus_open) auto
  moreover have "\<forall>d\<in>set cs. idOpen ?db (trimSpace (c_ID d))"
    using Cons.prems(2) idOpen_frame [OF chunkStatus_frame] by auto
  ultimately show ?case using Cons by simp
qed simp

lemma handleBuildCancel_inv:
  assumes inv: "vinv db"
  shows "vinv (o_db (handleBuildCancel now bid db))"
proof (cases "UpdateBuildStatus now bid ''cancelled'' db")
  case (Inl e)
  then show ?thesis using inv by (simp add: handleBuildCancel_def Let_def writeStoreErr_def)
next
  case (Inr db1)
  have i1: "vinv db1" using UpdateBuildStatus_inv [OF inv, of "''cancelled''"] UpdateBuildStatus_Inr [OF Inr] by simp
  have db1: "db1 = updBuilds (\<lambda>b. b_ID b = trimSpace bid) (\<lambda>b. b\<lparr>b_Status := ''cancelled'', b_UpdatedAt := now\<rparr>) db"
    using Inr by (simp add: UpdateBuildStatus_def Let_def trimSpace_literals split: if_splits)
  have op: "openBuild db1 (trimSpace bid)" by (auto simp: openBuild_def db1 vbuilds_updBuilds)
  have ch: "chunksOf db1 i = chunksOf db i" for i by (simp add: chunksOf_def db1)
  have "vinv (cancelBuildChunksAndPrompts now cs db1)" if "GetBuild bid db = Inr (b, cs)" for b cs
    using GetBuild_Inr [OF that] op snapshot_idOpen [OF i1] by (intro cancel_inv [OF i1]) (auto simp: ch [symmetric])
  then show ?thesis
    using Inr inv i1 by (auto simp: handleBuildCancel_def Let_def split: sum.splits)
qed

lemma not_merged_failed: "normalizeWidgetStatus ''merged'' \<noteq> ''failed''"
  by code_simp

lemma recoverChunks_inv:
  "vinv db \<Longrightarrow> \<forall>c\<in>set cs. normalizeWidgetStatus (c_Status c) = ''failed'' \<longrightarrow> idOpen db (trimSpace (c_ID c)) \<Longrightarrow>
   vinv (snd (recoverChunks now req cs db))"
proof (induction cs arbitrary: db)
  case (Cons c cs)
  let ?db = "tryStore (UpdateChunkStatus now (c_ID c) ''pr_opened'' db) db"
  have "vinv (snd (recoverChunks now req cs ?db))" if "normalizeWidgetStatus (c_Status c) = ''failed''"
  proof (rule Cons.IH)
    show "vinv ?db" using Cons.prems that by (intro UpdateChunkStatus_open) auto
    show "\<forall>d\<in>set cs. normalizeWidgetStatus (c_Status d) = ''failed'' \<longrightarrow> idOpen ?db (trimSpace (c_ID d))"
      using Cons.prems(2) idOpen_frame [OF chunkStatus_frame] by auto
  qed
  moreover have "vinv (snd (recoverChunks now req cs db))" using Cons by auto
  ultimately show ?case
    by (auto simp: tryStore_def Let_def split: sum.splits prod.splits)
qed simp

lemma recoverBuild_inv:
  assumes inv: "vinv db" and g: "GetBuild bid db = Inr (b, cs)"
  shows "vinv (snd (snd (recoverBuildOnPRSync now req b cs db)))"
proof -
  have cs: "cs = scanChunks (chunksOf db (trimSpace bid))" using GetBuild_Inr [OF g] by auto
  have "\<forall>c\<in>set cs. normalizeWidgetStatus (c_Status c) = ''failed'' \<longrightarrow> idOpen db (trimSpace (c_ID c))"
    unfolding cs using snapshot_idOpen [OF inv] not_merged_failed by metis
  then have rc: "vinv (snd (recoverChunks now req cs db))" by (rule recoverChunks_inv [OF inv])
  have "vinv (tryStore (UpdateBuildStatus now (b_ID b) ''running'' (snd (recoverChunks now req cs db)))
      (snd (recoverChunks now req cs db)))" by (rule UpdateBuildStatus_inv [OF rc]) simp_all
  then show ?thesis
    using inv rc by (auto simp: recoverBuildOnPRSync_def tryStore_def Let_def split: sum.splits prod.splits)
qed

lemma messageID_inv: "vinv db \<Longrightarrow> vinv (tryStore (UpdateBuildStatusMessageID now i m db) db)"
proof -
  assume inv: "vinv db"
  have "vinv (updBuilds (\<lambda>b. b_ID b = trimSpace i) (\<lambda>b. b\<lparr>b_StatusMessageID := trimSpace m, b_UpdatedAt := now\<rparr>) db)"
    by (rule vinv_updBuilds [OF inv]) (use vinvD(3) [OF inv] in auto)
  then show ?thesis using inv by (simp add: tryStore_def UpdateBuildStatusMessageID_def Let_def)
qed

lemma syncWidget_inv:
  assumes "vinv db" "GetBuild bid db = Inr (b, cs)"
  shows "vinv (o_db (syncWidget now answer req b cs db))"
proof -
  obtain b' cs' db1 where r: "recoverBuildOnPRSync now req b cs db = (b', cs', db1)" by (metis prod_cases3)
  have "vinv db1" using recoverBuild_inv [OF assms, of now req] by (simp add: r)
  then show ?thesis using messageID_inv [of db1]
    by (simp add: syncWidget_def r dispatchAndPersistWidget_def split: option.split)
qed

lemma handleSyncPRWidget_inv: "vinv db \<Longrightarrow> vinv (o_db (handleSyncPRWidget now answer body db))"
  using syncWidget_inv
  by (auto simp: handleSyncPRWidget_def writeStoreErr_def Let_def split: option.splits sum.splits verr.splits)

lemma ProcessExecuteChunk_inv:
  assumes inv: "vinv db"
  shows "vinv (snd (ProcessExecuteChunk now ok bid i final db))"
proof (cases "GetBuild bid db")
  case (Inl e)
  then show ?thesis using inv by (cases e) (simp_all add: ProcessExecuteChunk_def)
next
  case (Inr p)
  then obtain b cs where g: "GetBuild bid db = Inr (b, cs)" by (cases p) auto
  then obtain row where row: "findBuild db (trimSpace bid) = Some row" "b_Status b = b_Status row"
    and cs: "cs = scanChunks (chunksOf db (trimSpace bid))" using GetBuild_Inr by (fastforce simp: scanBuild_def)
  let ?n = "indexWhere (\<lambda>c. c_ChunkIndex c = i) cs 0"
  let ?c = "cs ! nat ?n"
  let ?db1 = "tryStore (UpdateChunkStatus now (c_ID ?c) ''running'' db) db"
  have *: "vinv ?db1" "vinv (handleFinalDispatchFailure now (b_ID b) (c_ID ?c) ?db1)"
    if "b_Status b = ''running''" "\<not> ?n < 0"
  proof -
    have "?c \<in> set cs" using indexWhere_bound [of _ cs 0] that(2) by simp
    moreover have st: "b_Status row = ''running''" using row(2) that(1) by simp
    have "openBuild db (trimSpace bid)" by (rule openBuild_find [OF vinvD(1) [OF inv] row(1)]) (simp add: st)
    ultimately have io: "idOpen db (trimSpace (c_ID ?c))" using snapshot_idOpen [OF inv] cs by blast
    show 1: "vinv ?db1" by (rule UpdateChunkStatus_open [OF inv _ io]) simp
    have "vinv (tryStore (UpdateChunkStatus now (c_ID ?c) ''failed'' ?db1) ?db1)"
      using io idOpen_frame [OF chunkStatus_frame] by (intro UpdateChunkStatus_open 1) simp_all
    then show "vinv (handleFinalDispatchFailure now (b_ID b) (c_ID ?c) ?db1)"
      unfolding handleFinalDispatchFailure_def Let_def by (rule UpdateBuildStatus_inv) simp_all
  qed
  show ?thesis
  proof (cases "UpdateChunkStatus now (c_ID ?c) ''running'' db")
    case (Inl e)
    then show ?thesis using g inv by (simp add: ProcessExecuteChunk_def Let_def)
  next
    case (Inr d)
    note * [folded UpdateChunkStatus_Inr [OF Inr]]
    then show ?thesis using Inr g inv by (simp add: ProcessExecuteChunk_def Let_def)
  qed
qed

lemma UpdateBuild_inv:
  assumes inv: "vinv db" and r: "UpdateBuild now bid req db = Inr (b, db')"
  shows "vinv db'"
proof -
  obtain t ob sc where "db' = updBuilds (\<lambda>r. b_ID r = trimSpace bid) (\<lambda>r. r\<lparr>b_Title := t, b_Objective := ob,
      b_SharedContext := sc, b_UpdatedAt := now\<rparr>) db"
    using r unfolding UpdateBuild_def Let_def by (auto split: if_splits option.splits)
  moreover have "vinv (updBuilds (\<lambda>r. b_ID r = trimSpace bid) (\<lambda>r. r\<lparr>b_Title := t, b_Objective := ob,
      b_SharedContext := sc, b_UpdatedAt := now\<rparr>) db)"
    by (rule vinv_updBuilds [OF inv]) (use vinvD(3) [OF inv] in auto)
  ultimately show ?thesis by simp
qed

lemma UpdateChunk_inv:
  assumes inv: "vinv db" and r: "UpdateChunk now bid ref req db = Inr (c, db')"
  shows "vinv db'"
proof -
  have "db' = updChunks (\<lambda>r. c_ID r = c_ID c) (\<lambda>r. r\<lparr>c_Repo := c_Repo c, c_Title := c_Title c,
      c_Instructions := c_Instructions c, c_TargetFiles := c_TargetFiles c,
      c_TargetSymbols := c_TargetSymbols c, c_Effort := c_Effort c, c_UpdatedAt := now\<rparr>) db"
    using r unfolding UpdateChunk_def Let_def by (auto simp: rbind_Inr split: if_splits)
  moreover have "vinv (updChunks (\<lambda>r. c_ID r = c_ID c) (\<lambda>r. r\<lparr>c_Repo := c_Repo c, c_Title := c_Title c,
      c_Instructions := c_Instructions c, c_TargetFiles := c_TargetFiles c,
      c_TargetSymbols := c_TargetSymbols c, c_Effort := c_Effort c, c_UpdatedAt := now\<rparr>) db)"
    by (rule vinv_updChunks [OF inv]) (use vinvD(4) [OF inv] in \<open>auto simp: ckey_def\<close>)
  ultimately show ?thesis by simp
qed

text \<open>Adding rows to a build that is not completed.\<close>

lemma vinv_add_chunks:
  assumes inv: "vinv db" and ok: "store_ok (db\<lparr>vchunks := vchunks db @ rows\<rparr>)" and op: "openBuild db b"
    and rows: "list_all (\<lambda>c. c_BuildID c = b \<and> trimSpace (c_ID c) = c_ID c \<and> c_Status c \<in> chunkStatuses) rows"
  shows "vinv (db\<lparr>vchunks := vchunks db @ rows\<rparr>)"
  using ok inv op rows unfolding vinv_def ids_trimmed_def completed_ok_def openBuild_def list_all_iff
  by (simp add: ball_Un) metis

lemma AppendChunks_inv:
  assumes inv: "vinv db" and r: "AppendChunks now bid inputs db = Inr (app, db')"
  shows "vinv db'"
proof -
  note a = AppendChunks_Inr [OF vinvD(1) [OF inv] r]
  obtain rows where rows: "db' = db\<lparr>vchunks := vchunks db @ rows\<rparr>"
    "list_all (\<lambda>c. c_Status c = ''pending'' \<and> c_BuildID c = trimSpace bid \<and> trimSpace (c_ID c) = c_ID c) rows"
    using a(3) by blast
  obtain row where row: "findBuild db (trimSpace bid) = Some row" "b_Status row = ''running''"
    using a(4) lockRunning_Inr by blast
  have "openBuild db (trimSpace bid)" by (rule openBuild_find [OF vinvD(1) [OF inv] row(1)]) (simp add: row(2))
  then show ?thesis unfolding rows(1)
    by (rule vinv_add_chunks [OF inv a(1) [unfolded rows(1)]])
       (use rows(2) in \<open>auto simp: list_all_iff chunkStatuses_def\<close>)
qed

lemma removedDB_inv:
  assumes inv: "vinv db" and ok: "store_ok (removedDB now b r db)"
  shows "vinv (removedDB now b r db)"
proof -
  have sub: "\<exists>d\<in>set (vchunks db). c_ID c = c_ID d \<and> c_BuildID c = c_BuildID d \<and> c_Status c = c_Status d"
    if "c \<in> set (vchunks (removedDB now b r db))" for c
  proof -
    from that obtain d where "d \<in> set (vchunks db)" "c = d \<or> c = decIdx now d"
      by (auto simp: removedDB_def vchunks_updChunks split: if_splits)
    then show ?thesis by (intro bexI [of _ d]) (auto simp: decIdx_def)
  qed
  have "completed_ok (removedDB now b r db)"
    unfolding completed_ok_def list_all_iff removedDB_builds using sub vinvD(5) [OF inv] by metis
  moreover have "ids_trimmed (removedDB now b r db)"
    unfolding ids_trimmed_def list_all_iff removedDB_builds using sub vinvD(6,7) [OF inv] by metis
  moreover have "\<forall>c\<in>set (vchunks (removedDB now b r db)). c_Status c \<in> chunkStatuses"
    using sub vinvD(4) [OF inv] by metis
  ultimately show ?thesis using ok vinvD(3) [OF inv] by (simp add: vinv_def list_all_iff)
qed

lemma RemoveChunk_inv:
  assumes inv: "vinv db" and r: "RemoveChunk now bid ref db = Inr (x, db')"
  shows "vinv db'"
proof -
  have ok: "store_ok db" by (rule vinvD(1) [OF inv])
  obtain i ex where lk: "lockRunningBuildAndChunks (trimSpace bid) db = Inr ex"
    and i: "\<not> resolveChunkRef ex (trimSpace ref) < 0" and db': "db' = removedDB now (trimSpace bid) i db"
    and ie: "i = nat (resolveChunkRef ex (trimSpace ref))"
    using r unfolding RemoveChunk_eq [OF ok] Let_def
    by (cases "lockRunningBuildAndChunks (trimSpace bid) db") (simp_all split: if_splits)
  have "i < length (chunksOf db (trimSpace bid))"
    using resolveChunkRef_bound [OF i] lk ie by (simp add: lockRunning_Inr)
  then show ?thesis
    unfolding db' by (intro removedDB_inv [OF inv] removedDB_ok [OF ok lockRunning_build [OF lk]])
qed

lemma AttachChunkPR_inv:
  assumes inv: "vinv db" and r: "AttachChunkPR now cid pr repo db = Inr (t, db')"
  shows "vinv db'"
proof -
  let ?P = "\<lambda>c. c_ID c = trimSpace cid \<and> findBuild db (c_BuildID c) \<noteq> None \<and>
      (normalizeRepo repo = [] \<or> c_Repo c = normalizeRepo repo)"
  have "db' = updChunks ?P (\<lambda>c. c\<lparr>c_PRNumber := pr,
      c_Status := (if c_Status c \<in> {''merged'', ''failed''} then c_Status c else ''pr_opened''),
      c_StartedAt := coalesceTime (c_StartedAt c) now, c_UpdatedAt := now\<rparr>) db"
    using r unfolding AttachChunkPR_def Let_def by (simp split: if_splits list.splits)
  moreover have "vinv (updChunks ?P (\<lambda>c. c\<lparr>c_PRNumber := pr,
      c_Status := (if c_Status c \<in> {''merged'', ''failed''} then c_Status c else ''pr_opened''),
      c_StartedAt := coalesceTime (c_StartedAt c) now, c_UpdatedAt := now\<rparr>) db)"
    by (rule vinv_updChunks [OF inv]) (auto simp: ckey_def chunkStatuses_def)
  ultimately show ?thesis by simp
qed

lemma FailChunkByPR_inv:
  assumes inv: "vinv db"
  shows "vinv (snd (FailChunkByPR now repo pr db))"
proof -
  have "vinv (updBuilds (\<lambda>b. b_ID b = i \<and> b_Status b = ''running'') (\<lambda>b. b\<lparr>b_Status := ''failed'', b_UpdatedAt := now\<rparr>)
      (updChunks (\<lambda>c. findBuild db (c_BuildID c) \<noteq> None \<and> c_Repo c = rp \<and> c_PRNumber c = pr \<and> c_Status c \<notin> {''merged'', ''failed''})
        (\<lambda>c. c\<lparr>c_Status := ''failed'', c_CompletedAt := coalesceTime (c_CompletedAt c) now, c_UpdatedAt := now\<rparr>) db))" for i rp
    by (rule vinv_updBuilds, rule vinv_updChunks [OF inv]) (auto simp: ckey_def chunkStatuses_def buildStatuses_def)
  then show ?thesis using inv by (simp add: FailChunkByPR_def Let_def split: list.split)
qed

lemma queryAndAdvance_snd:
  assumes ok: "store_ok db" and b: "c_BuildID c \<in> b_ID ` set (vbuilds db)"
  shows "snd (queryAndAdvanceChunks now (c_BuildID c) (c_ID c) cst (c_ChunkIndex c) res db) =
    (if todoIdx db c \<noteq> {} then
       updChunks (\<lambda>d. c_BuildID d = c_BuildID c \<and> c_ChunkIndex d = nextSpec (todoIdx db c) (c_ChunkIndex c) \<and> c_Status d = ''pending'')
         (\<lambda>c. c\<lparr>c_Status := ''running'', c_StartedAt := coalesceTime (c_StartedAt c) now, c_UpdatedAt := now\<rparr>)
         (if a_BuildStatus res = ''failed''
          then updBuilds (\<lambda>b. b_ID b = c_BuildID c) (\<lambda>b. b\<lparr>b_Status := ''running'', b_UpdatedAt := now\<rparr>) db else db)
     else if a_BuildStatus res \<noteq> ''completed''
     then updBuilds (\<lambda>b. b_ID b = c_BuildID c) (\<lambda>b. b\<lparr>b_Status := ''completed'', b_UpdatedAt := now\<rparr>) db else db)"
proof -
  have fin: "finite (todoIdx db c)" by (simp add: todoIdx_def)
  have nn: "0 \<le> nextSpec (todoIdx db c) (c_ChunkIndex c) \<longleftrightarrow> todoIdx db c \<noteq> {}"
    using nextSpec_nonneg [OF _ fin] todoIdx_nonneg [OF ok] by blast
  show ?thesis
    unfolding queryAndAdvanceChunks_def Let_def computeNext_todo [OF ok b] nn
    by (simp add: advanceToNextChunk_def completeBuild_def Let_def)
qed

lemma todo_empty_merged:
  assumes ok: "store_ok db" and c: "c \<in> set (vchunks db)" and e: "todoIdx (mergeRow now c db) c = {}"
    and d: "d \<in> set (vchunks (mergeRow now c db))" "c_BuildID d = c_BuildID c"
  shows "c_Status d = ''merged''"
proof (cases "c_ID d = c_ID c")
  case True
  have "(ckey d, c_Status d) \<in> set (map (\<lambda>d. (ckey d, c_Status d)) (vchunks (mergeRow now c db)))" using d(1) by auto
  then show ?thesis using True unfolding mergeRow_facts(4) [OF ok c] by (auto simp: ckey_def)
next
  case False
  then show ?thesis using e d by (auto simp: todoIdx_def filter_empty_conv)
qed

lemma mergeRow_inv: "vinv db \<Longrightarrow> vinv (mergeRow now c db)"
proof -
  assume inv: "vinv db"
  have "vinv (updChunks (\<lambda>r. c_ID r = c_ID c) (\<lambda>r. r\<lparr>c_Status := ''merged'',
            c_CompletedAt := coalesceTime (c_CompletedAt r) now, c_UpdatedAt := now\<rparr>) db)"
    by (rule vinv_updChunks [OF inv]) (auto simp: ckey_def chunkStatuses_def)
  then show ?thesis using inv by (simp add: mergeRow_def)
qed

lemma AdvanceChunkByPR_miss:
  assumes "\<not> (normalizeRepo repo \<noteq> [] \<and> pr > 0 \<and> (\<exists>c b. selectChunkByPR (normalizeRepo repo) pr db = Some c \<and>
    findBuild db (c_BuildID c) = Some b \<and> b_Status b \<noteq> ''cancelled''))"
  shows "snd (AdvanceChunkByPR now repo pr db) = db"
  using assms by (auto simp: AdvanceChunkByPR_def isTerminalBuildStatus_def Let_def split: option.splits)

lemma AdvanceChunkByPR_inv:
  assumes inv: "vinv db"
  shows "vinv (snd (AdvanceChunkByPR now repo pr db))"
proof (cases "normalizeRepo repo \<noteq> [] \<and> pr > 0 \<and> (\<exists>c b. selectChunkByPR (normalizeRepo repo) pr db = Some c \<and>
    findBuild db (c_BuildID c) = Some b \<and> b_Status b \<noteq> ''cancelled'')")
  case False
  show ?thesis unfolding AdvanceChunkByPR_miss [OF False] by (rule inv)
next
  case True
  then obtain c b where h: "normalizeRepo repo \<noteq> []" "pr > 0" "selectChunkByPR (normalizeRepo repo) pr db = Some c"
    "findBuild db (c_BuildID c) = Some b" "b_Status b \<noteq> ''cancelled''" by blast
  have c: "c \<in> set (vchunks db)" using selectChunkByPR_in [OF h(3)] by simp
  let ?db = "mergeRow now c db"
  have i1: "vinv ?db" by (rule mergeRow_inv [OF inv])
  obtain res where adv: "AdvanceChunkByPR now repo pr db =
      queryAndAdvanceChunks now (c_BuildID c) (c_ID c) (c_Status c) (c_ChunkIndex c) res ?db"
    using AdvanceChunkByPR_hit [OF h] by blast
  have bin: "c_BuildID c \<in> b_ID ` set (vbuilds ?db)"
    using findBuild_Some [OF h(4)] mergeRow_facts(2) [OF vinvD(1) [OF inv] c, of now] by force
  have cp: "vinv (updBuilds (\<lambda>b. b_ID b = c_BuildID c) (\<lambda>b. b\<lparr>b_Status := ''completed'', b_UpdatedAt := now\<rparr>) ?db)"
    if "todoIdx ?db c = {}"
    using todo_empty_merged [OF vinvD(1) [OF inv] c that]
    by (intro vinv_updBuilds [OF i1]) (auto simp: buildStatuses_def)
  have rn: "vinv (updBuilds (\<lambda>b. b_ID b = c_BuildID c) (\<lambda>b. b\<lparr>b_Status := ''running'', b_UpdatedAt := now\<rparr>) ?db)"
    by (rule vinv_updBuilds [OF i1]) (auto simp: buildStatuses_def)
  have st: "vinv (updChunks (\<lambda>d. c_BuildID d = bi \<and> c_ChunkIndex d = n \<and> c_Status d = ''pending'')
      (\<lambda>c. c\<lparr>c_Status := ''running'', c_StartedAt := coalesceTime (c_StartedAt c) now, c_UpdatedAt := now\<rparr>) x)"
    if "vinv x" for x bi n
    by (rule vinv_updChunks [OF that]) (auto simp: ckey_def chunkStatuses_def)
  show ?thesis
    unfolding adv queryAndAdvance_snd [OF vinvD(1) [OF i1] bin] using i1 cp rn st by simp
qed

lemma parse_index:
  "parseCreateBuildChunks b repo now i cs = Inr chunks \<Longrightarrow>
   map c_ChunkIndex chunks = map (\<lambda>k. int i + int k) [0..<length chunks] \<and>
   list_all (\<lambda>c. c_Status c \<in> {''running'', ''pending''}) chunks"
proof (induction cs arbitrary: i chunks)
  case (Cons c cs)
  from Cons.prems obtain r rest where "chunks = r # rest" "c_ChunkIndex r = int i" "c_Status r \<in> {''running'', ''pending''}"
    and p: "parseCreateBuildChunks b repo now (Suc i) cs = Inr rest"
    by (auto simp: Let_def rbind_Inr split: if_splits)
  moreover have "map (\<lambda>k. int i + int k) [0..<Suc (length rest)] = int i # map (\<lambda>k. int (Suc i) + int k) [0..<length rest]"
    by (simp add: upt_conv_Cons map_Suc_upt [symmetric] comp_def del: upt_Suc)
  ultimately show ?case using Cons.IH [OF p] by (simp del: upt_Suc)
qed simp

lemma add_build_inv:
  assumes inv: "vinv db" and new: "findBuild db (b_ID row) = None" and t: "trimSpace (b_ID row) = b_ID row"
    and st: "b_Status row \<in> buildStatuses" "b_Status row \<noteq> ''completed''"
  shows "vinv (db\<lparr>vbuilds := vbuilds db @ [row]\<rparr>)" "chunksOf db (b_ID row) = []"
    "openBuild (db\<lparr>vbuilds := vbuilds db @ [row]\<rparr>) (b_ID row)"
proof -
  have ok: "store_ok db" by (rule vinvD(1) [OF inv])
  have nin: "b_ID row \<notin> b_ID ` set (vbuilds db)" using new findBuild_None by blast
  have none: "c_BuildID c \<noteq> b_ID row" if "c \<in> set (vchunks db)" for c using store_okD(4) [OF ok that] nin by auto
  then show e: "chunksOf db (b_ID row) = []" by (auto simp: chunksOf_def filter_empty_conv)
  have "store_ok (db\<lparr>vbuilds := vbuilds db @ [row]\<rparr>)"
  proof (rule store_okI)
    show "map c_ChunkIndex (chunksOf (db\<lparr>vbuilds := vbuilds db @ [row]\<rparr>) b) =
        map int [0..<length (chunksOf (db\<lparr>vbuilds := vbuilds db @ [row]\<rparr>) b)]"
      if "b \<in> b_ID ` set (vbuilds (db\<lparr>vbuilds := vbuilds db @ [row]\<rparr>))" for b
    proof -
      have "chunksOf (db\<lparr>vbuilds := vbuilds db @ [row]\<rparr>) b = chunksOf db b" by (simp add: chunksOf_def)
      then show ?thesis using that e chunksOf_index [OF ok, of b] by auto
    qed
  qed (use store_okD [OF ok] nin in \<open>auto simp: uniqueIndex_def\<close>)
  then show "vinv (db\<lparr>vbuilds := vbuilds db @ [row]\<rparr>)"
    using inv t st none by (auto simp: vinv_def ids_trimmed_def completed_ok_def list_all_iff)
  show "openBuild (db\<lparr>vbuilds := vbuilds db @ [row]\<rparr>) (b_ID row)"
    using nin st(2) by (auto simp: openBuild_def) (metis imageI)
qed

lemma firstNonEmpty_trimmed [simp]: "trimSpace (firstNonEmpty vs) = firstNonEmpty vs"
  by (induction vs) simp_all

lemma CreateBuild_inv:
  assumes inv: "vinv db" and r: "CreateBuild now build chunks db = Inr db'" and st: "b_Status build = ''running''"
    and idx: "map c_ChunkIndex chunks = map int [0..<length chunks]"
    and cst: "list_all (\<lambda>c. c_Status c \<in> {''running'', ''pending''}) chunks"
  shows "vinv db'"
proof -
  let ?b = "trimSpace (b_ID build)"
  define row where "row = buildRow now build"
  have row: "b_ID row = ?b" "b_Status row = ''running''" by (simp_all add: row_def buildRow_def st trimSpace_literals)
  have new: "findBuild db ?b = None"
    and ins: "insertChunks now ?b chunks (db\<lparr>vbuilds := vbuilds db @ [row]\<rparr>) = Inr db'"
    using r unfolding CreateBuild_def Let_def row_def [symmetric] by (simp_all split: option.splits if_splits)
  let ?db1 = "db\<lparr>vbuilds := vbuilds db @ [row]\<rparr>"
  have ab: "vinv ?db1" "chunksOf db ?b = []" "openBuild ?db1 ?b"
    using add_build_inv [OF inv, of row] new row by (simp_all add: buildStatuses_def)
  note ok1 = vinvD(1) [OF ab(1)]
  have uq: "uniqueChunkID ?db1" "uniqueIndex ?db1" using store_okD(2,3) [OF ok1] by (simp_all add: uniqueChunkID_def)
  note ic = insertChunks_Inr [OF ins uq]
  obtain rows where rows: "db' = ?db1\<lparr>vchunks := vchunks ?db1 @ rows\<rparr>"
    "map ckey rows = map (\<lambda>c. (trimSpace (c_ID c), ?b, c_ChunkIndex c)) chunks"
    "map c_Status rows = map (\<lambda>c. firstNonEmpty [c_Status c, ''pending'']) chunks" using ic(1) by blast
  have len: "length rows = length chunks" using arg_cong [OF rows(2), of length] by simp
  have "map (snd \<circ> snd) (map ckey rows) = map c_ChunkIndex chunks" unfolding rows(2) by simp
  then have "map c_ChunkIndex rows = map int [0..<length rows]" using idx len by (simp add: comp_def)
  moreover have c0: "chunksOf ?db1 ?b = []" using ab(2) by (simp add: chunksOf_def)
  ultimately have ix: "map c_ChunkIndex rows = map (\<lambda>i. int (length (chunksOf ?db1 ?b)) + int i) [0..<length rows]" by simp
  have key: "c_BuildID c = ?b \<and> trimSpace (c_ID c) = c_ID c" if "c \<in> set rows" for c
  proof -
    have "ckey c \<in> set (map ckey rows)" using that by simp
    then show ?thesis unfolding rows(2) by (auto simp: ckey_def)
  qed
  have "c_Status c \<in> chunkStatuses" if "c \<in> set rows" for c
  proof -
    have "c_Status c \<in> set (map c_Status rows)" using that by simp
    then show ?thesis unfolding rows(3) using cst by (auto simp: list_all_iff trimSpace_literals chunkStatuses_def)
  qed
  then have al: "list_all (\<lambda>c. c_BuildID c = ?b \<and> trimSpace (c_ID c) = c_ID c \<and> c_Status c \<in> chunkStatuses) rows"
    using key by (simp add: list_all_iff)
  have bin: "?b \<in> b_ID ` set (vbuilds ?db1)" using row(1) by auto
  have "store_ok db'"
    by (rule appended_ok [OF ok1 bin rows(1) ic(3,2) _ ix]) (use key in \<open>simp add: list_all_iff\<close>)
  then show ?thesis unfolding rows(1) by (rule vinv_add_chunks [OF ab(1) _ ab(3) al])
qed

lemma handleCreateBuild_inv:
  assumes inv: "vinv db"
  shows "vinv (o_db (handleCreateBuild now genID riverOk body db))"
proof -
  have "vinv db1" "vinv (tryStore (UpdateBuildStatus now i ''failed'' db1) db1)"
    if "CreateBuild now (newBuild now j req) chunks db = Inr db1"
      "parseCreateBuildChunks bid repo now 0 cs = Inr chunks" for j req chunks db1 bid repo cs i
  proof -
    show 1: "vinv db1" using parse_index [OF that(2)]
      by (intro CreateBuild_inv [OF inv that(1)]) (simp_all add: newBuild_def)
    show "vinv (tryStore (UpdateBuildStatus now i ''failed'' db1) db1)" by (rule UpdateBuildStatus_inv [OF 1]) simp_all
  qed
  then show ?thesis
    using inv unfolding handleCreateBuild_def Let_def
    by (simp del: firstNonEmpty.simps split: option.split sum.split)
qed

lemma handlers_inv:
  assumes inv: "vinv db"
  shows "vinv (o_db (handleUpdateBuild now bid ub db))" "vinv (o_db (handleUpdateChunk now bid ref uc db))"
    "vinv (o_db (handleAppendChunks now bid ac db))" "vinv (o_db (handleRemoveChunk now bid ref db))"
    "vinv (o_db (handleGetBuildChunk bid ref db))" "vinv (o_db (handleAttachChunkPR now at db))"
    "vinv (o_db (handleAdvanceChunkPR now riverOk pr db))" "vinv (o_db (handleFailChunkPR now pr db))"
proof -
  note d = writeStoreErr_def Let_def
  show "vinv (o_db (handleUpdateBuild now bid ub db))"
    using inv UpdateBuild_inv [OF inv] by (auto simp: handleUpdateBuild_def d split: option.split sum.split)
  show "vinv (o_db (handleUpdateChunk now bid ref uc db))"
    using inv UpdateChunk_inv [OF inv] by (auto simp: handleUpdateChunk_def d split: option.split sum.split)
  show "vinv (o_db (handleAppendChunks now bid ac db))"
    using inv AppendChunks_inv [OF inv] by (auto simp: handleAppendChunks_def d split: option.split sum.split)
  show "vinv (o_db (handleRemoveChunk now bid ref db))"
    using inv RemoveChunk_inv [OF inv] by (auto simp: handleRemoveChunk_def d split: sum.split)
  show "vinv (o_db (handleGetBuildChunk bid ref db))"
    using inv by (auto simp: handleGetBuildChunk_def d split: sum.split)
  show "vinv (o_db (handleAttachChunkPR now at db))"
    using inv AttachChunkPR_inv [OF inv] by (auto simp: handleAttachChunkPR_def d split: option.split sum.split)
  show "vinv (o_db (handleAdvanceChunkPR now riverOk pr db))"
    using inv AdvanceChunkByPR_inv [OF inv]
    by (auto simp: handleAdvanceChunkPR_def d split: option.split prod.split) (metis snd_conv)+
  show "vinv (o_db (handleFailChunkPR now pr db))"
    using inv FailChunkByPR_inv [OF inv] by (auto simp: handleFailChunkPR_def d split: option.split prod.split)
qed

lemma handleBuildByID_inv: "vinv db \<Longrightarrow> vinv (o_db (handleBuildByID now r db))"
  using handlers_inv handleBuildCancel_inv
  by (auto simp: handleBuildByID_def handleBuildRoot_def handleBuildChunkRoutes_def Let_def writeStoreErr_def split: sum.split)

lemma serve_inv: "vinv db \<Longrightarrow> vinv (o_db (serve now ev db))"
  by (cases ev) (simp_all add: handleCreateBuild_inv handleBuildByID_inv handlers_inv handleSyncPRWidget_inv
      ProcessExecuteChunk_inv)

interpretation vs: inductive_invariant vinit vstep vinv
proof unfold_locales
  show "vinit s \<Longrightarrow> vinv s" for s
    by (simp add: vinit_def vinv_def store_ok_def shape_def shape_ok_def ids_trimmed_def completed_ok_def)
  show "vstep s t \<Longrightarrow> vinv s \<Longrightarrow> vinv t" for s t
    by (auto elim!: vstep.cases intro: serve_inv)
qed

section \<open>A cancelled build stays cancelled\<close>

definition bstat :: "vdb \<Rightarrow> string \<Rightarrow> string option" where
  "bstat db i = map_option b_Status (findBuild db i)"

definition keepsC :: "vdb \<Rightarrow> vdb \<Rightarrow> bool" where
  "keepsC db db' = (\<forall>i. bstat db i = Some ''cancelled'' \<longrightarrow> bstat db' i = Some ''cancelled'')"

lemma keepsC_refl [simp]: "keepsC db db"
  by (simp add: keepsC_def)

lemma keepsC_trans: "keepsC a b \<Longrightarrow> keepsC b c \<Longrightarrow> keepsC a c"
  by (simp add: keepsC_def)

lemma bstat_same: "vbuilds db' = vbuilds db \<Longrightarrow> bstat db' i = bstat db i"
  by (simp add: bstat_def findBuild_def)

lemma keepsC_same:
  assumes "vbuilds db' = vbuilds db"
  shows "keepsC db db'"
  unfolding keepsC_def bstat_same [OF assms] by simp

lemma keepsC_updBuilds:
  assumes "\<And>b. b_ID (f b) = b_ID b"
    and "\<And>b i. findBuild db i = Some b \<Longrightarrow> Q b \<Longrightarrow> b_Status b = ''cancelled'' \<Longrightarrow> b_Status (f b) = ''cancelled''"
  shows "keepsC db (updBuilds Q f db)"
  unfolding keepsC_def
proof (intro allI impI)
  fix i assume "bstat db i = Some ''cancelled''"
  then obtain b where "findBuild db i = Some b" "b_Status b = ''cancelled''" by (auto simp: bstat_def)
  then show "bstat (updBuilds Q f db) i = Some ''cancelled''"
    using assms by (simp add: bstat_def findBuild_updBuilds)
qed

lemma keepsC_UpdateBuildStatus:
  assumes "trimSpace v = ''cancelled'' \<or> bstat db (trimSpace i) \<noteq> Some ''cancelled''"
  shows "keepsC db (tryStore (UpdateBuildStatus now i v db) db)"
proof -
  have "keepsC db (updBuilds (\<lambda>b. b_ID b = trimSpace i) (\<lambda>b. b\<lparr>b_Status := trimSpace v, b_UpdatedAt := now\<rparr>) db)"
    using assms findBuild_Some by (intro keepsC_updBuilds) (auto simp: bstat_def)
  then show ?thesis by (simp add: tryStore_def UpdateBuildStatus_def Let_def)
qed

lemma keepsC_UpdateChunkStatus: "keepsC db (tryStore (UpdateChunkStatus now i v db) db)"
  by (rule keepsC_same) (rule chunkStatus_frame)

lemma cancel_builds: "vbuilds (cancelBuildChunksAndPrompts now cs db) = vbuilds db"
  by (induction cs arbitrary: db) (simp_all add: chunkStatus_frame(2))

lemma handleBuildCancel_keepsC: "keepsC db (o_db (handleBuildCancel now bid db))"
proof (cases "UpdateBuildStatus now bid ''cancelled'' db")
  case (Inl e)
  then show ?thesis by (simp add: handleBuildCancel_def Let_def writeStoreErr_def)
next
  case (Inr db1)
  have "keepsC db db1"
    using keepsC_UpdateBuildStatus [of "''cancelled''"] UpdateBuildStatus_Inr [OF Inr] by (simp add: trimSpace_literals)
  then show ?thesis
    using Inr keepsC_trans [OF _ keepsC_same [OF cancel_builds]] by (simp add: handleBuildCancel_def Let_def)
qed

lemma recoverChunks_builds: "vbuilds (snd (recoverChunks now req cs db)) = vbuilds db"
proof (induction cs arbitrary: db)
  case (Cons c cs)
  have "vbuilds db1 = vbuilds db" if "UpdateChunkStatus now (c_ID c) ''pr_opened'' db = Inr db1" for db1
    using chunkStatus_frame(2) UpdateChunkStatus_Inr [OF that] by metis
  moreover have "snd (recoverChunks now req (c # cs) db) =
      (if c_PRNumber c = sy_PRNumber req \<and> normalizeWidgetStatus (c_Status c) = ''failed'' \<and>
         isVanadisChunkStreamingPhase (resolveVanadisChunkWidgetStatus (c_Status c) (sy_PRStatus req))
       then (case UpdateChunkStatus now (c_ID c) ''pr_opened'' db of
         Inl _ \<Rightarrow> snd (recoverChunks now req cs db) | Inr db1 \<Rightarrow> snd (recoverChunks now req cs db1))
       else snd (recoverChunks now req cs db))"
    by (simp add: case_prod_beta Let_def split: sum.split)
  ultimately show ?case using Cons.IH
    by (cases "UpdateChunkStatus now (c_ID c) ''pr_opened'' db") (simp_all del: recoverChunks.simps)
qed simp

lemma cancelled_not_failed: "normalizeWidgetStatus ''cancelled'' \<noteq> ''failed''"
  by code_simp

lemma GetBuild_bstat:
  assumes inv: "vinv db" and g: "GetBuild bid db = Inr (b, cs)"
  shows "trimSpace (b_ID b) = trimSpace bid" "bstat db (trimSpace bid) = Some (b_Status b)"
proof -
  obtain row where r: "findBuild db (trimSpace bid) = Some row" "b = scanBuild row" using GetBuild_Inr [OF g] by blast
  then show "trimSpace (b_ID b) = trimSpace bid" "bstat db (trimSpace bid) = Some (b_Status b)"
    using findBuild_Some [OF r(1)] by (simp_all add: scanBuild_def bstat_def)
qed

lemma recoverBuild_keepsC:
  assumes inv: "vinv db" and g: "GetBuild bid db = Inr (b, cs)"
  shows "keepsC db (snd (snd (recoverBuildOnPRSync now req b cs db)))"
proof -
  let ?d = "snd (recoverChunks now req cs db)"
  have d: "keepsC db ?d" by (rule keepsC_same) (rule recoverChunks_builds)
  have "keepsC ?d (tryStore (UpdateBuildStatus now (b_ID b) ''running'' ?d) ?d)" if "normalizeWidgetStatus (b_Status b) = ''failed''"
    using GetBuild_bstat [OF inv g] that cancelled_not_failed bstat_same [OF recoverChunks_builds]
    by (intro keepsC_UpdateBuildStatus) auto
  then have "normalizeWidgetStatus (b_Status b) = ''failed'' \<Longrightarrow> keepsC db (tryStore (UpdateBuildStatus now (b_ID b) ''running'' ?d) ?d)"
    using keepsC_trans [OF d] by blast
  then show ?thesis
    using d by (auto simp: recoverBuildOnPRSync_def tryStore_def Let_def split: sum.splits prod.splits)
qed

lemma messageID_keepsC: "keepsC db (tryStore (UpdateBuildStatusMessageID now i m db) db)"
proof -
  have "keepsC db (updBuilds (\<lambda>b. b_ID b = trimSpace i) (\<lambda>b. b\<lparr>b_StatusMessageID := trimSpace m, b_UpdatedAt := now\<rparr>) db)"
    by (rule keepsC_updBuilds) auto
  then show ?thesis by (simp add: tryStore_def UpdateBuildStatusMessageID_def Let_def)
qed

lemma syncWidget_keepsC:
  assumes "vinv db" "GetBuild bid db = Inr (b, cs)"
  shows "keepsC db (o_db (syncWidget now answer req b cs db))"
proof -
  obtain b' cs' db1 where r: "recoverBuildOnPRSync now req b cs db = (b', cs', db1)" by (metis prod_cases3)
  have "keepsC db db1" using recoverBuild_keepsC [OF assms, of now req] by (simp add: r)
  then show ?thesis using keepsC_trans messageID_keepsC
    by (auto simp: syncWidget_def r dispatchAndPersistWidget_def split: option.split)
qed

lemma handleSyncPRWidget_keepsC: "vinv db \<Longrightarrow> keepsC db (o_db (handleSyncPRWidget now answer body db))"
  using syncWidget_keepsC
  by (auto simp: handleSyncPRWidget_def writeStoreErr_def Let_def split: option.splits sum.splits verr.splits)

lemma ProcessExecuteChunk_keepsC:
  assumes inv: "vinv db"
  shows "keepsC db (snd (ProcessExecuteChunk now ok bid i final db))"
proof (cases "GetBuild bid db")
  case (Inl e)
  then show ?thesis by (cases e) (simp_all add: ProcessExecuteChunk_def)
next
  case (Inr p)
  then obtain b cs where g: "GetBuild bid db = Inr (b, cs)" by (cases p) auto
  let ?c = "cs ! nat (indexWhere (\<lambda>c. c_ChunkIndex c = i) cs 0)"
  let ?db1 = "tryStore (UpdateChunkStatus now (c_ID ?c) ''running'' db) db"
  have f: "keepsC db (handleFinalDispatchFailure now (b_ID b) (c_ID ?c) ?db1)" if "b_Status b = ''running''"
  proof -
    let ?db2 = "tryStore (UpdateChunkStatus now (c_ID ?c) ''failed'' ?db1) ?db1"
    have vb: "vbuilds ?db2 = vbuilds db" by (simp add: chunkStatus_frame(2))
    have "keepsC ?db2 (tryStore (UpdateBuildStatus now (b_ID b) ''failed'' ?db2) ?db2)"
      using GetBuild_bstat [OF inv g] that bstat_same [OF vb] by (intro keepsC_UpdateBuildStatus) simp
    moreover have "keepsC db ?db2" by (rule keepsC_same [OF vb])
    ultimately show ?thesis unfolding handleFinalDispatchFailure_def Let_def by (meson keepsC_trans)
  qed
  show ?thesis
  proof (cases "UpdateChunkStatus now (c_ID ?c) ''running'' db")
    case (Inl e)
    then show ?thesis using g by (simp add: ProcessExecuteChunk_def Let_def)
  next
    case (Inr d)
    note f [folded UpdateChunkStatus_Inr [OF Inr]]
      and keepsC_UpdateChunkStatus [of db now "c_ID ?c" "''running''", folded UpdateChunkStatus_Inr [OF Inr]]
    then show ?thesis using Inr g by (simp add: ProcessExecuteChunk_def Let_def)
  qed
qed

lemma AdvanceChunkByPR_keepsC:
  assumes inv: "vinv db"
  shows "keepsC db (snd (AdvanceChunkByPR now repo pr db))"
proof (cases "normalizeRepo repo \<noteq> [] \<and> pr > 0 \<and> (\<exists>c b. selectChunkByPR (normalizeRepo repo) pr db = Some c \<and>
    findBuild db (c_BuildID c) = Some b \<and> b_Status b \<noteq> ''cancelled'')")
  case False
  show ?thesis unfolding AdvanceChunkByPR_miss [OF False] by simp
next
  case True
  then obtain c b where h: "normalizeRepo repo \<noteq> []" "pr > 0" "selectChunkByPR (normalizeRepo repo) pr db = Some c"
    "findBuild db (c_BuildID c) = Some b" "b_Status b \<noteq> ''cancelled''" by blast
  have c: "c \<in> set (vchunks db)" using selectChunkByPR_in [OF h(3)] by simp
  obtain res where adv: "AdvanceChunkByPR now repo pr db =
      queryAndAdvanceChunks now (c_BuildID c) (c_ID c) (c_Status c) (c_ChunkIndex c) res (mergeRow now c db)"
    "a_BuildStatus res = b_Status b" using AdvanceChunkByPR_hit [OF h] by blast
  obtain r db' where q: "queryAndAdvanceChunks now (c_BuildID c) (c_ID c) (c_Status c) (c_ChunkIndex c) res
      (mergeRow now c db) = (r, db')" by (metis surj_pair)
  note mr = mergeRow_facts [OF vinvD(1) [OF inv] c, of now]
  have fb: "findBuild (mergeRow now c db) i = findBuild db i" for i by (simp add: findBuild_def mr(2))
  have b1: "findBuild (mergeRow now c db) (c_BuildID c) = Some b" using h(4) fb by simp
  note f = queryAndAdvance_facts [OF vinvD(1) [OF mergeRow_inv [OF inv]] b1 adv(2) q]
  show ?thesis
    using f(10) h(4,5) fb unfolding keepsC_def bstat_def adv(1) q by (metis option.map(2) option.inject snd_conv)
qed

lemma FailChunkByPR_keepsC: "keepsC db (snd (FailChunkByPR now repo pr db))"
proof -
  have "keepsC db (updBuilds (\<lambda>b. b_ID b = i \<and> b_Status b = ''running'') (\<lambda>b. b\<lparr>b_Status := ''failed'', b_UpdatedAt := now\<rparr>)
      (updChunks P f db))" for i P f
    by (rule keepsC_trans [OF keepsC_same keepsC_updBuilds]) auto
  then show ?thesis by (simp add: FailChunkByPR_def Let_def split: list.split)
qed

lemma UpdateBuild_keepsC: "UpdateBuild now bid req db = Inr (b, db') \<Longrightarrow> keepsC db db'"
proof -
  have *: "keepsC db (updBuilds (\<lambda>r. b_ID r = trimSpace bid) (\<lambda>r. r\<lparr>b_Title := t, b_Objective := ob,
      b_SharedContext := sc, b_UpdatedAt := now\<rparr>) db)" for t ob sc
    by (rule keepsC_updBuilds) auto
  show "UpdateBuild now bid req db = Inr (b, db') \<Longrightarrow> keepsC db db'"
    unfolding UpdateBuild_def Let_def using * by (auto split: if_splits option.splits)
qed

lemma chunkOps_builds:
  "UpdateChunk now bid ref req db = Inr (c, db') \<Longrightarrow> vbuilds db' = vbuilds db"
  "AttachChunkPR now cid pr repo db = Inr (t, db') \<Longrightarrow> vbuilds db' = vbuilds db"
  unfolding UpdateChunk_def AttachChunkPR_def Let_def by (auto simp: rbind_Inr split: if_splits list.splits)

lemma CreateBuild_bstat:
  assumes "CreateBuild now build chunks db = Inr db'" "uniqueChunkID db" "uniqueIndex db" "b_Status build = ''running''"
  shows "keepsC db db'" "bstat db' (trimSpace (b_ID build)) = Some ''running''"
proof -
  let ?b = "trimSpace (b_ID build)" let ?db1 = "db\<lparr>vbuilds := vbuilds db @ [buildRow now build]\<rparr>"
  have new: "findBuild db ?b = None" and ins: "insertChunks now ?b chunks ?db1 = Inr db'"
    using assms(1) unfolding CreateBuild_def Let_def by (simp_all split: option.splits if_splits)
  have "\<exists>rows. db' = ?db1\<lparr>vchunks := vchunks ?db1 @ rows\<rparr>"
    using insertChunks_Inr(1) [OF ins] assms(2,3) by (auto simp: uniqueChunkID_def uniqueIndex_def)
  then have vb: "vbuilds db' = vbuilds db @ [buildRow now build]" by auto
  have fa: "List.find P (xs @ ys) = (case List.find P xs of None \<Rightarrow> List.find P ys | Some x \<Rightarrow> Some x)"
    for P :: "VanadisBuild \<Rightarrow> bool" and xs ys by (induction xs) auto
  show "keepsC db db'" by (auto simp: keepsC_def bstat_def findBuild_def vb fa)
  show "bstat db' ?b = Some ''running''"
    using new assms(4) by (simp add: bstat_def findBuild_def vb fa buildRow_def trimSpace_literals)
qed

lemma handleCreateBuild_keepsC:
  assumes inv: "vinv db"
  shows "keepsC db (o_db (handleCreateBuild now genID riverOk body db))"
proof -
  have uq: "uniqueChunkID db" "uniqueIndex db" using store_okD(2,3) [OF vinvD(1) [OF inv]] by (simp_all add: uniqueChunkID_def)
  have 1: "keepsC db db1" if "CreateBuild now (newBuild now j req) chunks db = Inr db1" for j req chunks db1
    using CreateBuild_bstat(1) [OF that uq] by (simp add: newBuild_def)
  have 2: "keepsC db (tryStore (UpdateBuildStatus now j ''failed'' db1) db1)"
    if "CreateBuild now (newBuild now j req) chunks db = Inr db1" for j req chunks db1
  proof (rule keepsC_trans [OF 1 [OF that] keepsC_UpdateBuildStatus])
    show "trimSpace ''failed'' = ''cancelled'' \<or> bstat db1 (trimSpace j) \<noteq> Some ''cancelled''"
      using CreateBuild_bstat(2) [OF that uq] by (simp add: newBuild_def)
  qed
  show ?thesis
    using 1 2 unfolding handleCreateBuild_def Let_def by (simp del: firstNonEmpty.simps split: option.split sum.split)
qed

lemma edit_handlers_keepsC:
  assumes inv: "vinv db"
  shows "keepsC db (o_db (handleUpdateBuild now bid ub db))" "keepsC db (o_db (handleUpdateChunk now bid ref uc db))"
    "keepsC db (o_db (handleAppendChunks now bid ac db))" "keepsC db (o_db (handleRemoveChunk now bid ref db))"
    "keepsC db (o_db (handleGetBuildChunk bid ref db))" "keepsC db (o_db (handleAttachChunkPR now at db))"
    "keepsC db (o_db (handleAdvanceChunkPR now riverOk pr db))" "keepsC db (o_db (handleFailChunkPR now pr db))"
proof -
  note d = writeStoreErr_def Let_def
  have rm: "vbuilds db' = vbuilds db" if "RemoveChunk now bid ref db = Inr (x, db')" for x db'
    using that unfolding RemoveChunk_eq [OF vinvD(1) [OF inv]] Let_def by (auto simp: rbind_Inr split: if_splits)
  have ap: "vbuilds db' = vbuilds db" if "AppendChunks now bid inps db = Inr (x, db')" for inps x db'
    using AppendChunks_Inr(3) [OF vinvD(1) [OF inv] that] by auto
  show "keepsC db (o_db (handleUpdateBuild now bid ub db))"
    using UpdateBuild_keepsC by (auto simp: handleUpdateBuild_def d split: option.split sum.split)
  show "keepsC db (o_db (handleUpdateChunk now bid ref uc db))"
    using keepsC_same [OF chunkOps_builds(1)] by (auto simp: handleUpdateChunk_def d split: option.split sum.split)
  show "keepsC db (o_db (handleAppendChunks now bid ac db))"
    using keepsC_same [OF ap] by (auto simp: handleAppendChunks_def d split: option.split sum.split)
  show "keepsC db (o_db (handleRemoveChunk now bid ref db))"
    using keepsC_same [OF rm] by (auto simp: handleRemoveChunk_def d split: sum.split)
  show "keepsC db (o_db (handleGetBuildChunk bid ref db))" by (auto simp: handleGetBuildChunk_def d split: sum.split)
  show "keepsC db (o_db (handleAttachChunkPR now at db))"
    using keepsC_same [OF chunkOps_builds(2)] by (auto simp: handleAttachChunkPR_def d split: option.split sum.split)
  show "keepsC db (o_db (handleAdvanceChunkPR now riverOk pr db))"
    using AdvanceChunkByPR_keepsC [OF inv] by (auto simp: handleAdvanceChunkPR_def d split: option.split prod.split) (metis snd_conv)+
  show "keepsC db (o_db (handleFailChunkPR now pr db))"
    using FailChunkByPR_keepsC by (auto simp: handleFailChunkPR_def d split: option.split prod.split)
qed

lemma handleBuildByID_keepsC: "vinv db \<Longrightarrow> keepsC db (o_db (handleBuildByID now r db))"
  using edit_handlers_keepsC handleBuildCancel_keepsC
  by (auto simp: handleBuildByID_def handleBuildRoot_def handleBuildChunkRoutes_def Let_def writeStoreErr_def split: sum.split)

lemma serve_keepsC: "vinv db \<Longrightarrow> keepsC db (o_db (serve now ev db))"
  by (cases ev) (simp_all add: handleCreateBuild_keepsC handleBuildByID_keepsC edit_handlers_keepsC
      handleSyncPRWidget_keepsC ProcessExecuteChunk_keepsC)

section \<open>Properties of the orchestrator\<close>

lemma reach_vinv: "reach vinit vstep db \<Longrightarrow> vinv db"
  by (rule vs.reach_inv)

definition emptyDB :: vdb where
  "emptyDB = \<lparr> vbuilds = [], vchunks = [] \<rparr>"

definition demoCreate :: CreateBuildRequest where
  "demoCreate = \<lparr> cb_ID = ''b1'', cb_Repo = ''aerial'', cb_ThreadID = ''discord-42'', cb_Tier = 0, cb_Title = [],
     cb_Objective = ''ship'', cb_SharedContext = [], cb_Chunks = [demoInput, demoInput\<lparr>ci_Title := ''two''\<rparr>] \<rparr>"

definition demoCancel :: buildsRequest where
  "demoCancel = \<lparr> rq_Method = ''POST'', rq_Path = ''/builds/b1/cancel'', rq_UpdateBuild = None,
     rq_UpdateChunk = None, rq_AppendChunks = None \<rparr>"

definition demoCreated :: vdb where
  "demoCreated = o_db (serve 9 (EvCreate [] True (Some demoCreate)) emptyDB)"

lemma demoCreated_reach: "reach vinit vstep demoCreated"
proof -
  have "reach vinit vstep emptyDB" by (rule reach_init) (simp add: vinit_def emptyDB_def)
  then show ?thesis unfolding demoCreated_def by (rule reach_step) (rule vstep.intros)
qed



lemma path_keepsC: "vstep\<^sup>*\<^sup>* db db' \<Longrightarrow> reach vinit vstep db \<Longrightarrow> keepsC db db'"
proof (induction rule: rtranclp.induct)
  case (rtrancl_into_rtrancl a b c)
  then have "vinv b" using vs.path_reach reach_vinv by blast
  then have "keepsC b c" using rtrancl_into_rtrancl.hyps(2) serve_keepsC by (auto elim!: vstep.cases)
  then show ?case using rtrancl_into_rtrancl keepsC_trans by blast
qed simp



lemma nextSpec_in: "finite T \<Longrightarrow> T \<noteq> {} \<Longrightarrow> nextSpec T cur \<in> T"
proof -
  assume f: "finite T" "T \<noteq> {}"
  have "Min {i\<in>T. i > cur} \<in> {i\<in>T. i > cur}" if "\<exists>i\<in>T. i > cur" using that f(1) by (intro Min_in) auto
  then show "nextSpec T cur \<in> T" using f unfolding nextSpec_def by auto
qed

lemma todoIdx_finite: "finite (todoIdx db c)"
  by (simp add: todoIdx_def)

lemma normalizeRepo_trim [simp]: "normalizeRepo (trimSpace r) = normalizeRepo r"
  by (simp add: normalizeRepo_def)

lemma normalizeRepo_nonempty: "trimSpace r \<noteq> [] \<Longrightarrow> normalizeRepo r \<noteq> []"
  by (simp add: normalizeRepo_def Let_def)

text \<open>The job a merged pull request should lead to.\<close>

definition nextJob :: "string \<Rightarrow> int \<Rightarrow> vdb \<Rightarrow> job list" where
  "nextJob repo pr db =
     (case selectChunkByPR (normalizeRepo repo) pr db of
        None \<Rightarrow> []
      | Some c \<Rightarrow> if bstat db (c_BuildID c) \<in> {None, Some ''cancelled''} \<or> todoIdx db c = {} then []
                  else [(c_BuildID c, nextSpec (todoIdx db c) (c_ChunkIndex c))])"

lemma advance_jobs_hit:
  assumes inv: "vinv db" and h: "normalizeRepo repo \<noteq> []" "pr > 0" "selectChunkByPR (normalizeRepo repo) pr db = Some c"
    "findBuild db (c_BuildID c) = Some b" "b_Status b \<noteq> ''cancelled''" and adv: "AdvanceChunkByPR now repo pr db = (r, db')"
  shows "(Matched r \<and> \<not> BuildCompleted r \<and> NextChunkIndex r \<ge> 0) = (todoIdx db c \<noteq> {})"
    "a_BuildID r = c_BuildID c" "NextChunkIndex r = nextSpec (todoIdx db c) (c_ChunkIndex c)"
proof -
  have c: "c \<in> set (vchunks db)" using selectChunkByPR_in [OF h(3)] by simp
  obtain res where q: "queryAndAdvanceChunks now (c_BuildID c) (c_ID c) (c_Status c) (c_ChunkIndex c) res
      (mergeRow now c db) = (r, db')"
    and res: "Matched res" "a_BuildStatus res = b_Status b" "a_BuildID res = c_BuildID c"
    using AdvanceChunkByPR_hit [OF h] adv by metis
  note mr = mergeRow_facts [OF vinvD(1) [OF inv] c, of now]
  have b1: "findBuild (mergeRow now c db) (c_BuildID c) = Some b" using h(4) by (simp add: findBuild_def mr(2))
  note f = queryAndAdvance_facts [OF vinvD(1) [OF mergeRow_inv [OF inv]] b1 res(2) q]
  show "a_BuildID r = c_BuildID c" "NextChunkIndex r = nextSpec (todoIdx db c) (c_ChunkIndex c)"
    using f(4,6) res(3) mr(3) by simp_all
  have "todoIdx db c \<noteq> {} \<Longrightarrow> nextSpec (todoIdx db c) (c_ChunkIndex c) \<ge> 0"
    using nextSpec_in [OF todoIdx_finite] todoIdx_nonneg [OF vinvD(1) [OF inv]] by blast
  then show "(Matched r \<and> \<not> BuildCompleted r \<and> NextChunkIndex r \<ge> 0) = (todoIdx db c \<noteq> {})"
    using f(2,6,7) res(1) mr(3) by auto
qed

text \<open>
  C10. The advance request enqueues exactly the job for the next unmerged chunk of the build the
  merged pull request belongs to, and none for a finished or cancelled build or an unknown pull
  request; the chunk it names exists and is not merged.\<close>

theorem vanadis_advance_enqueues:
  assumes "reach vinit vstep db" "trimSpace repo \<noteq> []" "pr > 0"
  shows "o_jobs (handleAdvanceChunkPR now True (Some (repo, pr)) db) = nextJob repo pr db \<and>
    (\<forall>(b, i)\<in>set (nextJob repo pr db). \<exists>d\<in>set (vchunks db). c_BuildID d = b \<and> c_ChunkIndex d = i \<and> c_Status d \<noteq> ''merged'')"
proof -
  have inv: "vinv db" by (rule reach_vinv [OF assms(1)])
  have rp: "normalizeRepo repo \<noteq> []" by (rule normalizeRepo_nonempty [OF assms(2)])
  obtain r db' where adv: "AdvanceChunkByPR now (trimSpace repo) pr db = (r, db')" by (metis surj_pair)
  have jobs: "o_jobs (handleAdvanceChunkPR now True (Some (repo, pr)) db) =
      (if Matched r \<and> \<not> BuildCompleted r \<and> NextChunkIndex r \<ge> 0 then [(a_BuildID r, NextChunkIndex r)] else [])"
    using assms(2,3) by (simp add: handleAdvanceChunkPR_def adv)
  have "o_jobs (handleAdvanceChunkPR now True (Some (repo, pr)) db) = nextJob repo pr db"
  proof (cases "\<exists>c b. selectChunkByPR (normalizeRepo repo) pr db = Some c \<and> findBuild db (c_BuildID c) = Some b \<and>
      b_Status b \<noteq> ''cancelled''")
    case True
    then obtain c b where h: "selectChunkByPR (normalizeRepo repo) pr db = Some c" "findBuild db (c_BuildID c) = Some b"
      "b_Status b \<noteq> ''cancelled''" by blast
    have rp': "normalizeRepo (trimSpace repo) \<noteq> []" "selectChunkByPR (normalizeRepo (trimSpace repo)) pr db = Some c"
      using rp h(1) by simp_all
    note f = advance_jobs_hit [OF inv rp'(1) assms(3) rp'(2) h(2,3) adv]
    have "nextJob repo pr db = (if todoIdx db c \<noteq> {} then [(c_BuildID c, nextSpec (todoIdx db c) (c_ChunkIndex c))] else [])"
      using h by (simp add: nextJob_def bstat_def)
    then show ?thesis unfolding jobs f(1) by (simp only: f(2,3))
  next
    case False
    then have "\<not> Matched r \<or> NextChunkIndex r < 0"
      using adv rp assms(3) unfolding AdvanceChunkByPR_def Let_def
      by (auto simp: noAdvance_def isTerminalBuildStatus_def split: option.splits if_splits)
    then have "\<not> (Matched r \<and> \<not> BuildCompleted r \<and> NextChunkIndex r \<ge> 0)" by auto
    moreover have "nextJob repo pr db = []" using False by (auto simp: nextJob_def bstat_def split: option.splits)
    ultimately show ?thesis unfolding jobs by simp
  qed
  moreover have "\<exists>d\<in>set (vchunks db). c_BuildID d = b \<and> c_ChunkIndex d = i \<and> c_Status d \<noteq> ''merged''"
    if "(b, i) \<in> set (nextJob repo pr db)" for b i
  proof -
    from that obtain c where "b = c_BuildID c" "i = nextSpec (todoIdx db c) (c_ChunkIndex c)" "todoIdx db c \<noteq> {}"
      by (auto simp: nextJob_def split: option.splits if_splits)
    then have "i \<in> todoIdx db c" "b = c_BuildID c" using nextSpec_in [OF todoIdx_finite] by simp_all
    then show ?thesis by (auto simp: todoIdx_def)
  qed
  ultimately show ?thesis by blast
qed

definition demoAttached :: vdb where
  "demoAttached = o_db (serve 10 (EvAttach (Some (''b1-chunk-1'', 7, ''aerial''))) demoCreated)"

theorem vanadis_advance_enqueues_witness:
  "o_jobs (handleAdvanceChunkPR 11 True (Some (''aerial'', 7)) demoAttached) = [(''b1'', 1)]"
proof -
  have "reach vinit vstep demoAttached"
    unfolding demoAttached_def by (rule reach_step [OF demoCreated_reach vstep.intros])
  moreover have "trimSpace ''aerial'' \<noteq> []" "(7::int) > 0" by code_simp+
  moreover have "nextJob ''aerial'' 7 demoAttached = [(''b1'', 1)]" by code_simp
  ultimately show ?thesis using vanadis_advance_enqueues [of demoAttached "''aerial''" 7 11] by simp
qed

section \<open>The status widget\<close>

text \<open>Some chunk of the announced pull request is shown as failed.\<close>

definition prFailed :: "SyncChunkPRWidgetRequest \<Rightarrow> VanadisChunk list \<Rightarrow> bool" where
  "prFailed req cs = list_ex (\<lambda>c. c_PRNumber c = sy_PRNumber req \<and>
     resolveVanadisChunkWidgetStatus (c_Status c) (sy_PRStatus req) \<in> {''failed'', ''conflict''}) cs"

lemma widgetLoop_Cons:
  "fst (widgetLoop req (c # cs) st) = fst (widgetChunk req c st) # fst (widgetLoop req cs (snd (widgetChunk req c st)))"
  "snd (widgetLoop req (c # cs) st) = snd (widgetLoop req cs (snd (widgetChunk req c st)))"
  by (simp_all add: case_prod_beta Let_def)

lemma widgetChunk_ID: "w_ID (fst (widgetChunk req c st)) = c_ID c"
  by (simp add: widgetChunk_def Let_def)

lemma widgetChunk_Status:
  assumes "sy_PRFound req" "sy_PRNumber req > 0"
  shows "c_PRNumber c = sy_PRNumber req \<Longrightarrow>
      w_Status (fst (widgetChunk req c st)) = resolveVanadisChunkWidgetStatus (c_Status c) (sy_PRStatus req)"
    "snd (widgetChunk req c st) = (if st \<noteq> ''completed'' \<and> c_PRNumber c = sy_PRNumber req \<and>
      resolveVanadisChunkWidgetStatus (c_Status c) (sy_PRStatus req) \<in> {''failed'', ''conflict''} then ''failed'' else st)"
  using assms by (auto simp: widgetChunk_def Let_def simp del: firstNonEmpty.simps)

lemma prFailed_Cons: "prFailed req (c # cs) = ((c_PRNumber c = sy_PRNumber req \<and>
     resolveVanadisChunkWidgetStatus (c_Status c) (sy_PRStatus req) \<in> {''failed'', ''conflict''}) \<or> prFailed req cs)"
  by (simp add: prFailed_def)

lemma widgetLoop_ids: "map w_ID (fst (widgetLoop req cs st)) = map c_ID cs"
  by (induction cs arbitrary: st) (simp_all add: widgetLoop_Cons widgetChunk_ID del: widgetLoop.simps(2))

lemma widgetLoop_status:
  assumes "sy_PRFound req" "sy_PRNumber req > 0"
  shows "snd (widgetLoop req cs st) = (if st \<noteq> ''completed'' \<and> prFailed req cs then ''failed'' else st)"
proof (induction cs arbitrary: st)
  case (Cons c cs)
  show ?case unfolding widgetLoop_Cons Cons.IH widgetChunk_Status(2) [OF assms] prFailed_Cons by auto
qed (simp add: prFailed_def)

lemma widgetLoop_failed:
  assumes "sy_PRFound req" "sy_PRNumber req > 0" "prFailed req cs"
  shows "hasFailedWidgetChunk (fst (widgetLoop req cs st))"
  using assms(3)
proof (induction cs arbitrary: st)
  case (Cons c cs)
  then show ?case using widgetChunk_Status(1) [OF assms(1,2), of c st]
    unfolding widgetLoop_Cons prFailed_Cons by (auto simp: hasFailedWidgetChunk_def)
qed (simp add: prFailed_def)

text \<open>
  For a known pull request the widget shows every chunk in order; it reads failed only when
  some chunk it shows is failed or in conflict, it reads failed whenever the pull request's own
  chunk is, unless the build is completed, and a completed build always reads completed.\<close>

theorem vanadis_widget_consistent:
  assumes "sy_PRFound req" "sy_PRNumber req > 0"
    "st = firstNonEmpty [normalizeWidgetStatus (b_Status build), ''running'']"
    "w = buildSyncWidgetRequest build cs req"
  shows "map w_ID (wr_Chunks w) = map c_ID cs \<and>
    (st = ''completed'' \<longrightarrow> wr_Status w = ''completed'') \<and>
    (wr_Status w = ''failed'' \<longrightarrow> hasFailedWidgetChunk (wr_Chunks w)) \<and>
    (prFailed req cs \<and> st \<noteq> ''completed'' \<longrightarrow> wr_Status w = ''failed'')"
proof -
  obtain ws st' where l: "widgetLoop req cs st = (ws, st')" by (metis surj_pair)
  have w: "wr_Chunks w = ws" "wr_Status w = (if st' = ''failed'' \<and> \<not> hasFailedWidgetChunk ws then ''running'' else st')"
    using assms l by (simp_all add: buildSyncWidgetRequest_def Let_def del: firstNonEmpty.simps)
  show ?thesis
    using w widgetLoop_ids [of req cs st] widgetLoop_status [OF assms(1,2), of cs st] widgetLoop_failed [OF assms(1,2), of cs st]
    by (simp add: l)
qed

definition demoSync :: SyncChunkPRWidgetRequest where
  "demoSync = \<lparr> sy_BuildID = [], sy_Repo = ''aerial'', sy_PRNumber = 7, sy_PRStatus = ''ci_failed'', sy_PRBanner = ''red'',
     sy_ActiveStep = [], sy_PRFound = True \<rparr>"

theorem vanadis_widget_consistent_witness:
  "wr_Status (buildSyncWidgetRequest (hd (vbuilds demoDB)) (vchunks demoDB) demoSync) = ''failed'' \<and>
   hasFailedWidgetChunk (wr_Chunks (buildSyncWidgetRequest (hd (vbuilds demoDB)) (vchunks demoDB) demoSync))"
proof -
  have h: "sy_PRFound demoSync" "sy_PRNumber demoSync > 0" by code_simp+
  have "prFailed demoSync (vchunks demoDB)"
    "firstNonEmpty [normalizeWidgetStatus (b_Status (hd (vbuilds demoDB))), ''running''] \<noteq> ''completed''" by code_simp+
  then show ?thesis using vanadis_widget_consistent [OF h refl refl] by blast
qed

end
