(* ===== verification/ShellWords.thy ===== *)
theory ShellWords
  imports GoStd
begin

text \<open>
  The command line scanner of the tool-call guard
  (\<^verbatim>\<open>services/eri/pkg/guard/sql.go\<close>): splitting a shell line into pipeline segments and a
  segment into tokens, both with byte offsets and aware of quotes and backslashes, and
  splitting an SQL text into statements.

  The scanners are compared with a structured view of a command line: commands as lists of raw
  words, rendered with blanks and delimiters. On rendered lines the scanners find exactly the
  words, at exactly their offsets. Splitting SQL is idempotent on its results.
\<close>

section \<open>strings.Index, filepath.Base\<close>

fun strIndex :: "string \<Rightarrow> string \<Rightarrow> nat option" where
  "strIndex s p = (if hasPrefix s p then Some 0
     else case s of [] \<Rightarrow> None | c # r \<Rightarrow> map_option Suc (strIndex r p))"

declare strIndex.simps [simp del]

lemma strIndex_skip: "\<not> hasPrefix (c # s) p \<Longrightarrow> strIndex (c # s) p = map_option Suc (strIndex s p)"
  by (simp add: strIndex.simps [of "c # s"])

lemma strIndex_0: "hasPrefix s p \<Longrightarrow> strIndex s p = Some 0"
  by (simp add: strIndex.simps [of s])

text \<open>\<^verbatim>\<open>filepath.Base\<close>: the last element, without trailing slashes.\<close>

definition pathBase :: "string \<Rightarrow> string" where
  "pathBase p =
     (if p = [] then ''.''
      else let q = rev (dropWhile (\<lambda>c. c = CHR ''/'') (rev p))
           in if q = [] then ''/'' else rev (takeWhile (\<lambda>c. c \<noteq> CHR ''/'') (rev q)))"

section \<open>Pipeline segments\<close>

record pipelineSegment =
  sg_text :: string
  sg_offset :: nat

text \<open>The arguments of \<^verbatim>\<open>delimiterWidth(cmd, i)\<close> are read through the suffix \<^verbatim>\<open>cmd[i:]\<close>.\<close>

fun delimiterWidth :: "string \<Rightarrow> nat" where
  "delimiterWidth [] = 0"
| "delimiterWidth (ch # rest) =
     (if (ch = CHR ''&'' \<or> ch = CHR ''|'') \<and> rest \<noteq> [] \<and> hd rest = ch then 2
      else if ch = CHR '';'' \<or> ch = CHR ''|'' \<or> ch = CHR 0x0A then 1 else 0)"

definition flushSegment :: "string \<Rightarrow> nat \<Rightarrow> nat \<Rightarrow> pipelineSegment list" where
  "flushSegment cmd start stop =
     (let raw = take (stop - start) (drop start cmd); trimmed = trimSpace raw
      in if trimmed = [] then []
         else [\<lparr>sg_text = trimmed,
                sg_offset = (case strIndex raw trimmed of Some k \<Rightarrow> start + k | None \<Rightarrow> start - 1)\<rparr>])"

text \<open>The loop of \<^verbatim>\<open>splitPipelineWithOffsets\<close> at index \<open>i\<close>, with the unread suffix of the line.\<close>

fun pipeLoop :: "string \<Rightarrow> nat \<Rightarrow> nat \<Rightarrow> bool \<Rightarrow> bool \<Rightarrow> bool \<Rightarrow> string \<Rightarrow> pipelineSegment list" where
  "pipeLoop cmd start i inSingle inDouble escaped [] = flushSegment cmd start (length cmd)"
| "pipeLoop cmd start i inSingle inDouble escaped (ch # rest) =
     (if escaped then pipeLoop cmd start (i + 1) inSingle inDouble False rest
      else if ch = CHR 0x5C \<and> \<not> inSingle then pipeLoop cmd start (i + 1) inSingle inDouble True rest
      else if ch = CHR 0x27 \<and> \<not> inDouble then pipeLoop cmd start (i + 1) (\<not> inSingle) inDouble False rest
      else if ch = CHR 0x22 \<and> \<not> inSingle then pipeLoop cmd start (i + 1) inSingle (\<not> inDouble) False rest
      else if \<not> inSingle \<and> \<not> inDouble \<and> delimiterWidth (ch # rest) > 0 then
        let step = delimiterWidth (ch # rest)
        in flushSegment cmd start i @ pipeLoop cmd (i + step) (i + step) False False False (drop (step - 1) rest)
      else pipeLoop cmd start (i + 1) inSingle inDouble False rest)"

definition splitPipelineWithOffsets :: "string \<Rightarrow> pipelineSegment list" where
  "splitPipelineWithOffsets cmd = pipeLoop cmd 0 0 False False False cmd"

section \<open>Tokens\<close>

record locatedToken =
  tk_value :: string
  startOffset :: nat
  endOffset :: nat

definition locTok :: "string \<Rightarrow> nat \<Rightarrow> nat \<Rightarrow> locatedToken" where
  "locTok v a b = \<lparr>tk_value = v, startOffset = a, endOffset = b\<rparr>"

lemma locTok_sel [simp]:
  "tk_value (locTok v a b) = v" "startOffset (locTok v a b) = a" "endOffset (locTok v a b) = b"
  by (simp_all add: locTok_def)

definition isBlank :: "char \<Rightarrow> bool" where
  "isBlank ch = (ch = CHR '' '' \<or> ch = CHR 0x09 \<or> ch = CHR 0x0A \<or> ch = CHR 0x0D)"

fun tokLoop :: "nat \<Rightarrow> nat \<Rightarrow> string \<Rightarrow> nat \<Rightarrow> bool \<Rightarrow> bool \<Rightarrow> bool \<Rightarrow> bool \<Rightarrow> string \<Rightarrow> locatedToken list" where
  "tokLoop base i current tokStart inToken inSingle inDouble escaped [] =
     (if inToken then [locTok current (base + tokStart) (base + i)] else [])"
| "tokLoop base i current tokStart inToken inSingle inDouble escaped (ch # rest) =
     (if \<not> escaped \<and> \<not> inSingle \<and> \<not> inDouble \<and> isBlank ch then
        (if inToken
         then locTok current (base + tokStart) (base + i)
                # tokLoop base (i + 1) [] tokStart False inSingle inDouble escaped rest
         else tokLoop base (i + 1) current tokStart False inSingle inDouble escaped rest)
      else let tokStart = (if inToken then tokStart else i)
        in if escaped then tokLoop base (i + 1) (current @ [ch]) tokStart True inSingle inDouble False rest
           else if ch = CHR 0x5C \<and> \<not> inSingle then tokLoop base (i + 1) current tokStart True inSingle inDouble True rest
           else if ch = CHR 0x27 \<and> \<not> inDouble then tokLoop base (i + 1) current tokStart True (\<not> inSingle) inDouble False rest
           else if ch = CHR 0x22 \<and> \<not> inSingle then tokLoop base (i + 1) current tokStart True inSingle (\<not> inDouble) False rest
           else tokLoop base (i + 1) (current @ [ch]) tokStart True inSingle inDouble False rest)"

definition tokenizeWithOffsets :: "string \<Rightarrow> nat \<Rightarrow> locatedToken list" where
  "tokenizeWithOffsets sub baseOffset = tokLoop baseOffset 0 [] 0 False False False False sub"

section \<open>SQL statements\<close>

text \<open>
  One iteration of the loop of \<^verbatim>\<open>splitSQLStatements\<close> on a byte that is not a separator: how
  many bytes beyond it are consumed and the flags \<^verbatim>\<open>inSingle\<close> and \<^verbatim>\<open>inDouble\<close> after it. A
  doubled quote inside a literal is consumed at once; a comment runs to the end of its line,
  whose newline the loop increment steps over.
\<close>

definition sqlStep :: "bool \<Rightarrow> bool \<Rightarrow> char \<Rightarrow> string \<Rightarrow> nat \<times> bool \<times> bool" where
  "sqlStep inSingle inDouble ch rest =
     (if inSingle then
        (if ch = CHR 0x27 then (if hasPrefix rest [CHR 0x27] then (1, True, inDouble) else (0, False, inDouble))
         else (0, True, inDouble))
      else if inDouble then (0, False, ch \<noteq> CHR 0x22)
      else if ch = CHR 0x27 then (0, True, False)
      else if ch = CHR 0x22 then (0, False, True)
      else if ch = CHR ''-'' \<and> hasPrefix rest [CHR ''-''] then
        (length (takeWhile (\<lambda>c. c \<noteq> CHR 0x0A) rest) + 1, False, False)
      else (0, False, False))"

definition flushStmt :: "string \<Rightarrow> string list" where
  "flushStmt cur = (let s = trimSpace cur in if s = [] then [] else [s])"

text \<open>The loop: \<open>cur\<close> is \<^verbatim>\<open>sqlStr[start:i]\<close>, the last argument is \<^verbatim>\<open>sqlStr[i:]\<close>.\<close>

function sqlLoop :: "bool \<Rightarrow> bool \<Rightarrow> string \<Rightarrow> string \<Rightarrow> string list" where
  "sqlLoop inSingle inDouble cur [] = flushStmt cur"
| "sqlLoop inSingle inDouble cur (ch # rest) =
     (if \<not> inSingle \<and> \<not> inDouble \<and> ch = CHR '';'' then flushStmt cur @ sqlLoop False False [] rest
      else case sqlStep inSingle inDouble ch rest of
        (n, s, d) \<Rightarrow> sqlLoop s d (cur @ ch # take n rest) (drop n rest))"
  by pat_completeness auto
termination
  by (relation "measure (\<lambda>(s, d, cur, rest). length rest)") auto

definition splitSQLStatements :: "string \<Rightarrow> string list" where
  "splitSQLStatements sqlStr = sqlLoop False False [] sqlStr"

text \<open>The identifiers outside single quotes, lowered: the keys of the set the code builds.\<close>

definition isIdentByte :: "char \<Rightarrow> bool" where
  "isIdentByte ch = (let n = of_char ch :: nat in
     (97 \<le> n \<and> n \<le> 122) \<or> (65 \<le> n \<and> n \<le> 90) \<or> (48 \<le> n \<and> n \<le> 57) \<or> ch = CHR ''_'')"

fun identLoop :: "string \<Rightarrow> bool \<Rightarrow> string \<Rightarrow> string list" where
  "identLoop cur inSingle [] = (if cur \<noteq> [] then [toLower cur] else [])"
| "identLoop cur inSingle (ch # rest) =
     (if ch = CHR 0x27 then identLoop cur (\<not> inSingle) rest
      else if \<not> inSingle \<and> isIdentByte ch then identLoop (cur @ [ch]) inSingle rest
      else if cur \<noteq> [] then toLower cur # identLoop [] inSingle rest
      else identLoop cur inSingle rest)"

definition extractIdentifierSet :: "string \<Rightarrow> string list" where
  "extractIdentifierSet sqlStr = remdups (identLoop [] False sqlStr)"

section \<open>Words and rendered command lines\<close>

text \<open>
  A raw word is a piece of command line that the shell reads as one word: every quote is closed
  and every blank or control character is quoted or escaped. \<open>wordScan\<close> gives the value it
  stands for.
\<close>

definition isShellMeta :: "char \<Rightarrow> bool" where
  "isShellMeta ch = (isBlank ch \<or> ch = CHR '';'' \<or> ch = CHR ''|'' \<or> ch = CHR ''&'')"

fun wordScan :: "bool \<Rightarrow> bool \<Rightarrow> bool \<Rightarrow> string \<Rightarrow> string option" where
  "wordScan inSingle inDouble escaped [] = (if inSingle \<or> inDouble \<or> escaped then None else Some [])"
| "wordScan inSingle inDouble escaped (ch # rest) =
     (if escaped then map_option (Cons ch) (wordScan inSingle inDouble False rest)
      else if ch = CHR 0x5C \<and> \<not> inSingle then wordScan inSingle inDouble True rest
      else if ch = CHR 0x27 \<and> \<not> inDouble then wordScan (\<not> inSingle) inDouble False rest
      else if ch = CHR 0x22 \<and> \<not> inSingle then wordScan inSingle (\<not> inDouble) False rest
      else if \<not> inSingle \<and> \<not> inDouble \<and> isShellMeta ch then None
      else map_option (Cons ch) (wordScan inSingle inDouble False rest))"

definition edgeByte :: "char \<Rightarrow> bool" where
  "edgeByte c = (let n = of_char c :: nat in 32 < n \<and> n < 128)"

definition isWord :: "string \<Rightarrow> bool" where
  "isWord w = (w \<noteq> [] \<and> wordScan False False False w \<noteq> None \<and> edgeByte (hd w) \<and> edgeByte (last w))"

definition wordVal :: "string \<Rightarrow> string" where
  "wordVal w = (case wordScan False False False w of Some v \<Rightarrow> v | None \<Rightarrow> [])"

text \<open>POSIX quoting of an arbitrary argument: single quotes, an inner quote as \<^verbatim>\<open>'\''\<close>.\<close>

definition shQuote :: "string \<Rightarrow> string" where
  "shQuote s = CHR 0x27 # concat (map (\<lambda>c. if c = CHR 0x27 then [CHR 0x27, CHR 0x5C, CHR 0x27, CHR 0x27] else [c]) s)
               @ [CHR 0x27]"

definition renderCmd :: "string list \<Rightarrow> string" where
  "renderCmd ws = joinWith '' '' ws"

fun renderLine :: "(string list \<times> string) list \<Rightarrow> string" where
  "renderLine [] = []"
| "renderLine [(ws, dl)] = renderCmd ws"
| "renderLine ((ws, dl) # c # cs) = renderCmd ws @ '' '' @ dl @ '' '' @ renderLine (c # cs)"

definition isDelimiter :: "string \<Rightarrow> bool" where
  "isDelimiter dl = (dl \<in> {'';'', ''|'', [CHR 0x0A], ''&&'', ''||''})"

definition isCmd :: "string list \<Rightarrow> bool" where
  "isCmd ws = (ws \<noteq> [] \<and> list_all isWord ws)"

definition isLine :: "(string list \<times> string) list \<Rightarrow> bool" where
  "isLine cs = list_all (\<lambda>(ws, dl). isCmd ws \<and> isDelimiter dl) cs"

lemma wordScan_quoted:
  "wordScan True False False
     (concat (map (\<lambda>c. if c = CHR 0x27 then [CHR 0x27, CHR 0x5C, CHR 0x27, CHR 0x27] else [c]) s) @ [CHR 0x27])
   = Some s"
  by (induction s) auto

lemma shQuote_word [simp]: "isWord (shQuote s)" "wordVal (shQuote s) = s"
  using wordScan_quoted [of s] by (auto simp: isWord_def wordVal_def shQuote_def edgeByte_def)

section \<open>The scanners on rendered lines\<close>

text \<open>Where the words of a command lie, and where the commands of a line lie.\<close>

fun locate :: "nat \<Rightarrow> string list \<Rightarrow> locatedToken list" where
  "locate b [] = []"
| "locate b (w # ws) = locTok (wordVal w) b (b + length w) # locate (b + length w + 1) ws"

fun segmentsAt :: "nat \<Rightarrow> (string list \<times> string) list \<Rightarrow> pipelineSegment list" where
  "segmentsAt b [] = []"
| "segmentsAt b ((ws, dl) # cs) =
     \<lparr>sg_text = renderCmd ws, sg_offset = b\<rparr> # segmentsAt (b + length (renderCmd ws) + length dl + 2) cs"

lemma isBlank_quotes [simp]:
  "\<not> isBlank (CHR 0x5C)" "\<not> isBlank (CHR 0x27)" "\<not> isBlank (CHR 0x22)" "isBlank (CHR '' '')"
  by (simp_all add: isBlank_def)

lemma delimiterWidth_plain: "\<not> isShellMeta ch \<Longrightarrow> delimiterWidth (ch # rest) = 0"
  by (auto simp: isShellMeta_def isBlank_def)

lemma delimiterWidth_space: "delimiterWidth (CHR '' '' # rest) = 0"
  by simp

lemma tokLoop_word:
  "wordScan s d e w = Some v \<Longrightarrow> inT \<or> w \<noteq> [] \<Longrightarrow>
   tokLoop base i cur ts inT s d e (w @ r) =
   tokLoop base (i + length w) (cur @ v) (if inT then ts else i) True False False False r"
proof (induction w arbitrary: s d e v cur ts inT i)
  case (Cons ch w)
  then show ?case by (auto simp: Let_def isShellMeta_def split: if_splits)
qed (auto split: if_splits)

lemma tokLoop_cmd:
  "list_all isWord ws \<Longrightarrow>
   tokLoop base i [] ts False False False False (renderCmd ws) = locate (base + i) ws"
proof (induction ws arbitrary: i ts)
  case Nil
  then show ?case by (simp add: renderCmd_def)
next
  case (Cons w ws)
  then obtain v where v: "wordScan False False False w = Some v" and w: "w \<noteq> []" by (auto simp: isWord_def)
  show ?case
  proof (cases ws)
    case Nil
    then show ?thesis using tokLoop_word [OF v, of False _ _ _ _ "[]"] w v
      by (simp add: renderCmd_def wordVal_def add.assoc)
  next
    case (Cons w2 ws2)
    then have "renderCmd (w # ws) = w @ CHR '' '' # renderCmd ws" by (simp add: renderCmd_def)
    then show ?thesis
      using tokLoop_word [OF v, of False _ i "[]" ts "CHR '' '' # renderCmd ws"] w v Cons.IH Cons.prems
      by (simp add: wordVal_def isBlank_def add.assoc)
  qed
qed

lemma tokenize_cmd: "list_all isWord ws \<Longrightarrow> tokenizeWithOffsets (renderCmd ws) b = locate b ws"
  using tokLoop_cmd [of ws b 0 0] by (simp add: tokenizeWithOffsets_def)

lemma pipeLoop_word:
  "wordScan s d e w \<noteq> None \<Longrightarrow>
   pipeLoop cmd st i s d e (w @ r) = pipeLoop cmd st (i + length w) False False False r"
proof (induction w arbitrary: s d e i)
  case (Cons ch w)
  then show ?case by (auto simp: Let_def delimiterWidth_plain simp del: delimiterWidth.simps split: if_splits)
qed (auto split: if_splits)

lemma pipeLoop_cmd:
  "list_all isWord ws \<Longrightarrow>
   pipeLoop cmd st i False False False (renderCmd ws @ r) = pipeLoop cmd st (i + length (renderCmd ws)) False False False r"
proof (induction ws arbitrary: i)
  case Nil
  then show ?case by (simp add: renderCmd_def)
next
  case (Cons w ws)
  then have w: "wordScan False False False w \<noteq> None" by (auto simp: isWord_def)
  show ?case
  proof (cases ws)
    case Nil
    then show ?thesis using pipeLoop_word [OF w] by (simp add: renderCmd_def)
  next
    case (Cons w2 ws2)
    then have "renderCmd (w # ws) = w @ CHR '' '' # renderCmd ws" by (simp add: renderCmd_def)
    then show ?thesis using pipeLoop_word [OF w] Cons.IH Cons.prems by (simp add: add.assoc)
  qed
qed

lemma hasPrefix_hd: "hasPrefix (c # t) r \<Longrightarrow> r \<noteq> [] \<Longrightarrow> c \<in> set r"
  by (cases r) auto

lemma runeLenIn_edge:
  "edgeByte c \<Longrightarrow> runeLenIn spaceRunes (c # t) = 0" "edgeByte c \<Longrightarrow> runeLenIn (map rev spaceRunes) (c # t) = 0"
proof -
  assume e: "edgeByte c"
  have "c \<noteq> x" if "x \<in> set (concat spaceRunes)" for x
  proof -
    have "\<forall>x\<in>set (concat spaceRunes). \<not> edgeByte x" by code_simp
    then show ?thesis using that e by blast
  qed
  then have c: "\<forall>r\<in>set spaceRunes. c \<notin> set r" "\<forall>r\<in>set (map rev spaceRunes). c \<notin> set r" by auto
  show "runeLenIn spaceRunes (c # t) = 0" "runeLenIn (map rev spaceRunes) (c # t) = 0"
    unfolding runeLenIn_0 [OF spaceRunes_nonempty(1)] runeLenIn_0 [OF spaceRunes_nonempty(2)]
    using c spaceRunes_nonempty hasPrefix_hd by blast+
qed

lemma trim_blank:
  "trimLeftSpace (CHR '' '' # t) = trimLeftSpace t" "trimRightSpace (t @ [CHR '' '']) = trimRightSpace t"
  unfolding trimLeftSpace_def trimRightSpace_def
  by (subst trimRunes.simps, simp add: spaceRunes_def)+

lemma trim_edges:
  assumes "t \<noteq> []" "edgeByte (hd t)" "edgeByte (last t)" "p \<in> {[], '' ''}" "q \<in> {[], '' ''}"
  shows "trimSpace (p @ t @ q) = t" "strIndex (p @ t @ q) t = Some (length p)"
proof -
  have l: "trimLeftSpace (t @ q) = t @ q"
    using assms(1,2) unfolding trimLeftSpace_def by (cases t) (auto intro: trimRunes_fix runeLenIn_edge)
  have "trimRightSpace t = t"
    using assms(1,3) unfolding trimRightSpace_def
    by (cases "rev t") (auto simp: trimRunes_fix runeLenIn_edge hd_rev [symmetric])
  then have r: "trimRightSpace (t @ q) = t" using assms(5) by (auto simp: trim_blank)
  show "trimSpace (p @ t @ q) = t" using assms(4) l r by (auto simp: trimSpace_def trim_blank)
  have "\<not> hasPrefix (CHR '' '' # t @ q) t" using assms(1,2) by (cases t) (auto simp: edgeByte_def)
  then show "strIndex (p @ t @ q) t = Some (length p)"
    using assms(4) by (auto simp: strIndex_0 strIndex_skip)
qed

lemma renderCmd_edges:
  "isCmd ws \<Longrightarrow> renderCmd ws \<noteq> [] \<and> edgeByte (hd (renderCmd ws)) \<and> edgeByte (last (renderCmd ws))"
proof (induction ws)
  case (Cons w ws)
  then show ?case by (cases ws) (auto simp: isCmd_def isWord_def renderCmd_def)
qed (simp add: isCmd_def)

lemma flush_cmd:
  assumes "isCmd ws" "cmd = pre @ p @ renderCmd ws @ q @ post" "p \<in> {[], '' ''}" "q \<in> {[], '' ''}"
  shows "flushSegment cmd (length pre) (length pre + length p + length (renderCmd ws) + length q) =
         [\<lparr>sg_text = renderCmd ws, sg_offset = length pre + length p\<rparr>]"
proof -
  have "take (length p + length (renderCmd ws) + length q) (p @ renderCmd ws @ q @ post) = p @ renderCmd ws @ q"
    by simp
  then show ?thesis
    using trim_edges [OF _ _ _ assms(3,4), of "renderCmd ws"] renderCmd_edges [OF assms(1)] assms(2)
    by (simp add: flushSegment_def add.assoc)
qed

lemma delim_step:
  assumes "isDelimiter dl"
  shows "delimiterWidth (dl @ CHR '' '' # r) = length dl" "dl \<noteq> []" "hd dl \<notin> {CHR 0x5C, CHR 0x27, CHR 0x22}"
  using assms by (auto simp: isDelimiter_def)

lemma pipeLoop_delim:
  assumes "isDelimiter dl"
  shows "pipeLoop cmd st i False False False (dl @ CHR '' '' # r) =
    flushSegment cmd st i @ pipeLoop cmd (i + length dl) (i + length dl) False False False (CHR '' '' # r)"
proof (cases dl)
  case (Cons c dl')
  then show ?thesis
    using delim_step(1) [OF assms, of r] delim_step(2,3) [OF assms] by (simp add: Let_def del: delimiterWidth.simps)
qed (use delim_step [OF assms] in simp)

lemma pipeLoop_blank: "pipeLoop cmd st i False False False (CHR '' '' # r) = pipeLoop cmd st (i + 1) False False False r"
  by simp

lemma pipeLoop_line:
  assumes "isLine cs" "cs \<noteq> []" "p \<in> {[], '' ''}" "cmd = pre @ p @ renderLine cs"
  shows "pipeLoop cmd (length pre) (length pre + length p) False False False (renderLine cs) =
         segmentsAt (length pre + length p) cs"
  using assms
proof (induction cs arbitrary: pre p rule: renderLine.induct)
  case (2 ws dl)
  then have c: "isCmd ws" by (simp add: isLine_def)
  then have l: "list_all isWord ws" by (simp add: isCmd_def)
  show ?case
    using pipeLoop_cmd [OF l, of cmd _ _ "[]"] flush_cmd [OF c, of cmd pre p "[]" "[]"] "2.prems"
    by (simp add: add.assoc)
next
  case (3 ws dl c cs)
  then have c: "isCmd ws" and dl: "isDelimiter dl" and rest: "isLine (c # cs)" by (auto simp: isLine_def)
  then have l: "list_all isWord ws" by (simp add: isCmd_def)
  let ?pre = "pre @ p @ renderCmd ws @ '' '' @ dl"
  have cmd: "cmd = ?pre @ '' '' @ renderLine (c # cs)" using "3.prems"(4) by simp
  have fl: "flushSegment cmd (length pre) (length pre + length p + length (renderCmd ws) + 1) =
         [\<lparr>sg_text = renderCmd ws, sg_offset = length pre + length p\<rparr>]"
    using flush_cmd [OF c, of cmd pre p "'' ''" "dl @ '' '' @ renderLine (c # cs)"] "3.prems"(3,4) by simp
  have "pipeLoop cmd (length pre) (length pre + length p) False False False (renderLine ((ws, dl) # c # cs)) =
      flushSegment cmd (length pre) (length pre + length p + length (renderCmd ws) + 1)
      @ pipeLoop cmd (length ?pre) (length ?pre + 1) False False False (renderLine (c # cs))"
    using pipeLoop_cmd [OF l] pipeLoop_delim [OF dl] by (simp add: pipeLoop_blank add.assoc del: pipeLoop.simps)
  also have "pipeLoop cmd (length ?pre) (length ?pre + 1) False False False (renderLine (c # cs)) =
      segmentsAt (length ?pre + 1) (c # cs)"
    using "3.IH" [OF rest _ _ cmd] by simp
  finally show ?case unfolding fl by (simp add: add.assoc)
qed simp

lemma split_line: "isLine cs \<Longrightarrow> cs \<noteq> [] \<Longrightarrow> splitPipelineWithOffsets (renderLine cs) = segmentsAt 0 cs"
  using pipeLoop_line [of cs "[]" "renderLine cs" "[]"] by (simp add: splitPipelineWithOffsets_def)

text \<open>
  C17. Reading back a rendered command line: whatever the arguments contain (blanks, quotes,
  separators), quoting them and joining the commands with the shell's separators gives a line that
  the scanner splits into exactly those commands, and each command into exactly its arguments.
\<close>

theorem shell_scan_roundtrip:
  assumes "cmds \<noteq> []" "list_all (\<lambda>(args, dl). args \<noteq> [] \<and> isDelimiter dl) cmds"
  shows "map (\<lambda>sg. map tk_value (tokenizeWithOffsets (sg_text sg) (sg_offset sg)))
           (splitPipelineWithOffsets (renderLine (map (\<lambda>(args, dl). (map shQuote args, dl)) cmds)))
         = map fst cmds"
proof -
  let ?cs = "map (\<lambda>(args, dl). (map shQuote args, dl)) cmds"
  have line: "isLine ?cs" using assms(2) by (auto simp: isLine_def isCmd_def list_all_iff)
  have val: "map tk_value (locate b (map shQuote args)) = args" for b args
    by (induction args arbitrary: b) auto
  have tok: "tokenizeWithOffsets (renderCmd (map shQuote args)) b = locate b (map shQuote args)" for b args
    by (rule tokenize_cmd) (simp add: list_all_iff)
  have "map (\<lambda>sg. map tk_value (tokenizeWithOffsets (sg_text sg) (sg_offset sg))) (segmentsAt b ?cs) = map fst cmds" for b
    by (induction cmds arbitrary: b) (auto simp: tok val)
  then show ?thesis using split_line [OF line] assms(1) by simp
qed

theorem shell_scan_roundtrip_witness:
  "map (\<lambda>sg. map tk_value (tokenizeWithOffsets (sg_text sg) (sg_offset sg)))
     (splitPipelineWithOffsets (renderLine (map (\<lambda>(args, dl). (map shQuote args, dl))
        [([''echo'', ''a; b | c''], ''|''), ([''psql'', ''-c'', [CHR 0x27, CHR 0x22]], '';'')])))
   = [[''echo'', ''a; b | c''], [''psql'', ''-c'', [CHR 0x27, CHR 0x22]]]"
  using shell_scan_roundtrip [of "[([''echo'', ''a; b | c''], ''|''), ([''psql'', ''-c'', [CHR 0x27, CHR 0x22]], '';'')]"]
  by (simp add: isDelimiter_def)

section \<open>Splitting statements is idempotent\<close>

text \<open>The automaton behind the loop: no statement separator is met from the given state on.\<close>

function oneStmt :: "bool \<Rightarrow> bool \<Rightarrow> string \<Rightarrow> bool" where
  "oneStmt inSingle inDouble [] = True"
| "oneStmt inSingle inDouble (ch # rest) =
     (if \<not> inSingle \<and> \<not> inDouble \<and> ch = CHR '';'' then False
      else case sqlStep inSingle inDouble ch rest of (n, s, d) \<Rightarrow> oneStmt s d (drop n rest))"
  by pat_completeness auto
termination
  by (relation "measure (\<lambda>(s, d, rest). length rest)") auto

lemma sqlLoop_oneStmt: "oneStmt s d rest \<Longrightarrow> sqlLoop s d cur rest = flushStmt (cur @ rest)"
proof (induction s d rest arbitrary: cur rule: oneStmt.induct)
  case (2 s d ch rest)
  obtain n s' d' where st: "sqlStep s d ch rest = (n, s', d')" by (cases "sqlStep s d ch rest")
  from "2.prems" have sep: "\<not> (\<not> s \<and> \<not> d \<and> ch = CHR '';'')" and "oneStmt s' d' (drop n rest)"
    by (auto simp: st split: if_splits)
  then have "sqlLoop s' d' (cur @ ch # take n rest) (drop n rest) = flushStmt (cur @ ch # rest)"
    using "2.IH" [OF sep st [symmetric] refl] by simp
  then show ?case using sep by (auto simp: st)
qed simp

text \<open>
  A step looks at one byte beyond its own, except in a comment: cutting the text where the next
  byte is neither a quote nor a dash changes at most how far a comment reaches past the cut.
\<close>

lemma sqlStep_prefix:
  assumes "v = [] \<or> hd v \<notin> {CHR 0x27, CHR ''-''}"
  shows "sqlStep s d ch u = sqlStep s d ch (u @ v) \<or>
         (fst (sqlStep s d ch u) \<ge> length u \<and> snd (sqlStep s d ch u) = snd (sqlStep s d ch (u @ v)))"
proof -
  have pre: "hasPrefix (u @ v) [c] = hasPrefix u [c]" if "c \<in> {CHR 0x27, CHR ''-''}" for c
    using assms that by (cases u; cases v) auto
  have tw: "length (takeWhile (\<lambda>c. c \<noteq> CHR 0x0A) u) = length u
      \<or> takeWhile (\<lambda>c. c \<noteq> CHR 0x0A) (u @ v) = takeWhile (\<lambda>c. c \<noteq> CHR 0x0A) u"
    by (metis takeWhile_append1 takeWhile_eq_all_conv)
  show ?thesis using tw by (auto simp: sqlStep_def pre)
qed

lemma oneStmt_prefix:
  "oneStmt s d (u @ v) \<Longrightarrow> v = [] \<or> hd v \<notin> {CHR 0x27, CHR ''-''} \<Longrightarrow> oneStmt s d u"
proof (induction s d u rule: oneStmt.induct)
  case (2 s d ch rest)
  obtain n s' d' where st: "sqlStep s d ch rest = (n, s', d')" by (cases "sqlStep s d ch rest")
  obtain n2 s2 d2 where st2: "sqlStep s d ch (rest @ v) = (n2, s2, d2)" by (cases "sqlStep s d ch (rest @ v)")
  note alt = sqlStep_prefix [OF "2.prems"(2), of s d ch rest, unfolded st st2]
  show ?case
  proof (cases "n \<ge> length rest")
    case True
    then show ?thesis using "2.prems"(1) st by (auto split: if_splits)
  next
    case False
    then have "(n2, s2, d2) = (n, s', d')" using alt by auto
    then show ?thesis using 2 st st2 False by (auto split: if_splits)
  qed
qed simp

lemma oneStmt_skip:
  "\<forall>c\<in>set w. c \<notin> {CHR 0x27, CHR 0x22, CHR ''-'', CHR '';''} \<Longrightarrow> oneStmt False False (w @ u) = oneStmt False False u"
  by (induction w) (auto simp: sqlStep_def)

text \<open>A step depends only on the bytes it consumes and on the next one.\<close>

lemma sqlStep_cut:
  assumes "sqlStep s d ch (x @ r @ r') = (n, s', d')" and "length x = min n (length (x @ r @ r'))"
  shows "sqlStep s d ch (x @ r) = (n, s', d')"
proof -
  let ?tw = "takeWhile (\<lambda>c. c \<noteq> CHR 0x0A)"
  have pre: "hasPrefix (x @ r) [c] = hasPrefix (x @ r @ r') [c]" if "x @ r \<noteq> []" for c
    using that by (cases x; cases r) auto
  have lx: "length x = n \<or> (r = [] \<and> r' = [])"
  proof (cases "n \<le> length (x @ r @ r')")
    case True
    then have "length x = n" using assms(2) by (metis min.absorb1)
    then show ?thesis ..
  next
    case False
    then have "length x = length (x @ r @ r')" using assms(2) by (metis min.absorb2 nat_le_linear)
    then show ?thesis by simp
  qed
  have tw: "?tw (x @ r) = ?tw (x @ r @ r')" if n: "n = length (?tw (x @ r @ r')) + 1"
  proof (cases "r = [] \<and> r' = []")
    case False
    have "\<exists>c\<in>set x. c = CHR 0x0A"
    proof (rule ccontr)
      assume "\<not> ?thesis"
      then have "length x \<le> length (?tw (x @ r @ r'))" by (subst takeWhile_append2) auto
      then show False using lx n False by simp
    qed
    then have "?tw (x @ q) = ?tw x" for q by (auto intro: takeWhile_append1)
    then show ?thesis by (simp only:)
  qed simp
  show ?thesis
  proof (cases "x @ r = []")
    case True
    then have "n = 0 \<or> r' = []" using lx by auto
    then show ?thesis using assms(1) True by (auto simp: sqlStep_def split: if_splits)
  next
    case False
    show ?thesis using assms(1) tw unfolding sqlStep_def pre [OF False] by (auto split: if_splits)
  qed
qed

text \<open>
  Every statement the loop emits is a trimmed stretch of text in which the automaton, started
  outside quotes, meets no separator: the invariant relates the text since the last separator to
  the current flags.
\<close>

lemma sqlLoop_parts:
  "(\<And>r r'. rest = r @ r' \<Longrightarrow> oneStmt False False (cur @ r) = oneStmt s d r) \<Longrightarrow>
   x \<in> set (sqlLoop s d cur rest) \<Longrightarrow> \<exists>raw. oneStmt False False raw \<and> x = trimSpace raw \<and> x \<noteq> []"
proof (induction s d cur rest rule: sqlLoop.induct)
  case (1 s d cur)
  have "oneStmt False False cur" using "1.prems"(1) [of "[]" "[]"] by simp
  then show ?case using "1.prems"(2) by (auto simp: flushStmt_def Let_def split: if_splits)
next
  case (2 s d cur ch rest)
  have cur: "oneStmt False False cur" using "2.prems"(1) [of "[]"] by simp
  show ?case
  proof (cases "\<not> s \<and> \<not> d \<and> ch = CHR '';''")
    case True
    then show ?thesis using "2.prems"(2) "2.IH"(1) [OF True] cur
      by (auto simp: flushStmt_def Let_def split: if_splits)
  next
    case False
    obtain n s' d' where st: "sqlStep s d ch rest = (n, s', d')" by (cases "sqlStep s d ch rest")
    have "oneStmt False False ((cur @ ch # take n rest) @ r) = oneStmt s' d' r" if "drop n rest = r @ r'" for r r'
    proof -
      have rest: "rest = take n rest @ r @ r'" using that by (metis append_take_drop_id)
      then have "sqlStep s d ch (take n rest @ r) = (n, s', d')"
        using sqlStep_cut [of s d ch "take n rest" r r' n s' d'] st
        by (metis length_take min.commute)
      moreover have "drop n (take n rest @ r) = r"
        using that by (cases "n \<le> length rest") auto
      moreover have "oneStmt False False (cur @ ch # take n rest @ r) = oneStmt s d (ch # take n rest @ r)"
        using "2.prems"(1) [of "ch # take n rest @ r" r'] rest by simp
      ultimately show ?thesis using False by auto
    qed
    then show ?thesis using "2.IH"(2) [OF False st [symmetric] refl] "2.prems"(2) False st by auto
  qed
qed

text \<open>White space contains none of the bytes the automaton looks at.\<close>

lemma spaceRunes_bytes:
  "r \<in> set spaceRunes \<Longrightarrow> c \<in> set r \<Longrightarrow> c \<notin> {CHR 0x27, CHR 0x22, CHR ''-'', CHR '';''}"
  unfolding spaceRunes_def by auto

lemma runeLenIn_bytes: "c \<in> set (take (runeLenIn rs s) s) \<Longrightarrow> \<exists>r\<in>set rs. c \<in> set r"
  by (induction rs) (auto simp: hasPrefix_def split: if_splits)

lemma trimRunes_bytes: "\<exists>t. s = t @ trimRunes rs s \<and> (\<forall>c\<in>set t. \<exists>r\<in>set rs. c \<in> set r)"
proof (induction rs s rule: trimRunes.induct)
  case (1 rs s)
  show ?case
  proof (cases "s = [] \<or> runeLenIn rs s = 0")
    case True
    then show ?thesis by (simp add: trimRunes.simps [of rs s])
  next
    case False
    with "1.IH" obtain t where t: "drop (runeLenIn rs s) s = t @ trimRunes rs (drop (runeLenIn rs s) s)"
      "\<forall>c\<in>set t. \<exists>r\<in>set rs. c \<in> set r" by blast
    have "s = (take (runeLenIn rs s) s @ t) @ trimRunes rs s"
      using False t(1) by (metis append_assoc append_take_drop_id trimRunes.simps)
    moreover have "\<forall>c\<in>set (take (runeLenIn rs s) s @ t). \<exists>r\<in>set rs. c \<in> set r"
      using t(2) runeLenIn_bytes by fastforce
    ultimately show ?thesis by blast
  qed
qed

lemma trimSpace_bytes:
  obtains u v where "s = u @ trimSpace s @ v" "\<forall>c\<in>set u \<union> set v. \<exists>r\<in>set spaceRunes. c \<in> set r"
proof -
  obtain u where u: "s = u @ trimLeftSpace s" "\<forall>c\<in>set u. \<exists>r\<in>set spaceRunes. c \<in> set r"
    using trimRunes_bytes [of s spaceRunes] by (auto simp: trimLeftSpace_def)
  obtain w where w: "rev (trimLeftSpace s) = w @ trimRunes (map rev spaceRunes) (rev (trimLeftSpace s))"
    "\<forall>c\<in>set w. \<exists>r\<in>set (map rev spaceRunes). c \<in> set r" using trimRunes_bytes by blast
  have "trimLeftSpace s = trimSpace s @ rev w"
    using w(1) unfolding trimSpace_def trimRightSpace_def by (metis rev_append rev_rev_ident)
  then have "s = u @ trimSpace s @ rev w" using u(1) by simp
  moreover have "\<forall>c\<in>set u \<union> set (rev w). \<exists>r\<in>set spaceRunes. c \<in> set r" using u(2) w(2) by auto
  ultimately show thesis using that by blast
qed

lemma oneStmt_trim:
  assumes "oneStmt False False raw" shows "oneStmt False False (trimSpace raw)"
proof -
  obtain u v where uv: "raw = u @ trimSpace raw @ v" "\<forall>c\<in>set u \<union> set v. \<exists>r\<in>set spaceRunes. c \<in> set r"
    by (rule trimSpace_bytes)
  have sp: "c \<notin> {CHR 0x27, CHR 0x22, CHR ''-'', CHR '';''}" if "c \<in> set u \<union> set v" for c
    using uv(2) that spaceRunes_bytes by blast
  have "oneStmt False False (trimSpace raw @ v)" using assms uv(1) sp by (metis UnI1 oneStmt_skip)
  then show ?thesis by (rule oneStmt_prefix) (use sp in \<open>auto simp: hd_in_set\<close>)
qed

lemma split_parts:
  assumes "s \<in> set (splitSQLStatements q)" shows "oneStmt False False s" "trimSpace s = s" "s \<noteq> []"
proof -
  obtain raw where "oneStmt False False raw" "s = trimSpace raw" "s \<noteq> []"
    using sqlLoop_parts [of q "[]" False False s] assms by (auto simp: splitSQLStatements_def)
  then show "oneStmt False False s" "trimSpace s = s" "s \<noteq> []" using oneStmt_trim by simp_all
qed

text \<open>
  A statement the guard hands to the database holds no further statement: it is non-empty,
  has no white space at either end, and splitting it again gives that statement alone.
\<close>

theorem split_sql_idempotent:
  assumes "s \<in> set (splitSQLStatements q)"
  shows "splitSQLStatements s = [s] \<and> s \<noteq> [] \<and> trimSpace s = s"
  using split_parts [OF assms] sqlLoop_oneStmt [of False False s "[]"]
  by (simp add: splitSQLStatements_def flushStmt_def)

theorem split_sql_idempotent_witness:
  "splitSQLStatements ''SELECT a FROM t'' = [''SELECT a FROM t'']"
proof -
  have "''SELECT a FROM t'' \<in> set (splitSQLStatements ''SELECT a FROM t; SELECT 1 -- x; y'')" by code_simp
  then show ?thesis using split_sql_idempotent by blast
qed

end
