(* ===== verification/GoPath.thy ===== *)
theory GoPath
  imports ShellWords
begin

text \<open>
  Go's \<^verbatim>\<open>path/filepath\<close> on Unix: \<^verbatim>\<open>Clean\<close>, \<^verbatim>\<open>Dir\<close>, \<^verbatim>\<open>Join\<close>, \<^verbatim>\<open>Abs\<close>, and the view of a clean
  absolute path as the list of its components, on which directory and base name are
  \<^const>\<open>butlast\<close> and \<^const>\<open>last\<close>.
\<close>

section \<open>Definitions\<close>

text \<open>The elements of a path are processed left to right; \<open>out\<close> is the result so far, reversed.\<close>

fun cleanLoop :: "bool \<Rightarrow> string list \<Rightarrow> string list \<Rightarrow> string list" where
  "cleanLoop rooted out [] = rev out"
| "cleanLoop rooted out (c # cs) =
     (if c = [] \<or> c = ''.'' then cleanLoop rooted out cs
      else if c = ''..'' then
        (if out \<noteq> [] \<and> hd out \<noteq> ''..'' then cleanLoop rooted (tl out) cs
         else if rooted then cleanLoop rooted out cs else cleanLoop rooted (c # out) cs)
      else cleanLoop rooted (c # out) cs)"

definition pathClean :: "string \<Rightarrow> string" where
  "pathClean p = (let rooted = hasPrefix p ''/''; s = joinWith ''/'' (cleanLoop rooted [] (splitOn CHR ''/'' p))
     in if rooted then CHR ''/'' # s else if s = [] then ''.'' else s)"

definition dirPart :: "string \<Rightarrow> string" where
  "dirPart p = rev (dropWhile (\<lambda>c. c \<noteq> CHR ''/'') (rev p))"

definition pathDir :: "string \<Rightarrow> string" where
  "pathDir p = pathClean (dirPart p)"

definition pathJoin :: "string \<Rightarrow> string \<Rightarrow> string" where
  "pathJoin a b = (if a \<noteq> [] then pathClean (a @ ''/'' @ b) else if b \<noteq> [] then pathClean b else [])"

text \<open>\<^verbatim>\<open>filepath.Abs\<close>; the working directory is \<^const>\<open>None\<close> where \<^verbatim>\<open>os.Getwd\<close> fails.\<close>

definition pathAbs :: "string option \<Rightarrow> string \<Rightarrow> string option" where
  "pathAbs wd p = (if hasPrefix p ''/'' then Some (pathClean p) else map_option (\<lambda>d. pathJoin d p) wd)"

section \<open>Dir makes progress\<close>

definition elemsWeight :: "string list \<Rightarrow> nat" where
  "elemsWeight cs = sum_list (map (\<lambda>c. length c + 1) cs)"

lemma elemsWeight_simps [simp]:
  "elemsWeight [] = 0" "elemsWeight (c # cs) = length c + 1 + elemsWeight cs"
  "elemsWeight (xs @ ys) = elemsWeight xs + elemsWeight ys"
  by (simp_all add: elemsWeight_def)

lemma elemsWeight_rev: "elemsWeight (rev cs) = elemsWeight cs"
  by (induction cs) auto

lemma cleanLoop_weight: "elemsWeight (cleanLoop r out cs) \<le> elemsWeight out + elemsWeight (filter (\<lambda>c. c \<noteq> []) cs)"
proof (induction r out cs rule: cleanLoop.induct)
  case (1 r out)
  then show ?case by (simp add: elemsWeight_rev)
next
  case (2 r out c cs)
  have "out \<noteq> [] \<Longrightarrow> elemsWeight (tl out) \<le> elemsWeight out" by (cases out) auto
  then show ?case using 2 by (auto split: if_splits)
qed

lemma length_joinWith: "length (joinWith ''/'' cs) = elemsWeight cs - 1"
  by (induction "''/''" cs rule: joinWith.induct) auto

lemma splitOn_weight: "elemsWeight (splitOn sep s) = length s + 1"
proof (induction s)
  case (Cons c s)
  then show ?case by (cases "splitOn sep s") auto
qed simp

lemma splitOn_append: "splitOn sep (s @ sep # t) = splitOn sep s @ splitOn sep t"
proof (induction s)
  case (Cons c s)
  then show ?case by (cases "splitOn sep s") auto
qed simp

lemma filter_weight: "elemsWeight (filter P cs) \<le> elemsWeight cs"
  by (induction cs) auto

text \<open>Cleaning a path that ends in a slash shortens it, except for the root.\<close>

lemma length_pathClean_slash:
  assumes "q \<noteq> []" shows "length (pathClean (q @ ''/'')) < length (q @ ''/'') "
proof -
  let ?cs = "cleanLoop (hasPrefix (q @ ''/'') ''/'') [] (splitOn CHR ''/'' (q @ ''/''))"
  have split: "splitOn CHR ''/'' (q @ ''/'') = splitOn CHR ''/'' q @ [[]]" using splitOn_append [of _ q "[]"] by simp
  have w: "elemsWeight ?cs \<le> elemsWeight (filter (\<lambda>c. c \<noteq> []) (splitOn CHR ''/'' q))"
    using cleanLoop_weight [of _ "[]" "splitOn CHR ''/'' (q @ ''/'')"] unfolding split by simp
  show ?thesis
  proof (cases "hasPrefix q ''/''")
    case True
    then obtain q' where q: "q = CHR ''/'' # q'" by (auto simp: hasPrefix_iff)
    have "elemsWeight ?cs \<le> length q" using w filter_weight [of "\<lambda>c. c \<noteq> []" "splitOn CHR ''/'' q'"] splitOn_weight [of "CHR ''/''" q']
      unfolding q by simp
    then show ?thesis using True by (simp add: pathClean_def length_joinWith q)
  next
    case False
    then have "\<not> hasPrefix (q @ ''/'') ''/''" using assms by (cases q) auto
    moreover have "elemsWeight ?cs \<le> length q + 1"
      using w filter_weight [of "\<lambda>c. c \<noteq> []" "splitOn CHR ''/'' q"] splitOn_weight [of "CHR ''/''" q] by simp
    ultimately show ?thesis using assms by (cases q) (auto simp: pathClean_def length_joinWith Let_def)
  qed
qed

lemma dirPart_cases:
  obtains "dirPart p = []" | q where "dirPart p = q @ ''/''" "length (dirPart p) \<le> length p"
proof -
  have len: "length (dirPart p) \<le> length p" using length_dropWhile_le [of "\<lambda>c. c \<noteq> CHR ''/''" "rev p"] by (simp add: dirPart_def)
  show thesis
  proof (cases "dropWhile (\<lambda>c. c \<noteq> CHR ''/'') (rev p)")
    case Nil
    then show thesis using that(1) by (simp add: dirPart_def)
  next
    case (Cons c r)
    then have "c = CHR ''/''" by (simp add: dropWhile_eq_Cons_conv)
    then have "dirPart p = rev r @ ''/''" using Cons by (simp add: dirPart_def)
    then show thesis using that(2) len by blast
  qed
qed

definition dirMeasure :: "string \<Rightarrow> nat" where
  "dirMeasure p = (if p = ''.'' then 0 else length p + 1)"

lemma pathDir_decreases: "p \<noteq> ''/'' \<Longrightarrow> p \<noteq> ''.'' \<Longrightarrow> dirMeasure (pathDir p) < dirMeasure p"
proof (cases rule: dirPart_cases [of p])
  case 1
  assume "p \<noteq> ''.''"
  moreover have "pathDir p = ''.''" using 1 by (simp add: pathDir_def pathClean_def)
  ultimately show ?thesis by (simp add: dirMeasure_def)
next
  case (2 q)
  assume p: "p \<noteq> ''/''" "p \<noteq> ''.''"
  show ?thesis
  proof (cases "q = []")
    case True
    have "length p \<noteq> 1"
    proof
      assume "length p = 1"
      then obtain c where "p = [c]" by (cases p) auto
      then show False using 2 True p by (auto simp: dirPart_def split: if_splits)
    qed
    then have "length p > 1" using 2 True by simp
    moreover have "pathDir p = ''/''" using 2 True by (simp add: pathDir_def pathClean_def)
    ultimately show ?thesis using p by (simp add: dirMeasure_def)
  next
    case False
    then show ?thesis using length_pathClean_slash [OF False] 2 p by (auto simp: dirMeasure_def pathDir_def)
  qed
qed

section \<open>Clean paths as component lists\<close>

definition isElem :: "string \<Rightarrow> bool" where
  "isElem c = (c \<noteq> [] \<and> c \<noteq> ''.'' \<and> c \<noteq> ''..'' \<and> CHR ''/'' \<notin> set c)"

definition absOf :: "string list \<Rightarrow> string" where
  "absOf cs = CHR ''/'' # joinWith ''/'' cs"

definition pathElems :: "string \<Rightarrow> string list" where
  "pathElems p = cleanLoop True [] (splitOn CHR ''/'' p)"

lemma pathClean_rooted: "hasPrefix p ''/'' \<Longrightarrow> pathClean p = absOf (pathElems p)"
  by (simp add: pathClean_def absOf_def pathElems_def)

lemma cleanLoop_elems:
  "list_all isElem out \<Longrightarrow> \<forall>c\<in>set cs. CHR ''/'' \<notin> set c \<Longrightarrow> list_all isElem (cleanLoop True out cs)"
proof (induction True out cs rule: cleanLoop.induct)
  case (2 out c cs)
  have "out \<noteq> [] \<Longrightarrow> hd out \<noteq> ''..''" using "2.prems" by (cases out) (auto simp: isElem_def)
  moreover have "list_all isElem (tl out)" using "2.prems" by (cases out) auto
  ultimately show ?case using 2 by (auto simp: isElem_def)
qed (auto simp: list_all_iff)

lemma pathElems_elem: "list_all isElem (pathElems p)"
  unfolding pathElems_def by (rule cleanLoop_elems) (use splitOn_parts in auto)

lemma cleanLoop_id: "list_all isElem cs \<Longrightarrow> cleanLoop r out cs = rev out @ cs"
  by (induction r out cs rule: cleanLoop.induct) (auto simp: isElem_def)

lemma cleanLoop_prefix: "list_all isElem es \<Longrightarrow> cleanLoop r out (es @ cs) = cleanLoop r (rev es @ out) cs"
  by (induction es arbitrary: out) (auto simp: isElem_def)

lemma splitOn_free: "sep \<notin> set c \<Longrightarrow> splitOn sep c = [c]"
  by (induction c) auto

lemma splitOn_join: "cs \<noteq> [] \<Longrightarrow> list_all isElem cs \<Longrightarrow> splitOn CHR ''/'' (joinWith ''/'' cs) = cs"
  by (induction "''/''" cs rule: joinWith.induct) (auto simp: isElem_def splitOn_free splitOn_append)

lemma pathElems_join:
  assumes "list_all isElem ds" shows "pathElems (p @ CHR ''/'' # joinWith ''/'' ds) = pathElems p @ ds"
proof -
  have loop: "cleanLoop True out (xs @ ds) = cleanLoop True out xs @ ds" for out xs
    using assms by (induction True out xs rule: cleanLoop.induct) (auto simp: cleanLoop_id)
  have nil: "cleanLoop True out (xs @ [[]]) = cleanLoop True out xs" for out xs
    by (induction True out xs rule: cleanLoop.induct) auto
  show ?thesis
    using splitOn_append [of "CHR ''/''" p] loop nil splitOn_join [OF _ assms]
    by (cases "ds = []") (auto simp: pathElems_def)
qed

lemma pathElems_absOf [simp]: "list_all isElem cs \<Longrightarrow> pathElems (absOf cs) = cs"
  using pathElems_join [of cs "[]"] by (simp add: absOf_def) (simp add: pathElems_def)

lemma absOf_rooted [simp]: "hasPrefix (absOf cs @ t) ''/''" "hasPrefix (absOf cs) ''/''" "absOf cs \<noteq> []"
  by (simp_all add: absOf_def)

lemma pathClean_absOf [simp]: "list_all isElem cs \<Longrightarrow> pathClean (absOf cs) = absOf cs"
  by (simp add: pathClean_rooted)

lemma joinWith_snoc: "joinWith ''/'' (cs @ [c]) = (if cs = [] then c else joinWith ''/'' cs @ CHR ''/'' # c)"
proof (induction cs)
  case (Cons x cs)
  then show ?case by (cases cs) auto
qed simp

lemma takeWhile_elem: "isElem c \<Longrightarrow> takeWhile (\<lambda>c. c \<noteq> CHR ''/'') (rev c @ CHR ''/'' # r) = rev c"
  "isElem c \<Longrightarrow> dropWhile (\<lambda>c. c \<noteq> CHR ''/'') (rev c @ CHR ''/'' # r) = CHR ''/'' # r"
  unfolding isElem_def
  by (subst takeWhile_append2; auto) (subst dropWhile_append2; auto)

lemma absOf_snoc: "absOf (cs @ [c]) = (if cs = [] then [] else absOf cs) @ CHR ''/'' # c"
  by (simp add: absOf_def joinWith_snoc)

lemma pathDir_absOf: "list_all isElem cs \<Longrightarrow> isElem c \<Longrightarrow> pathDir (absOf (cs @ [c])) = absOf cs"
proof -
  assume cs: "list_all isElem cs" and c: "isElem c"
  have "dirPart (absOf (cs @ [c])) = (if cs = [] then [] else absOf cs) @ ''/''"
    unfolding dirPart_def absOf_snoc using c by (simp add: takeWhile_elem)
  moreover have "pathElems (absOf cs @ ''/'') = cs" using pathElems_join [of "[]" "absOf cs"] cs by simp
  ultimately show ?thesis using cs
    by (cases "cs = []") (auto simp: pathDir_def pathClean_rooted, simp_all add: absOf_def pathElems_def pathClean_def)
qed

lemma pathBase_absOf: "isElem c \<Longrightarrow> pathBase (absOf (cs @ [c])) = c"
proof -
  assume c: "isElem c"
  let ?p = "if cs = [] then [] else absOf cs"
  have "c \<noteq> []" using c by (simp add: isElem_def)
  moreover have "last c \<noteq> CHR ''/''" using c last_in_set unfolding isElem_def by metis
  ultimately have "dropWhile (\<lambda>c. c = CHR ''/'') (rev (?p @ CHR ''/'' # c)) = rev (?p @ CHR ''/'' # c)"
    by (cases c rule: rev_cases) auto
  then show ?thesis unfolding pathBase_def absOf_snoc Let_def using c \<open>c \<noteq> []\<close> by (simp add: takeWhile_elem)
qed

lemma pathJoin_absOf:
  "list_all isElem es \<Longrightarrow> list_all isElem ds \<Longrightarrow> pathJoin (absOf es) (joinWith ''/'' ds) = absOf (es @ ds)"
  using pathElems_join [of ds "absOf es"] by (simp add: pathJoin_def pathClean_rooted)

lemma pathJoin_rel:
  assumes "isElem c" "list_all isElem ds" "ds \<noteq> []"
  shows "pathJoin c (joinWith ''/'' ds) = joinWith ''/'' (c # ds)"
proof -
  have j: "joinWith ''/'' (c # ds) = c @ CHR ''/'' # joinWith ''/'' ds" using assms(3) by (cases ds) auto
  have "\<not> hasPrefix (joinWith ''/'' (c # ds)) ''/''" "joinWith ''/'' (c # ds) \<noteq> []"
    using assms(1) unfolding j by (cases c; auto simp: isElem_def)+
  moreover have "cleanLoop False [] (splitOn CHR ''/'' (joinWith ''/'' (c # ds))) = c # ds"
    using splitOn_join [of "c # ds"] cleanLoop_id [of "c # ds"] assms by simp
  ultimately have "pathClean (joinWith ''/'' (c # ds)) = joinWith ''/'' (c # ds)" by (simp add: pathClean_def Let_def)
  then show ?thesis using assms(1) j by (simp add: pathJoin_def isElem_def)
qed

end
