(* ===== verification/SqlGuard.thy ===== *)
theory SqlGuard
  imports ShellWords Complex_Main
begin

text \<open>
  The SQL guard of the tool-call hooks (\<^verbatim>\<open>services/eri/pkg/guard/sql.go\<close>): it finds the
  \<^verbatim>\<open>psql\<close> invocations of a shell line, asks a describer backed by PostgreSQL about every
  statement they run, denies whole-table projections and unbounded results, and adds
  \<^verbatim>\<open>-A\<close> to invocations that print aligned tables. The combination of all guards
  (\<^verbatim>\<open>guard.go\<close>) is at the end.

  The database connection (pgx, outside the repository) is a parameter: what
  \<^verbatim>\<open>PrepareAndExplain\<close> and \<^verbatim>\<open>QueryCatalog\<close> answer. EXPLAIN's JSON is taken decoded
  (\<^const>\<open>None\<close> for no or undecodable output) and \<^verbatim>\<open>float64\<close> row estimates as the rational
  numbers they are. The answers are taken not to change during one evaluation (2 s at most).
\<close>

section \<open>Decisions\<close>

datatype DecisionType = DecisionAllow | DecisionDeny

text \<open>The values of a \<^verbatim>\<open>map[string]any\<close>; what the guards build are strings and numbers.\<close>

datatype anyval = AnyStr string | AnyInt int | AnyOther

record Decision =
  d_Decision :: DecisionType
  d_Reason :: string
  d_Overwrite :: "string \<rightharpoonup> anyval"

definition allowDec :: Decision where
  "allowDec = \<lparr>d_Decision = DecisionAllow, d_Reason = [], d_Overwrite = Map.empty\<rparr>"

definition denyDec :: "string \<Rightarrow> Decision" where
  "denyDec r = \<lparr>d_Decision = DecisionDeny, d_Reason = r, d_Overwrite = Map.empty\<rparr>"

lemma dec_sel [simp]:
  "d_Decision allowDec = DecisionAllow" "d_Decision (denyDec r) = DecisionDeny" "d_Reason (denyDec r) = r"
  "d_Overwrite allowDec = Map.empty"
  by (simp_all add: allowDec_def denyDec_def)

section \<open>Statement descriptions\<close>

definition MaxUnboundedPlanRows :: int where "MaxUnboundedPlanRows = 25"
definition MaxSelectLimitRows :: int where "MaxSelectLimitRows = 50"

record SQLColumn =
  col_Name :: string
  TableOID :: int
  AttrNum :: int

datatype SQLPlan = SQLPlan (NodeType: string) (RelationName: string) (PlanRows: rat)
  (planOutput: "string list") (Plans: "SQLPlan list")

record SQLStatementInfo =
  Columns :: "SQLColumn list"
  TableColCounts :: "(int \<times> int) list"
  TableNamesByOID :: "(int \<times> string) list"
  RelColCounts :: "(string \<times> int) list"
  si_Plan :: "SQLPlan option"

text \<open>A missing key of a Go map reads as zero.\<close>

definition countOf :: "('k \<times> int) list \<Rightarrow> 'k \<Rightarrow> int" where
  "countOf m k = (case map_of m k of Some n \<Rightarrow> n | None \<Rightarrow> 0)"

text \<open>The relations of a plan, each once, in the order the walk meets them.\<close>

fun planWalk :: "string list \<Rightarrow> SQLPlan \<Rightarrow> string list" where
  "planWalk rels (SQLPlan nt rel rows out ps) =
     (let rels = (if rel \<noteq> [] \<and> rel \<notin> set rels then rels @ [rel] else rels)
      in foldl planWalk rels ps)"

definition collectPlanRelations :: "SQLPlan option \<Rightarrow> string list" where
  "collectPlanRelations plan = (case plan of None \<Rightarrow> [] | Some p \<Rightarrow> planWalk [] p)"

fun hasAggregatePlanNode :: "SQLPlan \<Rightarrow> bool" where
  "hasAggregatePlanNode (SQLPlan nt rel rows out ps) =
     (nt = ''Aggregate'' \<or> nt = ''Group'' \<or> list_ex hasAggregatePlanNode ps)"

definition hasAggregatePlan :: "SQLPlan option \<Rightarrow> bool" where
  "hasAggregatePlan plan = (case plan of None \<Rightarrow> False | Some p \<Rightarrow> hasAggregatePlanNode p)"

text \<open>The distinct selected attributes per table: \<^verbatim>\<open>selectedByOID\<close> as a list of entries.\<close>

fun selectAttr :: "(int \<times> int list) list \<Rightarrow> SQLColumn list \<Rightarrow> (int \<times> int list) list" where
  "selectAttr m [] = m"
| "selectAttr m (col # cols) =
     (if TableOID col \<noteq> 0 \<and> AttrNum col > 0 then
        (let attrs = (case map_of m (TableOID col) of Some as \<Rightarrow> as | None \<Rightarrow> [])
         in selectAttr ((TableOID col, List.insert (AttrNum col) attrs)
              # filter (\<lambda>(k, as). k \<noteq> TableOID col) m) cols)
      else selectAttr m cols)"

definition isFullTableProjection :: "SQLStatementInfo \<Rightarrow> bool" where
  "isFullTableProjection info =
     (let selectedByOID = selectAttr [] (Columns info);
          hasTableOID = list_ex (\<lambda>col. TableOID col \<noteq> 0 \<and> AttrNum col > 0) (Columns info)
      in list_ex (\<lambda>(oid, attrs). let total = countOf (TableColCounts info) oid
                    in total > 0 \<and> int (length attrs) \<ge> total) selectedByOID
         \<or> (\<not> hasTableOID \<and> \<not> hasAggregatePlan (si_Plan info)
            \<and> list_ex (\<lambda>(rel, total). total > 0 \<and> int (length (Columns info)) = total) (RelColCounts info)))"

text \<open>The verb \<^verbatim>\<open>%.0f\<close>: the nearest integer, ties to even.\<close>

definition fmtFloat0 :: "rat \<Rightarrow> string" where
  "fmtFloat0 r = (let f = \<lfloor>r\<rfloor>; frac = r - of_int f
     in itoa (if frac < 1/2 \<or> (frac = 1/2 \<and> even f) then f else f + 1))"

definition validatePlanLimit :: "SQLPlan option \<Rightarrow> Decision option" where
  "validatePlanLimit plan = (case plan of None \<Rightarrow> None | Some p \<Rightarrow>
     if NodeType p = ''Limit'' then
       (if PlanRows p > of_int MaxSelectLimitRows then
          Some (denyDec (''psql LIMIT exceeds maximum allowed rows ('' @ itoa MaxSelectLimitRows
            @ ''). Use LIMIT <= '' @ itoa MaxSelectLimitRows @ '' to prevent context bloat.''))
        else None)
     else if PlanRows p > of_int MaxUnboundedPlanRows then
       Some (denyDec (''Unbounded multi-row psql SELECT detected (estimated rows: '' @ fmtFloat0 (PlanRows p)
         @ ''). Add a '' @ [CHR 0x27] @ ''LIMIT <N>'' @ [CHR 0x27] @ '' clause (<= '' @ itoa MaxSelectLimitRows
         @ '') to prevent context spillovers.''))
     else None)"

definition validateStatementInfo :: "SQLStatementInfo option \<Rightarrow> Decision option" where
  "validateStatementInfo info = (case info of None \<Rightarrow> None | Some i \<Rightarrow>
     if Columns i = [] then None
     else if (case si_Plan i of Some p \<Rightarrow> NodeType p = ''ModifyTable'' | None \<Rightarrow> False) then None
     else if isFullTableProjection i then
       Some (denyDec (''Wildcard SELECT * is prohibited in psql to prevent context bloat. Available columns: ''
         @ joinWith '', '' (map col_Name (Columns i)) @ ''. Specify only the columns you need.''))
     else validatePlanLimit (si_Plan i))"

section \<open>The PostgreSQL describer\<close>

datatype sqlErr = PgError (pgCode: string) (pgMessage: string) | OtherErr

record sqlCatalogConn =
  PrepareAndExplain :: "string \<Rightarrow> (sqlErr, SQLColumn list \<times> SQLPlan list option) result"
  QueryCatalog :: "string \<Rightarrow> string list \<Rightarrow> (sqlErr, string list list) result"

definition oidQuery :: string where
  "oidQuery = ''SELECT c.relname, count(a.attnum)::text FROM pg_class c JOIN pg_attribute a ON a.attrelid = c.oid WHERE c.oid = $1 AND a.attnum > 0 AND NOT a.attisdropped GROUP BY c.relname''"

definition relQuery :: string where
  "relQuery = ''SELECT count(a.attnum)::text FROM pg_class c JOIN pg_namespace n ON n.oid = c.relnamespace JOIN pg_attribute a ON a.attrelid = c.oid WHERE n.nspname = '' @ [CHR 0x27] @ ''public'' @ [CHR 0x27] @ '' AND c.relname = $1 AND a.attnum > 0 AND NOT a.attisdropped''"

definition columnsQuery :: string where
  "columnsQuery = ''SELECT table_name, column_name, data_type FROM information_schema.columns WHERE table_schema = '' @ [CHR 0x27] @ ''public'' @ [CHR 0x27] @ '' ORDER BY table_name, ordinal_position''"

text \<open>The row count and name the catalog gives for one table, if it gives a usable answer.\<close>

definition oidAnswer :: "sqlCatalogConn \<Rightarrow> int \<Rightarrow> (string \<times> int) option" where
  "oidAnswer conn oid = (case QueryCatalog conn oidQuery [itoa oid] of
       Inr ([name, cnt] # _) \<Rightarrow> map_option (Pair name) (atoi cnt) | _ \<Rightarrow> None)"

definition populateOIDMetadata :: "sqlCatalogConn \<Rightarrow> SQLStatementInfo \<Rightarrow> SQLStatementInfo" where
  "populateOIDMetadata conn info = info\<lparr>
     TableNamesByOID := List.map_filter (\<lambda>(oid, n). map_option (\<lambda>(name, cnt). (oid, name)) (oidAnswer conn oid))
        (TableColCounts info),
     TableColCounts := map (\<lambda>(oid, n). case oidAnswer conn oid of Some (name, cnt) \<Rightarrow> (oid, cnt) | None \<Rightarrow> (oid, n))
        (TableColCounts info)\<rparr>"

definition relAnswer :: "sqlCatalogConn \<Rightarrow> string \<Rightarrow> int option" where
  "relAnswer conn rel = (case QueryCatalog conn relQuery [rel] of
       Inr ([cnt] # _) \<Rightarrow> (case atoi cnt of Some n \<Rightarrow> if n > 0 then Some n else None | None \<Rightarrow> None) | _ \<Rightarrow> None)"

definition populateExplainPlan :: "sqlCatalogConn \<Rightarrow> SQLStatementInfo \<Rightarrow> SQLPlan list option \<Rightarrow> SQLStatementInfo" where
  "populateExplainPlan conn info explain = (case explain of
       Some (plan # _) \<Rightarrow> info\<lparr>si_Plan := Some plan,
          RelColCounts := List.map_filter (\<lambda>rel. map_option (Pair rel) (relAnswer conn rel)) (collectPlanRelations (Some plan))\<rparr>
     | _ \<Rightarrow> info)"

definition Describe :: "sqlCatalogConn option \<Rightarrow> string \<Rightarrow> (sqlErr, SQLStatementInfo option) result" where
  "Describe conn sqlStr = (case conn of None \<Rightarrow> Inr None | Some c \<Rightarrow>
     rbind (PrepareAndExplain c sqlStr) (\<lambda>(cols, explain).
       let oids = remdups (filter (\<lambda>oid. oid \<noteq> 0) (map TableOID cols));
           info = \<lparr>Columns = cols, TableColCounts = map (\<lambda>oid. (oid, 0)) oids, TableNamesByOID = [],
                   RelColCounts = [], si_Plan = None\<rparr>
       in Inr (Some (populateExplainPlan c (populateOIDMetadata c info) explain))))"

definition isSchemaErrCode :: "string \<Rightarrow> bool" where
  "isSchemaErrCode c = (c \<in> {''42703'', ''42P01'', ''42704'', ''42883''})"

text \<open>The tables of the catalog in order with their columns, and those the statement mentions.\<close>

definition tableColsOf :: "string list list \<Rightarrow> string \<Rightarrow> string list" where
  "tableColsOf rows tbl = List.map_filter (\<lambda>r. case r of
       [t, col, dtype] \<Rightarrow> if t = tbl then Some (col @ '' ('' @ dtype @ '')'') else None | _ \<Rightarrow> None) rows"

definition matchedTables :: "string list \<Rightarrow> string list list \<Rightarrow> string list" where
  "matchedTables idents rows = rev (remdups (rev (List.map_filter (\<lambda>r. case r of
       [t, col, dtype] \<Rightarrow> if toLower t \<in> set idents then Some t else None | _ \<Rightarrow> None) rows)))"

definition SchemaHint :: "sqlCatalogConn option \<Rightarrow> string \<Rightarrow> sqlErr \<Rightarrow> string" where
  "SchemaHint conn sqlStr prepareErr = (case prepareErr of OtherErr \<Rightarrow> [] | PgError code msg \<Rightarrow>
     if \<not> isSchemaErrCode code then []
     else case conn of None \<Rightarrow> [] | Some c \<Rightarrow>
       (case QueryCatalog c columnsQuery [] of
          Inl _ \<Rightarrow> ''psql query validation failed ('' @ code @ '': '' @ msg @ '').''
        | Inr rows \<Rightarrow>
            (let matched = matchedTables (extractIdentifierSet sqlStr) rows
             in if matched \<noteq> [] then
                  ''psql query validation failed: '' @ msg @ ''. Valid schema for referenced table(s): ''
                  @ joinWith ''; '' (map (\<lambda>tbl. tbl @ '': ['' @ joinWith '', '' (tableColsOf rows tbl) @ '']'') matched)
                else ''psql query validation failed: '' @ msg
                  @ ''. Verify table and column names against schema.sql before querying.'')))"

section \<open>psql invocations of a command line\<close>

record psqlInvocation =
  insertOffset :: nat
  hasFormatFlag :: bool
  queries :: "string list"

definition addQuery :: "string \<Rightarrow> psqlInvocation \<Rightarrow> psqlInvocation" where
  "addQuery q iv = iv\<lparr>queries := queries iv @ [q]\<rparr>"

definition isFormatFlag :: "string \<Rightarrow> bool" where
  "isFormatFlag t = (t \<in> {''-A'', ''--no-align'', ''--csv'', ''-H'', ''--html''}
     \<or> hasPrefix t ''-Pformat='' \<or> hasPrefix t ''--pset=format='')"

text \<open>The bundled short flags of one token; also how many further tokens they consume.\<close>

fun parseShortPsqlFlags :: "psqlInvocation \<Rightarrow> string \<Rightarrow> locatedToken list \<Rightarrow> psqlInvocation \<times> nat" where
  "parseShortPsqlFlags iv [] ts = (iv, 0)"
| "parseShortPsqlFlags iv (ch # flags) ts =
     (if ch = CHR ''A'' \<or> ch = CHR ''H'' then parseShortPsqlFlags (iv\<lparr>hasFormatFlag := True\<rparr>) flags ts
      else if ch = CHR ''c'' then
        (if flags \<noteq> [] then (addQuery flags iv, 0)
         else if ts \<noteq> [] then (addQuery (tk_value (hd ts)) iv, 1) else (iv, 0))
      else if ch \<in> set ''UdhpvfoLTFRP'' then (iv, if flags = [] \<and> ts \<noteq> [] then 1 else 0)
      else parseShortPsqlFlags iv flags ts)"

text \<open>One iteration of the argument loop: the token, and how many of the tokens after it it consumes.\<close>

definition psqlArgStep :: "psqlInvocation \<Rightarrow> string \<Rightarrow> locatedToken list \<Rightarrow> psqlInvocation \<times> nat" where
  "psqlArgStep iv t ts =
     (if isFormatFlag t then (iv\<lparr>hasFormatFlag := True\<rparr>, 0)
      else if (t = ''-P'' \<or> t = ''--pset'') \<and> ts \<noteq> [] then
        (if hasPrefix (tk_value (hd ts)) ''format='' then iv\<lparr>hasFormatFlag := True\<rparr> else iv, 1)
      else if (t = ''-c'' \<or> t = ''--command'') \<and> ts \<noteq> [] then (addQuery (tk_value (hd ts)) iv, 1)
      else if hasPrefix t ''--command='' then (addQuery (trimPrefix t ''--command='') iv, 0)
      else if hasPrefix t ''-'' \<and> \<not> hasPrefix t ''--'' then parseShortPsqlFlags iv (drop 1 t) ts
      else (iv, 0))"

function psqlArgsLoop :: "psqlInvocation \<Rightarrow> locatedToken list \<Rightarrow> psqlInvocation" where
  "psqlArgsLoop iv [] = iv"
| "psqlArgsLoop iv (tok # ts) =
     (case psqlArgStep iv (tk_value tok) ts of (iv', n) \<Rightarrow> psqlArgsLoop iv' (drop n ts))"
  by pat_completeness auto
termination
  by (relation "measure (\<lambda>(iv, ts). length ts)") auto

definition parsePsqlArgs :: "nat \<Rightarrow> locatedToken list \<Rightarrow> psqlInvocation" where
  "parsePsqlArgs off ts = psqlArgsLoop \<lparr>insertOffset = off, hasFormatFlag = False, queries = []\<rparr> ts"

definition isEnvToken :: "string \<Rightarrow> bool" where
  "isEnvToken v = (v = ''('' \<or> (contains v ''='' \<and> \<not> hasPrefix v ''-''))"

definition skipEnvTokens :: "locatedToken list \<Rightarrow> nat" where
  "skipEnvTokens ts = length (takeWhile (\<lambda>t. isEnvToken (tk_value t)) ts)"

definition isDockerValFlag :: "string \<Rightarrow> bool" where
  "isDockerValFlag t = (t \<in> {''-e'', ''--env'', ''--env-file'', ''-u'', ''--user'', ''-w'', ''--workdir'', ''--detach-keys''})"

fun dockerFlags :: "nat \<Rightarrow> locatedToken list \<Rightarrow> nat" where
  "dockerFlags i [] = i"
| "dockerFlags i (t # ts) =
     (if hasPrefix (tk_value t) ''-''
      then if isDockerValFlag (tk_value t) then dockerFlags (i + 2) (drop 1 ts) else dockerFlags (i + 1) ts
      else i)"

definition skipEnvAndDockerExec :: "locatedToken list \<Rightarrow> nat" where
  "skipEnvAndDockerExec ts =
     (let idx = skipEnvTokens ts
      in if idx + 2 \<ge> length ts
            \<or> pathBase (dropWhile (\<lambda>c. c = CHR ''('') (tk_value (ts ! idx))) \<noteq> ''docker''
            \<or> tk_value (ts ! (idx + 1)) \<noteq> ''exec''
         then idx
         else let i = dockerFlags (idx + 2) (drop (idx + 2) ts)
              in if i + 1 \<ge> length ts then idx else i + 1 + skipEnvTokens (drop (i + 1) ts))"

definition psqlOfTokens :: "locatedToken list \<Rightarrow> psqlInvocation list" where
  "psqlOfTokens ts =
     (let idx = skipEnvAndDockerExec ts
      in if idx < length ts \<and> pathBase (tk_value (ts ! idx)) = ''psql''
         then [parsePsqlArgs (endOffset (ts ! idx)) (drop (idx + 1) ts)] else [])"

definition findPsqlInvocations :: "string \<Rightarrow> psqlInvocation list" where
  "findPsqlInvocations cmdLine = concat (map (\<lambda>seg. psqlOfTokens (tokenizeWithOffsets (sg_text seg) (sg_offset seg)))
     (splitPipelineWithOffsets cmdLine))"

section \<open>Evaluation\<close>

text \<open>The interface \<^verbatim>\<open>SQLDescriber\<close>; \<open>pgxDescriber\<close> is its implementation over a connection.\<close>

record SQLDescriber =
  ds_Describe :: "string \<Rightarrow> (sqlErr, SQLStatementInfo option) result"
  ds_SchemaHint :: "string \<Rightarrow> sqlErr \<Rightarrow> string"

definition pgxDescriber :: "sqlCatalogConn option \<Rightarrow> SQLDescriber" where
  "pgxDescriber conn = \<lparr>ds_Describe = Describe conn, ds_SchemaHint = SchemaHint conn\<rparr>"

definition isMeta :: "string \<Rightarrow> bool" where
  "isMeta s = hasPrefix s [CHR 0x5C]"

fun evaluateStmts :: "SQLDescriber \<Rightarrow> string list \<Rightarrow> Decision option" where
  "evaluateStmts ds [] = None"
| "evaluateStmts ds (stmt # stmts) =
     (if isMeta stmt then evaluateStmts ds stmts
      else case ds_Describe ds stmt of
        Inl err \<Rightarrow> (let hint = ds_SchemaHint ds stmt err
                    in if hint \<noteq> [] then Some (denyDec hint) else evaluateStmts ds stmts)
      | Inr info \<Rightarrow> (case validateStatementInfo info of Some dec \<Rightarrow> Some dec | None \<Rightarrow> evaluateStmts ds stmts))"

definition evaluatePsqlQuery :: "SQLDescriber \<Rightarrow> string \<Rightarrow> Decision option" where
  "evaluatePsqlQuery ds trimmed =
     (if trimmed = [] \<or> isMeta trimmed then None else evaluateStmts ds (splitSQLStatements trimmed))"

fun evaluateQueries :: "SQLDescriber \<Rightarrow> string list \<Rightarrow> Decision option" where
  "evaluateQueries ds [] = None"
| "evaluateQueries ds (q # qs) =
     (case evaluatePsqlQuery ds (trimSpace q) of Some dec \<Rightarrow> Some dec | None \<Rightarrow> evaluateQueries ds qs)"

fun evaluatePsqlInvocations :: "SQLDescriber \<Rightarrow> psqlInvocation list \<Rightarrow> Decision option" where
  "evaluatePsqlInvocations ds [] = None"
| "evaluatePsqlInvocations ds (iv # invs) =
     (case evaluateQueries ds (queries iv) of Some dec \<Rightarrow> Some dec | None \<Rightarrow> evaluatePsqlInvocations ds invs)"

text \<open>The rewriting loop runs over the invocations backwards, so earlier offsets stay valid.\<close>

definition insertUnaligned :: "psqlInvocation \<Rightarrow> string \<Rightarrow> string" where
  "insertUnaligned iv line =
     (if \<not> hasFormatFlag iv \<and> insertOffset iv > 0 \<and> insertOffset iv \<le> length line
      then take (insertOffset iv) line @ '' -A'' @ drop (insertOffset iv) line else line)"

definition rewritePsql :: "psqlInvocation list \<Rightarrow> string \<Rightarrow> string" where
  "rewritePsql invs cmdLine = foldr insertUnaligned invs cmdLine"

definition inspectPsqlPipeline :: "string \<Rightarrow> SQLDescriber option \<Rightarrow> Decision" where
  "inspectPsqlPipeline cmdLine describer =
     (let invs = findPsqlInvocations cmdLine
      in if invs = [] then allowDec
         else case (case describer of None \<Rightarrow> None | Some ds \<Rightarrow> evaluatePsqlInvocations ds invs) of
           Some dec \<Rightarrow> dec
         | None \<Rightarrow> (let rewritten = rewritePsql invs cmdLine
                    in if rewritten \<noteq> cmdLine
                       then allowDec\<lparr>d_Overwrite := [''CommandLine'' \<mapsto> AnyStr rewritten]\<rparr> else allowDec))"

section \<open>When the guard denies\<close>

text \<open>The columns of one table that a statement returns, as a set.\<close>

definition selectedAttrs :: "SQLColumn list \<Rightarrow> int \<Rightarrow> int set" where
  "selectedAttrs cols oid = {AttrNum c | c. c \<in> set cols \<and> TableOID c = oid \<and> oid \<noteq> 0 \<and> AttrNum c > 0}"

definition selectOk :: "(int \<times> int list) list \<Rightarrow> (int \<Rightarrow> int set) \<Rightarrow> bool" where
  "selectOk m S = (distinct (map fst m) \<and> (\<forall>oid attrs. map_of m oid = Some attrs \<longrightarrow> distinct attrs)
     \<and> (\<forall>oid. S oid = (case map_of m oid of Some attrs \<Rightarrow> set attrs | None \<Rightarrow> {})))"

lemma map_of_filter_ne: "map_of (filter (\<lambda>(k, v). k \<noteq> x) m) y = (if y = x then None else map_of m y)"
  by (induction m) auto

lemma selectOkD:
  assumes "selectOk m S"
  shows "distinct (map fst m)" "map_of m oid = Some attrs \<Longrightarrow> distinct attrs"
    "S oid = (case map_of m oid of Some attrs \<Rightarrow> set attrs | None \<Rightarrow> {})"
  using assms unfolding selectOk_def by blast+

lemma selectOk_step:
  assumes "selectOk m S"
  shows "selectOk ((oid, List.insert a (case map_of m oid of Some as \<Rightarrow> as | None \<Rightarrow> [])) # filter (\<lambda>(k, v). k \<noteq> oid) m)
    (S(oid := insert a (S oid)))" (is "selectOk ((oid, ?as) # ?m) ?S")
proof -
  note d = selectOkD [OF assms]
  have as: "distinct ?as \<and> set ?as = insert a (S oid)"
  proof (cases "map_of m oid")
    case None
    then show ?thesis by (simp add: d(3) [of oid])
  next
    case (Some attrs)
    then show ?thesis using d(2) [OF Some] by (simp add: d(3) [of oid])
  qed
  have "distinct (map fst ?m)" using d(1) by (rule distinct_map_filter)
  moreover have "oid \<notin> fst ` set ?m" by auto
  ultimately have "distinct (map fst ((oid, ?as) # ?m))" by simp
  moreover have "distinct attrs" if "map_of ((oid, ?as) # ?m) x = Some attrs" for x attrs
    using that as d(2) [of x attrs] by (cases "x = oid") (auto simp: map_of_filter_ne)
  moreover have "?S x = (case map_of ((oid, ?as) # ?m) x of Some attrs \<Rightarrow> set attrs | None \<Rightarrow> {})" for x
  proof (cases "x = oid")
    case True
    then show ?thesis using as by simp
  next
    case False
    then have "map_of ((oid, ?as) # ?m) x = map_of m x" by (simp add: map_of_filter_ne)
    then show ?thesis using False d(3) [of x] by (simp only: fun_upd_other not_False_eq_True)
  qed
  ultimately show ?thesis unfolding selectOk_def by blast
qed

lemma selectAttr_ok: "selectOk m S \<Longrightarrow> selectOk (selectAttr m cols) (\<lambda>oid. S oid \<union> selectedAttrs cols oid)"
proof (induction cols arbitrary: m S)
  case Nil
  then show ?case by (simp add: selectedAttrs_def)
next
  case (Cons col cols)
  show ?case
  proof (cases "TableOID col \<noteq> 0 \<and> AttrNum col > 0")
    case True
    have eq: "(\<lambda>oid. S oid \<union> selectedAttrs (col # cols) oid) =
        (\<lambda>oid. (S(TableOID col := insert (AttrNum col) (S (TableOID col)))) oid \<union> selectedAttrs cols oid)"
      using True by (auto simp: selectedAttrs_def fun_eq_iff)
    show ?thesis using Cons.IH [OF selectOk_step [OF Cons.prems, of "TableOID col" "AttrNum col"]] True
      unfolding eq by (simp add: Let_def)
  next
    case False
    then have "selectedAttrs (col # cols) = selectedAttrs cols" by (auto simp: selectedAttrs_def fun_eq_iff)
    then show ?thesis using False Cons by auto
  qed
qed

definition returnsWholeTable :: "SQLStatementInfo \<Rightarrow> bool" where
  "returnsWholeTable info =
     ((\<exists>oid. 0 < countOf (TableColCounts info) oid
         \<and> countOf (TableColCounts info) oid \<le> int (card (selectedAttrs (Columns info) oid)))
      \<or> ((\<forall>oid. selectedAttrs (Columns info) oid = {}) \<and> \<not> hasAggregatePlan (si_Plan info)
         \<and> (\<exists>rel. (rel, int (length (Columns info))) \<in> set (RelColCounts info)) \<and> Columns info \<noteq> []))"

lemma isFullTableProjection_iff: "isFullTableProjection info \<longleftrightarrow> returnsWholeTable info"
proof -
  let ?m = "selectAttr [] (Columns info)" and ?n = "countOf (TableColCounts info)"
  have "selectOk [] (\<lambda>_. {})" by (simp add: selectOk_def)
  from selectAttr_ok [OF this, of "Columns info"] have ok: "selectOk ?m (selectedAttrs (Columns info))" by simp
  have entry: "(oid, attrs) \<in> set ?m \<longleftrightarrow> map_of ?m oid = Some attrs" for oid attrs
    using ok by (simp add: selectOk_def)
  have sz: "card (selectedAttrs (Columns info) oid) = length attrs" if "map_of ?m oid = Some attrs" for oid attrs
    using ok that by (auto simp: selectOk_def distinct_card)
  have none: "card (selectedAttrs (Columns info) oid) = 0" if "map_of ?m oid = None" for oid
    using ok that by (auto simp: selectOk_def)
  have "list_ex (\<lambda>(oid, attrs). let total = ?n oid in total > 0 \<and> int (length attrs) \<ge> total) ?m
      \<longleftrightarrow> (\<exists>oid attrs. map_of ?m oid = Some attrs \<and> ?n oid > 0 \<and> int (length attrs) \<ge> ?n oid)"
    by (auto simp: list_ex_iff entry Let_def Bex_def)
  also have "\<dots> \<longleftrightarrow> (\<exists>oid. 0 < ?n oid \<and> ?n oid \<le> int (card (selectedAttrs (Columns info) oid)))"
  proof safe
    fix oid assume *: "0 < ?n oid" "?n oid \<le> int (card (selectedAttrs (Columns info) oid))"
    then obtain attrs where "map_of ?m oid = Some attrs" using none [of oid] by (cases "map_of ?m oid") auto
    then show "\<exists>oid attrs. map_of ?m oid = Some attrs \<and> ?n oid > 0 \<and> int (length attrs) \<ge> ?n oid"
      using * sz by auto
  qed (use sz in auto)
  finally have a: "list_ex (\<lambda>(oid, attrs). let total = ?n oid in total > 0 \<and> int (length attrs) \<ge> total) ?m
      \<longleftrightarrow> (\<exists>oid. 0 < ?n oid \<and> ?n oid \<le> int (card (selectedAttrs (Columns info) oid)))" .
  have b: "\<not> list_ex (\<lambda>col. TableOID col \<noteq> 0 \<and> AttrNum col > 0) (Columns info)
      \<longleftrightarrow> (\<forall>oid. selectedAttrs (Columns info) oid = {})"
    by (auto simp: list_ex_iff selectedAttrs_def)
  have c: "list_ex (\<lambda>(rel, total). total > 0 \<and> int (length (Columns info)) = total) (RelColCounts info)
      \<longleftrightarrow> (\<exists>rel. (rel, int (length (Columns info))) \<in> set (RelColCounts info)) \<and> Columns info \<noteq> []"
    by (auto simp: list_ex_iff Bex_def)
  show ?thesis unfolding isFullTableProjection_def returnsWholeTable_def Let_def
    using a b c by (auto simp: Let_def)
qed

text \<open>A statement that must not run: unknown names, a whole table, or too many rows.\<close>

definition tooManyRows :: "SQLPlan option \<Rightarrow> bool" where
  "tooManyRows plan = (case plan of None \<Rightarrow> False | Some p \<Rightarrow> PlanRows p > (if NodeType p = ''Limit'' then 50 else 25))"

definition modifiesTable :: "SQLPlan option \<Rightarrow> bool" where
  "modifiesTable plan = (case plan of None \<Rightarrow> False | Some p \<Rightarrow> NodeType p = ''ModifyTable'')"

definition offending :: "SQLDescriber \<Rightarrow> string \<Rightarrow> bool" where
  "offending ds stmt = (case ds_Describe ds stmt of
       Inl err \<Rightarrow> ds_SchemaHint ds stmt err \<noteq> []
     | Inr None \<Rightarrow> False
     | Inr (Some i) \<Rightarrow> Columns i \<noteq> [] \<and> \<not> modifiesTable (si_Plan i) \<and> (returnsWholeTable i \<or> tooManyRows (si_Plan i)))"

lemma validatePlanLimit_None: "validatePlanLimit plan = None \<longleftrightarrow> \<not> tooManyRows plan"
  by (auto simp: validatePlanLimit_def tooManyRows_def MaxSelectLimitRows_def MaxUnboundedPlanRows_def split: option.splits)

lemma validateStatementInfo_None:
  "validateStatementInfo info = None \<longleftrightarrow> (case info of None \<Rightarrow> True | Some i \<Rightarrow>
     \<not> (Columns i \<noteq> [] \<and> \<not> modifiesTable (si_Plan i) \<and> (returnsWholeTable i \<or> tooManyRows (si_Plan i))))"
  unfolding validateStatementInfo_def
  by (auto simp: isFullTableProjection_iff validatePlanLimit_None modifiesTable_def split: option.splits)

lemma validate_denies:
  "validatePlanLimit plan = Some dec \<Longrightarrow> d_Decision dec = DecisionDeny"
  "validateStatementInfo info = Some dec \<Longrightarrow> d_Decision dec = DecisionDeny"
  by (auto simp: validateStatementInfo_def validatePlanLimit_def split: option.splits if_splits)

lemma offending_cases:
  "ds_Describe ds s = Inl err \<Longrightarrow> offending ds s \<longleftrightarrow> ds_SchemaHint ds s err \<noteq> []"
  "ds_Describe ds s = Inr info \<Longrightarrow> offending ds s \<longleftrightarrow> validateStatementInfo info \<noteq> None"
  unfolding offending_def validateStatementInfo_None by (auto split: option.splits)

lemma evaluateStmts_None: "evaluateStmts ds ss = None \<longleftrightarrow> (\<forall>s\<in>set ss. isMeta s \<or> \<not> offending ds s)"
proof (induction ss)
  case (Cons s ss)
  show ?case
  proof (cases "ds_Describe ds s")
    case (Inl err)
    then show ?thesis using Cons.IH offending_cases(1) [OF Inl] by (auto simp: Let_def)
  next
    case (Inr info)
    then show ?thesis using Cons.IH offending_cases(2) [OF Inr] by (auto split: option.splits)
  qed
qed simp

definition offendingQuery :: "SQLDescriber \<Rightarrow> string \<Rightarrow> bool" where
  "offendingQuery ds q = (\<not> isMeta (trimSpace q)
     \<and> (\<exists>stmt\<in>set (splitSQLStatements (trimSpace q)). \<not> isMeta stmt \<and> offending ds stmt))"

lemma evaluateQueries_None: "evaluateQueries ds qs = None \<longleftrightarrow> \<not> (\<exists>q\<in>set qs. offendingQuery ds q)"
proof (induction qs)
  case (Cons q qs)
  have "splitSQLStatements [] = []" by (simp add: splitSQLStatements_def flushStmt_def)
  then have "evaluatePsqlQuery ds (trimSpace q) = None \<longleftrightarrow> \<not> offendingQuery ds q"
    by (auto simp: evaluatePsqlQuery_def offendingQuery_def evaluateStmts_None)
  then show ?case using Cons.IH by (auto split: option.splits)
qed simp

lemma evaluateInvocations_None:
  "evaluatePsqlInvocations ds invs = None \<longleftrightarrow> \<not> (\<exists>iv\<in>set invs. \<exists>q\<in>set (queries iv). offendingQuery ds q)"
proof (induction invs)
  case (Cons iv invs)
  then show ?case using evaluateQueries_None [of ds "queries iv"] by (auto split: option.splits)
qed simp

lemma evaluate_denies:
  "evaluateStmts ds ss = Some dec \<Longrightarrow> d_Decision dec = DecisionDeny"
  "evaluateQueries ds qs = Some dec \<Longrightarrow> d_Decision dec = DecisionDeny"
  "evaluatePsqlInvocations ds invs = Some dec \<Longrightarrow> d_Decision dec = DecisionDeny"
proof -
  show s: "evaluateStmts ds ss = Some dec \<Longrightarrow> d_Decision dec = DecisionDeny" for ss
    by (induction ss) (auto simp: Let_def validate_denies(2) split: if_splits sum.splits option.splits)
  show q: "evaluateQueries ds qs = Some dec \<Longrightarrow> d_Decision dec = DecisionDeny" for qs
    by (induction qs) (auto simp: evaluatePsqlQuery_def s split: if_splits option.splits)
  show "evaluatePsqlInvocations ds invs = Some dec \<Longrightarrow> d_Decision dec = DecisionDeny"
    by (induction invs) (auto simp: q split: option.splits)
qed

lemma inspect_denies_iff:
  "d_Decision (inspectPsqlPipeline cmdLine (Some ds)) = DecisionDeny \<longleftrightarrow>
   (\<exists>iv\<in>set (findPsqlInvocations cmdLine). \<exists>q\<in>set (queries iv). offendingQuery ds q)"
proof (cases "evaluatePsqlInvocations ds (findPsqlInvocations cmdLine)")
  case None
  then show ?thesis
    using evaluateInvocations_None [of ds "findPsqlInvocations cmdLine"] by (auto simp: inspectPsqlPipeline_def Let_def)
next
  case (Some dec)
  then have "findPsqlInvocations cmdLine \<noteq> []" by auto
  then show ?thesis
    using Some evaluateInvocations_None [of ds "findPsqlInvocations cmdLine"] evaluate_denies(3) [OF Some]
    by (auto simp: inspectPsqlPipeline_def Let_def)
qed

text \<open>
  C14. The guard denies a command line exactly when one of its psql invocations runs an offending
  statement: one PostgreSQL rejects with a schema hint, or one that returns rows, does not modify
  a table, and either returns every column of a table or is estimated above 25 rows (50 under a
  LIMIT). Meta-commands are exempt.
\<close>

theorem sql_guard_decides:
  "d_Decision (inspectPsqlPipeline cmdLine (Some ds)) = DecisionDeny \<longleftrightarrow>
   (\<exists>iv\<in>set (findPsqlInvocations cmdLine). \<exists>q\<in>set (queries iv).
      \<not> isMeta (trimSpace q) \<and>
      (\<exists>stmt\<in>set (splitSQLStatements (trimSpace q)). \<not> isMeta stmt \<and> offending ds stmt))"
  using inspect_denies_iff [of cmdLine ds] by (simp add: offendingQuery_def)

section \<open>The scanner depends on the words only\<close>

lemma skipEnvTokens_alt: "skipEnvTokens ts = length (takeWhile isEnvToken (map tk_value ts))"
  by (simp add: skipEnvTokens_def takeWhile_map comp_def)

lemma dockerFlags_cong: "map tk_value ts = map tk_value ts' \<Longrightarrow> dockerFlags i ts = dockerFlags i ts'"
proof (induction i ts arbitrary: ts' rule: dockerFlags.induct)
  case (2 i t ts)
  then obtain t' us where ts': "ts' = t' # us" "tk_value t' = tk_value t" "map tk_value ts = map tk_value us"
    by (cases ts') auto
  have dr: "map tk_value (drop 1 ts) = map tk_value (drop 1 us)" using ts'(3) by (metis drop_map)
  note IH = "2.IH"(1) [OF _ _ dr] "2.IH"(2) [OF _ _ ts'(3)]
  show ?case unfolding ts'(1) dockerFlags.simps ts'(2) using IH by presburger
qed auto

lemma skip_cong:
  assumes "map tk_value ts = map tk_value ts'" shows "skipEnvAndDockerExec ts = skipEnvAndDockerExec ts'"
proof -
  let ?e = "skipEnvTokens ts"
  have len: "length ts = length ts'" using assms by (metis length_map)
  have val: "tk_value (ts ! i) = tk_value (ts' ! i)" if "i < length ts" for i
    using assms that len by (metis nth_map)
  have dr: "map tk_value (drop n ts) = map tk_value (drop n ts')" for n using assms by (metis drop_map)
  have env: "skipEnvTokens ts' = ?e" "skipEnvTokens (drop n ts') = skipEnvTokens (drop n ts)" for n
    unfolding skipEnvTokens_alt using assms dr by (metis, metis)
  have df: "dockerFlags i (drop n ts') = dockerFlags i (drop n ts)" for i n
    using dockerFlags_cong [OF dr] by metis
  show ?thesis
  proof (cases "length ts \<le> ?e + 2")
    case True
    then show ?thesis unfolding skipEnvAndDockerExec_def Let_def env len [symmetric] by simp
  next
    case False
    then have v: "tk_value (ts' ! ?e) = tk_value (ts ! ?e)" "tk_value (ts' ! (?e + 1)) = tk_value (ts ! (?e + 1))"
      using val by simp_all
    show ?thesis unfolding skipEnvAndDockerExec_def Let_def env df len [symmetric] v by (rule refl)
  qed
qed

lemma shortFlags_cong:
  "map tk_value ts = map tk_value ts' \<Longrightarrow> parseShortPsqlFlags iv fl ts = parseShortPsqlFlags iv fl ts'"
proof (induction iv fl ts rule: parseShortPsqlFlags.induct)
  case (2 iv ch fl ts)
  have "ts = [] \<longleftrightarrow> ts' = []" "ts \<noteq> [] \<Longrightarrow> tk_value (hd ts) = tk_value (hd ts')"
    using "2.prems" by (metis map_is_Nil_conv) (metis "2.prems" hd_map map_is_Nil_conv)
  then show ?case using 2 by auto
qed simp

lemma psqlArgStep_cong:
  assumes "map tk_value ts = map tk_value ts'" shows "psqlArgStep iv t ts = psqlArgStep iv t ts'"
proof -
  have "ts = [] \<longleftrightarrow> ts' = []" "ts \<noteq> [] \<Longrightarrow> tk_value (hd ts) = tk_value (hd ts')"
    using assms by (metis map_is_Nil_conv) (metis assms hd_map map_is_Nil_conv)
  then show ?thesis unfolding psqlArgStep_def shortFlags_cong [OF assms] by auto
qed

lemma psqlArgs_cong: "map tk_value ts = map tk_value ts' \<Longrightarrow> psqlArgsLoop iv ts = psqlArgsLoop iv ts'"
proof (induction iv ts arbitrary: ts' rule: psqlArgsLoop.induct)
  case (2 iv tok ts)
  then obtain tok' us where ts': "ts' = tok' # us" "tk_value tok' = tk_value tok" "map tk_value ts = map tk_value us"
    by (cases ts') auto
  obtain iv2 n where st: "psqlArgStep iv (tk_value tok) ts = (iv2, n)" by fastforce
  have dr: "map tk_value (drop n ts) = map tk_value (drop n us)" using ts'(3) by (metis drop_map)
  have "psqlArgStep iv (tk_value tok) us = (iv2, n)" using st psqlArgStep_cong [OF ts'(3)] by metis
  then show ?case using "2.IH" [OF st [symmetric] dr] ts'(1,2) st by simp
qed auto

text \<open>\<^verbatim>\<open>hasFormatFlag\<close> is never reset and the offset never changed.\<close>

lemma shortFlags_keep:
  "parseShortPsqlFlags iv fl ts = (iv', n) \<Longrightarrow>
   insertOffset iv' = insertOffset iv \<and> (hasFormatFlag iv \<longrightarrow> hasFormatFlag iv')"
  by (induction iv fl ts rule: parseShortPsqlFlags.induct) (auto simp: addQuery_def split: if_splits)

lemma psqlArgStep_keep:
  "psqlArgStep iv t ts = (iv', n) \<Longrightarrow>
   insertOffset iv' = insertOffset iv \<and> (hasFormatFlag iv \<longrightarrow> hasFormatFlag iv')"
  by (auto simp: psqlArgStep_def addQuery_def dest: shortFlags_keep split: if_splits)

lemma psqlArgs_keep:
  "insertOffset (psqlArgsLoop iv ts) = insertOffset iv \<and> (hasFormatFlag iv \<longrightarrow> hasFormatFlag (psqlArgsLoop iv ts))"
proof (induction iv ts rule: psqlArgsLoop.induct)
  case (2 iv tok ts)
  obtain iv2 n where st: "psqlArgStep iv (tk_value tok) ts = (iv2, n)" by fastforce
  show ?case using "2.IH" [OF st [symmetric]] psqlArgStep_keep [OF st] by (simp add: st)
qed simp

section \<open>Adding -A after the program word\<close>

text \<open>Stripping a leading parenthesis changes the base name only when the base name starts with it.\<close>

lemma pathBase_Cons:
  assumes "c \<noteq> CHR ''/''" shows "pathBase (c # w) = pathBase w \<or> hd (pathBase (c # w)) = c"
proof -
  let ?s = "\<lambda>c. c = CHR ''/''"
  define q where "q = rev (dropWhile ?s (rev w))"
  have full: "rev (dropWhile ?s (rev (c # w))) = c # q"
  proof (cases "\<forall>x\<in>set w. x = CHR ''/''")
    case True
    then have "q = []" by (simp add: q_def)
    moreover have "dropWhile ?s (rev w @ [c]) = dropWhile ?s [c]" by (rule dropWhile_append2) (use True in simp)
    ultimately show ?thesis using assms by simp
  next
    case False
    then have "dropWhile ?s (rev w @ [c]) = dropWhile ?s (rev w) @ [c]" by (auto intro: dropWhile_append1)
    then show ?thesis by (simp add: q_def)
  qed
  show ?thesis
  proof (cases "\<exists>x\<in>set q. x = CHR ''/''")
    case True
    then have "q \<noteq> []" by fastforce
    moreover have "w \<noteq> []" using \<open>q \<noteq> []\<close> by (cases w) (simp_all add: q_def)
    moreover have "takeWhile (\<lambda>c. c \<noteq> CHR ''/'') (rev q @ [c]) = takeWhile (\<lambda>c. c \<noteq> CHR ''/'') (rev q)"
    proof -
      obtain x where "x \<in> set (rev q)" "\<not> x \<noteq> CHR ''/''" using True by auto
      then show ?thesis by (rule takeWhile_append1)
    qed
    ultimately show ?thesis using full unfolding pathBase_def q_def [symmetric] by (simp add: Let_def)
  next
    case False
    then have tw: "takeWhile (\<lambda>c. c \<noteq> CHR ''/'') (rev (c # q)) = rev (c # q)" using assms by (auto simp: takeWhile_eq_all_conv)
    have "pathBase (c # w) = c # q" unfolding pathBase_def Let_def full tw by simp
    then show ?thesis by simp
  qed
qed

lemma pathBase_paren: "pathBase v = ''psql'' \<Longrightarrow> pathBase (dropWhile (\<lambda>c. c = CHR ''('') v) = ''psql''"
proof (induction v)
  case (Cons c w)
  then show ?case using pathBase_Cons [of c w] by (cases "c = CHR ''(''") auto
qed simp

lemma takeWhile_cut:
  "length (takeWhile P xs) \<le> k \<Longrightarrow> k < length xs \<Longrightarrow> takeWhile P (take (Suc k) xs @ ys) = takeWhile P xs"
proof (induction xs arbitrary: k)
  case (Cons x xs)
  then show ?case by (cases k) (auto split: if_splits)
qed simp

lemma skipEnv_cut:
  "skipEnvTokens ts \<le> k \<Longrightarrow> k < length ts \<Longrightarrow> skipEnvTokens (take (Suc k) ts @ us) = skipEnvTokens ts"
  by (simp add: skipEnvTokens_def takeWhile_cut)

lemma dockerFlags_ge: "i \<le> dockerFlags i ts"
proof (induction i ts rule: dockerFlags.induct)
  case (2 i t ts)
  then show ?case by (auto split: if_splits)
qed simp

lemma dockerFlags_cut:
  "dockerFlags i ts < i + length ts \<Longrightarrow> dockerFlags i ts \<le> i + k \<Longrightarrow>
   dockerFlags i (take (Suc k) ts @ us) = dockerFlags i ts"
proof (induction i ts arbitrary: k rule: dockerFlags.induct)
  case (2 i t ts)
  show ?case
  proof (cases "hasPrefix (tk_value t) ''-''")
    case True
    then have "i + 1 \<le> dockerFlags i (t # ts)" using dockerFlags_ge [of "i + 1" ts] dockerFlags_ge [of "i + 2" "drop 1 ts"]
      by auto
    then obtain k' where k: "k = Suc k'" using "2.prems"(2) by (cases k) auto
    show ?thesis
    proof (cases "isDockerValFlag (tk_value t)")
      case dv: True
      have a: "dockerFlags (i + 2) (drop 1 ts) < i + 2 + length (drop 1 ts)"
        "dockerFlags (i + 2) (drop 1 ts) \<le> i + 2 + (k - 2)" "2 \<le> k" "ts \<noteq> []"
        using "2.prems" True dv dockerFlags_ge [of "i + 2" "drop 1 ts"] by (cases ts; auto)+
      have "drop 1 (take k ts @ us) = take (Suc (k - 2)) (drop 1 ts) @ us"
        using a(3,4) by (cases ts; cases k) (auto simp: Suc_diff_Suc numeral_2_eq_2 split: nat.splits)
      then show ?thesis using "2.IH"(1) [OF True dv a(1,2)] True dv by simp
    next
      case False
      then show ?thesis using "2.IH"(2) [OF True False, of k'] "2.prems" True k by simp
    qed
  qed simp
qed simp

lemma drop_cut: "n \<le> m \<Longrightarrow> m < length ts \<Longrightarrow> drop n (take (Suc m) ts @ us) = take (Suc (m - n)) (drop n ts) @ us"
  by (simp add: drop_take Suc_diff_le)

text \<open>What follows the program word does not move it.\<close>

lemma skip_cut:
  assumes "skipEnvAndDockerExec ts < length ts" "pathBase (tk_value (ts ! skipEnvAndDockerExec ts)) = ''psql''"
  shows "skipEnvAndDockerExec (take (Suc (skipEnvAndDockerExec ts)) ts @ us) = skipEnvAndDockerExec ts"
proof -
  define e idx where "e = skipEnvTokens ts" and "idx = skipEnvAndDockerExec ts"
  define ts' where "ts' = take (Suc idx) ts @ us"
  define docker where "docker = (e + 2 < length ts
     \<and> pathBase (dropWhile (\<lambda>c. c = CHR ''('') (tk_value (ts ! e))) = ''docker'' \<and> tk_value (ts ! (e + 1)) = ''exec'')"
  define i where "i = dockerFlags (e + 2) (drop (e + 2) ts)"
  have idx: "idx = (if docker \<and> i + 1 < length ts then i + 1 + skipEnvTokens (drop (i + 1) ts) else e)"
    unfolding idx_def skipEnvAndDockerExec_def Let_def docker_def e_def [symmetric] i_def [symmetric] by auto
  have il: "idx < length ts" and psql: "pathBase (tk_value (ts ! idx)) = ''psql''" using assms by (simp_all add: idx_def)
  have nth: "ts' ! n = ts ! n" if "n \<le> idx" for n using that il by (simp add: ts'_def nth_append)
  have len: "idx < length ts'" using il by (simp add: ts'_def)
  show ?thesis
  proof (cases "docker \<and> i + 1 < length ts")
    case False
    then have e: "idx = e" using idx by presburger
    then have env: "skipEnvTokens ts' = e" using skipEnv_cut [of ts idx us] il by (simp add: ts'_def e_def)
    have "pathBase (dropWhile (\<lambda>c. c = CHR ''('') (tk_value (ts' ! e))) \<noteq> ''docker''"
      using pathBase_paren [OF psql] nth [of e] e by simp
    then have "skipEnvAndDockerExec ts' = idx" unfolding skipEnvAndDockerExec_def Let_def env e by simp
    then show ?thesis by (simp add: ts'_def idx_def)
  next
    case True
    have ie: "e + 2 \<le> i" unfolding i_def by (rule dockerFlags_ge)
    have le: "i + 1 \<le> idx" using True idx by simp
    have env: "skipEnvTokens ts' = e" using skipEnv_cut [of ts idx us] il ie le by (simp add: ts'_def e_def)
    have "dockerFlags (e + 2) (drop (e + 2) ts') = i"
      unfolding ts'_def i_def using drop_cut [of "e + 2" idx ts us] il ie le True
      by (subst drop_cut) (auto simp: i_def intro!: dockerFlags_cut)
    moreover have "skipEnvTokens (drop (i + 1) ts') = skipEnvTokens (drop (i + 1) ts)"
      unfolding ts'_def using drop_cut [of "i + 1" idx ts us] skipEnv_cut [of "drop (i + 1) ts" "idx - (i + 1)" us] il le idx True
      by simp
    ultimately have "skipEnvAndDockerExec ts' = idx"
      unfolding skipEnvAndDockerExec_def Let_def env using True nth [of e] nth [of "e + 1"] ie le len idx
      by (simp add: docker_def)
    then show ?thesis by (simp add: ts'_def idx_def)
  qed
qed

text \<open>On the words of a command: the index of its program, whether it is psql, and whether it asks for a format.\<close>

definition progIdx :: "string list \<Rightarrow> nat" where
  "progIdx ws = skipEnvAndDockerExec (locate 0 ws)"

definition isPsqlCmd :: "string list \<Rightarrow> bool" where
  "isPsqlCmd ws = (progIdx ws < length ws \<and> pathBase (wordVal (ws ! progIdx ws)) = ''psql'')"

definition asksFormat :: "string list \<Rightarrow> bool" where
  "asksFormat ws = hasFormatFlag (parsePsqlArgs 0 (locate 0 (drop (progIdx ws + 1) ws)))"

definition addUnaligned :: "string list \<Rightarrow> string list" where
  "addUnaligned ws = (if isPsqlCmd ws \<and> \<not> asksFormat ws
     then take (progIdx ws + 1) ws @ ''-A'' # drop (progIdx ws + 1) ws else ws)"

lemma locate_props:
  "length (locate b ws) = length ws" "map tk_value (locate b ws) = map wordVal ws"
  "drop n (locate b ws) = locate (b + length (concat (take n ws)) + min n (length ws)) (drop n ws)"
  "i < length ws \<Longrightarrow> tk_value (locate b ws ! i) = wordVal (ws ! i)"
proof -
  show l: "length (locate b ws) = length ws" for b by (induction ws arbitrary: b) auto
  show m: "map tk_value (locate b ws) = map wordVal ws" for b by (induction ws arbitrary: b) auto
  show "drop n (locate b ws) = locate (b + length (concat (take n ws)) + min n (length ws)) (drop n ws)"
  proof (induction ws arbitrary: b n)
    case (Cons w ws)
    then show ?case by (cases n) (auto simp: add.assoc)
  qed simp
  show "i < length ws \<Longrightarrow> tk_value (locate b ws ! i) = wordVal (ws ! i)" using l m by (metis nth_map)
qed

lemma endOffset_locate:
  "i < length ws \<Longrightarrow> endOffset (locate b ws ! i) = b + length (renderCmd (take (Suc i) ws))"
proof (induction ws arbitrary: b i)
  case (Cons w ws)
  show ?case
  proof (cases i)
    case 0
    then show ?thesis by (simp add: renderCmd_def)
  next
    case (Suc j)
    then have "take (Suc j) ws \<noteq> []" using Cons.prems by auto
    then have "renderCmd (w # take (Suc j) ws) = w @ '' '' @ renderCmd (take (Suc j) ws)"
      by (cases "take (Suc j) ws") (simp_all add: renderCmd_def)
    then show ?thesis using Cons Suc by simp
  qed
qed simp

lemma renderCmd_append:
  "xs \<noteq> [] \<Longrightarrow> renderCmd (xs @ ys) = renderCmd xs @ (if ys = [] then [] else '' '' @ renderCmd ys)"
proof (induction xs)
  case (Cons x xs)
  then show ?case by (cases xs; cases ys) (simp_all add: renderCmd_def)
qed simp

lemma shortFlags_offset:
  "parseShortPsqlFlags (iv\<lparr>insertOffset := off\<rparr>) fl ts =
   (case parseShortPsqlFlags iv fl ts of (iv', n) \<Rightarrow> (iv'\<lparr>insertOffset := off\<rparr>, n))"
proof (induction iv fl ts rule: parseShortPsqlFlags.induct)
  case (2 iv ch fl ts)
  show ?case
  proof (cases "ch = CHR ''A'' \<or> ch = CHR ''H''")
    case True
    have comm: "iv\<lparr>insertOffset := off, hasFormatFlag := True\<rparr> = iv\<lparr>hasFormatFlag := True, insertOffset := off\<rparr>"
      by (cases iv) simp
    have "parseShortPsqlFlags jv (ch # fl) ts = parseShortPsqlFlags (jv\<lparr>hasFormatFlag := True\<rparr>) fl ts" for jv
      using True by simp
    then show ?thesis using "2.IH"(1) [OF True, unfolded comm [symmetric]] by (simp only:)
  next
    case False
    then show ?thesis using "2.IH"(2) [OF False] by (simp add: addQuery_def)
  qed
qed simp

lemma psqlArgStep_offset:
  "psqlArgStep (iv\<lparr>insertOffset := off\<rparr>) t ts =
   (case psqlArgStep iv t ts of (iv', n) \<Rightarrow> (iv'\<lparr>insertOffset := off\<rparr>, n))"
  by (simp add: psqlArgStep_def addQuery_def shortFlags_offset)

lemma psqlArgs_offset: "psqlArgsLoop (iv\<lparr>insertOffset := off\<rparr>) ts = (psqlArgsLoop iv ts)\<lparr>insertOffset := off\<rparr>"
proof (induction iv ts rule: psqlArgsLoop.induct)
  case (2 iv tok ts)
  obtain iv2 n where st: "psqlArgStep iv (tk_value tok) ts = (iv2, n)" by fastforce
  show ?case using "2.IH" [OF st [symmetric]] by (simp add: st psqlArgStep_offset)
qed simp

lemma parsePsqlArgs_offset: "parsePsqlArgs off ts = (parsePsqlArgs 0 ts)\<lparr>insertOffset := off\<rparr>"
  using psqlArgs_offset [where iv = "\<lparr>insertOffset = 0, hasFormatFlag = False, queries = []\<rparr>" and off = off and ts = ts]
  by (simp add: parsePsqlArgs_def)

text \<open>The invocation of one command of a rendered line.\<close>

definition psqlInv :: "string list \<Rightarrow> psqlInvocation" where
  "psqlInv ws = parsePsqlArgs 0 (locate 0 (drop (progIdx ws + 1) ws))"

lemma psqlOf_locate:
  "psqlOfTokens (locate b ws) = (if isPsqlCmd ws
     then [(psqlInv ws)\<lparr>insertOffset := b + length (renderCmd (take (progIdx ws + 1) ws))\<rparr>] else [])"
proof -
  have p: "skipEnvAndDockerExec (locate b ws) = progIdx ws"
    unfolding progIdx_def by (rule skip_cong) (simp add: locate_props)
  have eq: "psqlArgsLoop iv (drop n (locate b ws)) = psqlArgsLoop iv (locate 0 (drop n ws))" for iv n
    by (rule psqlArgs_cong) (simp add: locate_props)
  have "parsePsqlArgs off (drop (progIdx ws + 1) (locate b ws)) = parsePsqlArgs off (locate 0 (drop (progIdx ws + 1) ws))" for off
    unfolding parsePsqlArgs_def by (rule eq)
  then have "parsePsqlArgs off (drop (progIdx ws + 1) (locate b ws)) = (psqlInv ws)\<lparr>insertOffset := off\<rparr>" for off
    unfolding psqlInv_def using parsePsqlArgs_offset by metis
  then show ?thesis
    using locate_props(4) [of "progIdx ws" ws b] endOffset_locate [of "progIdx ws" ws b]
    by (auto simp: psqlOfTokens_def Let_def p isPsqlCmd_def locate_props(1))
qed

lemma asksFormat_alt: "asksFormat ws = hasFormatFlag (psqlInv ws)"
  by (simp add: asksFormat_def psqlInv_def)

lemma find_line:
  assumes "isLine cs" "cs \<noteq> []"
  shows "findPsqlInvocations (renderLine cs) = concat (map (\<lambda>seg. psqlOfTokens (tokenizeWithOffsets (sg_text seg) (sg_offset seg))) (segmentsAt 0 cs))"
  using split_line [OF assms] by (simp add: findPsqlInvocations_def)

lemma rewrite_cmd:
  assumes "isCmd ws"
  shows "foldr insertUnaligned (psqlOfTokens (locate (length p) ws)) (p @ renderCmd ws @ r) = p @ renderCmd (addUnaligned ws) @ r"
proof (cases "isPsqlCmd ws \<and> \<not> asksFormat ws")
  case True
  let ?k = "progIdx ws + 1"
  have k: "take ?k ws \<noteq> []" using True by (auto simp: isPsqlCmd_def)
  have "isCmd (take ?k ws)" using assms k by (auto simp: isCmd_def list_all_iff dest: in_set_takeD)
  then have ne: "renderCmd (take ?k ws) \<noteq> []" using renderCmd_edges by blast
  let ?rest = "if drop ?k ws = [] then [] else '' '' @ renderCmd (drop ?k ws)"
  have old: "renderCmd ws = renderCmd (take ?k ws) @ ?rest"
    using renderCmd_append [OF k, of "drop ?k ws"] by (simp only: append_take_drop_id)
  have mid: "renderCmd (''-A'' # drop ?k ws) = ''-A'' @ ?rest"
    using renderCmd_append [of "[''-A'']" "drop ?k ws"] by (simp add: renderCmd_def)
  have new: "renderCmd (addUnaligned ws) = renderCmd (take ?k ws) @ '' -A'' @ ?rest"
    using renderCmd_append [OF k, of "''-A'' # drop ?k ws"] True mid by (simp add: addUnaligned_def)
  have "\<not> hasFormatFlag (psqlInv ws)" "isPsqlCmd ws" using True by (simp_all add: asksFormat_alt)
  then show ?thesis unfolding psqlOf_locate new old using ne by (simp add: insertUnaligned_def)
next
  case False
  then show ?thesis by (auto simp: psqlOf_locate insertUnaligned_def asksFormat_alt addUnaligned_def)
qed

definition addUnalignedLine :: "(string list \<times> string) list \<Rightarrow> (string list \<times> string) list" where
  "addUnalignedLine cs = map (\<lambda>(ws, dl). (addUnaligned ws, dl)) cs"

lemma rewrite_line:
  "isLine cs \<Longrightarrow> foldr insertUnaligned
     (concat (map (\<lambda>seg. psqlOfTokens (tokenizeWithOffsets (sg_text seg) (sg_offset seg))) (segmentsAt (length p) cs)))
     (p @ renderLine cs) = p @ renderLine (addUnalignedLine cs)"
proof (induction cs arbitrary: p rule: renderLine.induct)
  case (2 ws dl)
  then have c: "isCmd ws" by (simp add: isLine_def)
  then show ?case using rewrite_cmd [OF c, of p "[]"] tokenize_cmd [of ws]
    by (simp add: isCmd_def addUnalignedLine_def)
next
  case (3 ws dl c cs)
  then have cmd: "isCmd ws" and rest: "isLine (c # cs)" by (auto simp: isLine_def)
  obtain ws2 dl2 where c: "c = (ws2, dl2)" by (cases c)
  let ?p = "p @ renderCmd ws @ '' '' @ dl @ '' ''"
  have len: "length p + length (renderCmd ws) + length dl + 2 = length ?p" by simp
  show ?case
    using "3.IH" [OF rest, of ?p] rewrite_cmd [OF cmd, of p "'' '' @ dl @ '' '' @ renderLine (addUnalignedLine (c # cs))"]
      tokenize_cmd [of ws] cmd c
    by (simp add: isCmd_def len addUnalignedLine_def add.assoc)
qed (simp add: addUnalignedLine_def)

lemma word_A: "isWord ''-A''" "wordVal ''-A'' = ''-A''"
  by (simp_all add: isWord_def wordVal_def isShellMeta_def isBlank_def edgeByte_def)

lemma isCmd_add: "isCmd ws \<Longrightarrow> isCmd (addUnaligned ws)"
  by (auto simp: isCmd_def addUnaligned_def word_A list_all_iff dest: in_set_takeD in_set_dropD)

lemma isLine_add: "isLine cs \<Longrightarrow> isLine (addUnalignedLine cs)"
  by (auto simp: isLine_def addUnalignedLine_def list_all_iff isCmd_add)

text \<open>After the insertion the program word is still found where it was, and asks for a format.\<close>

lemma add_asks:
  assumes "isPsqlCmd ws" "\<not> asksFormat ws" shows "isPsqlCmd (addUnaligned ws)" "asksFormat (addUnaligned ws)"
proof -
  let ?k = "progIdx ws" and ?ws = "addUnaligned ws"
  have k: "?k < length ws" and psql: "pathBase (wordVal (ws ! ?k)) = ''psql''" using assms(1) by (auto simp: isPsqlCmd_def)
  have ws: "?ws = take (Suc ?k) ws @ ''-A'' # drop (Suc ?k) ws" using assms by (simp add: addUnaligned_def)
  let ?us = "locate 0 (''-A'' # drop (Suc ?k) ws)"
  have "map tk_value (locate 0 ?ws) = map tk_value (take (Suc ?k) (locate 0 ws) @ ?us)"
    unfolding ws map_append take_map [symmetric] locate_props(2) by (simp add: word_A take_map)
  then have "progIdx ?ws = skipEnvAndDockerExec (take (Suc ?k) (locate 0 ws) @ ?us)"
    unfolding progIdx_def by (rule skip_cong)
  also have "\<dots> = ?k"
    using skip_cut [of "locate 0 ws" ?us] k psql locate_props(4) [of ?k ws 0]
    by (simp add: progIdx_def locate_props(1))
  finally have p: "progIdx ?ws = ?k" .
  have "?ws ! ?k = ws ! ?k" using k by (simp add: ws nth_append)
  then show "isPsqlCmd ?ws" using p k psql by (simp add: isPsqlCmd_def ws)
  have "drop (Suc ?k) ?ws = ''-A'' # drop (Suc ?k) ws" using k by (simp add: ws)
  then show "asksFormat ?ws"
    unfolding asksFormat_def p by (simp add: parsePsqlArgs_def psqlArgStep_def isFormatFlag_def word_A psqlArgs_keep)
qed

lemma segments_flags:
  "isLine cs \<Longrightarrow> iv \<in> set (concat (map (\<lambda>seg. psqlOfTokens (tokenizeWithOffsets (sg_text seg) (sg_offset seg)))
     (segmentsAt b (addUnalignedLine cs)))) \<Longrightarrow> hasFormatFlag iv"
proof (induction cs arbitrary: b)
  case (Cons c cs)
  obtain ws dl where c: "c = (ws, dl)" by (cases c)
  then have cmd: "isCmd ws" and rest: "isLine cs" using Cons.prems(1) by (auto simp: isLine_def)
  have "hasFormatFlag iv" if "iv \<in> set (psqlOfTokens (locate b (addUnaligned ws)))" for b
    using that add_asks [of ws]
    by (cases "isPsqlCmd ws \<and> \<not> asksFormat ws")
       (auto simp: psqlOf_locate asksFormat_alt addUnaligned_def split: if_splits)
  then show ?case
    using Cons.IH [OF rest] Cons.prems(2) tokenize_cmd [of "addUnaligned ws"] isCmd_add [OF cmd] c
    by (auto simp: addUnalignedLine_def isCmd_def)
qed (simp add: addUnalignedLine_def)

lemma rewritten_line:
  assumes "isLine cs" "cs \<noteq> []"
  shows "rewritePsql (findPsqlInvocations (renderLine cs)) (renderLine cs) = renderLine (addUnalignedLine cs)"
  using rewrite_line [OF assms(1), of "[]"] find_line [OF assms] by (simp add: rewritePsql_def)

text \<open>
  C16. On every line of well-formed commands, inserting text at byte offsets does what it means to
  do: the rewritten line is the line whose psql commands without a format flag got the word
  \<^verbatim>\<open>-A\<close> right after the program, everything else unchanged. Every psql invocation of the
  rewritten line asks for a format, so a second pass changes nothing.
\<close>

theorem psql_rewrite_correct:
  assumes "isLine cs" "cs \<noteq> []"
  shows "rewritePsql (findPsqlInvocations (renderLine cs)) (renderLine cs) = renderLine (addUnalignedLine cs)
    \<and> list_all hasFormatFlag (findPsqlInvocations (renderLine (addUnalignedLine cs)))
    \<and> inspectPsqlPipeline (renderLine (addUnalignedLine cs)) None = allowDec"
proof -
  have ne: "addUnalignedLine cs \<noteq> []" using assms(2) by (simp add: addUnalignedLine_def)
  have fl: "list_all hasFormatFlag (findPsqlInvocations (renderLine (addUnalignedLine cs)))"
    using segments_flags [OF assms(1)] find_line [OF isLine_add [OF assms(1)] ne] by (auto simp: list_all_iff)
  have "rewritePsql invs l = l" if "list_all hasFormatFlag invs" for invs l
    using that by (induction invs) (auto simp: rewritePsql_def insertUnaligned_def)
  then show ?thesis using fl rewritten_line [OF assms] by (simp add: inspectPsqlPipeline_def Let_def)
qed

theorem psql_rewrite_correct_witness:
  "rewritePsql (findPsqlInvocations ''docker exec -u pg db psql -c 1 | cat && psql --csv'')
     ''docker exec -u pg db psql -c 1 | cat && psql --csv'' = ''docker exec -u pg db psql -A -c 1 | cat && psql --csv''"
proof -
  let ?cs = "[([''docker'', ''exec'', ''-u'', ''pg'', ''db'', ''psql'', ''-c'', ''1''], ''|''), ([''cat''], ''&&''), ([''psql'', ''--csv''], '';'')]"
  have "isLine ?cs" by code_simp
  moreover have "renderLine ?cs = ''docker exec -u pg db psql -c 1 | cat && psql --csv''" by code_simp
  moreover have "renderLine (addUnalignedLine ?cs) = ''docker exec -u pg db psql -A -c 1 | cat && psql --csv''" by code_simp
  ultimately show ?thesis using psql_rewrite_correct [of ?cs] by simp
qed

section \<open>No quoted query goes unseen\<close>

text \<open>The ways to hand a query to psql on its command line, the query quoted.\<close>

definition queryForms :: "string \<Rightarrow> string list list" where
  "queryForms sql = [[''-c'', shQuote sql], [''--command'', shQuote sql], [shQuote (''--command='' @ sql)],
     [''-Atc'', shQuote sql], [shQuote (''-c'' @ sql)]]"

lemma queries_grow:
  "parseShortPsqlFlags iv fl ts = (iv', n) \<Longrightarrow> set (queries iv) \<subseteq> set (queries iv')"
  "psqlArgStep iv t ts = (iv', n) \<Longrightarrow> set (queries iv) \<subseteq> set (queries iv')"
  "set (queries iv) \<subseteq> set (queries (psqlArgsLoop iv ts))"
proof -
  have sh: "set (queries iv) \<subseteq> set (queries iv')" if "parseShortPsqlFlags iv fl ts = (iv', n)" for iv fl ts iv' n
    using that
  proof (induction iv fl ts rule: parseShortPsqlFlags.induct)
    case (2 iv ch fl ts)
    then show ?case by (fastforce simp: addQuery_def split: if_splits)
  qed simp
  then show "parseShortPsqlFlags iv fl ts = (iv', n) \<Longrightarrow> set (queries iv) \<subseteq> set (queries iv')" .
  have st: "set (queries iv) \<subseteq> set (queries iv')" if "psqlArgStep iv t ts = (iv', n)" for iv t ts iv' n
    using that sh [of iv _ ts iv' n] by (fastforce simp: psqlArgStep_def addQuery_def split: if_splits)
  then show "psqlArgStep iv t ts = (iv', n) \<Longrightarrow> set (queries iv) \<subseteq> set (queries iv')" .
  show "set (queries iv) \<subseteq> set (queries (psqlArgsLoop iv ts))"
  proof (induction iv ts rule: psqlArgsLoop.induct)
    case (2 iv tok ts)
    obtain iv2 n where s: "psqlArgStep iv (tk_value tok) ts = (iv2, n)" by fastforce
    show ?case using "2.IH" [OF s [symmetric]] st [OF s] by (simp add: s)
  qed simp
qed

lemma plain_word: "isWord ''-c''" "isWord ''--command''" "isWord ''-Atc''" "isWord ''psql''"
  "wordVal ''-c'' = ''-c''" "wordVal ''--command'' = ''--command''" "wordVal ''-Atc'' = ''-Atc''" "wordVal ''psql'' = ''psql''"
  by code_simp+

lemma args_skip_operands:
  "list_all (\<lambda>w. \<not> hasPrefix (wordVal w) ''-'') pre \<Longrightarrow>
   psqlArgsLoop iv (locate b (pre @ ws)) = psqlArgsLoop iv (locate (b + length (concat pre) + length pre) ws)"
proof (induction pre arbitrary: b)
  case (Cons w pre)
  then have "\<not> hasPrefix (wordVal w) ''-''" by simp
  then have "psqlArgStep iv (wordVal w) ts = (iv, 0)" for ts
    by (cases "wordVal w") (auto simp: psqlArgStep_def isFormatFlag_def hasPrefix_iff)
  then show ?case using Cons by (simp add: add.assoc)
qed simp

lemma args_take_query:
  assumes "args \<in> set (queryForms sql)" "sql \<noteq> []"
  shows "sql \<in> set (queries (psqlArgsLoop iv (locate b (args @ tail))))"
proof -
  have grow: "sql \<in> set (queries (psqlArgsLoop (addQuery sql iv) ts))" for iv ts
    using queries_grow(3) [of "addQuery sql iv" ts] by (auto simp: addQuery_def)
  have "psqlArgStep iv ''-Atc'' (t # ts) = (addQuery (tk_value t) (iv\<lparr>hasFormatFlag := True\<rparr>), 1)" for t ts
    by (simp add: psqlArgStep_def isFormatFlag_def)
  moreover have "psqlArgStep iv (''-c'' @ sql) ts = (addQuery sql iv, 0)" for ts
    using assms(2) by (cases sql) (auto simp: psqlArgStep_def isFormatFlag_def)
  moreover have "psqlArgStep iv (''--command='' @ sql) ts = (addQuery sql iv, 0)" for ts
    by (simp add: psqlArgStep_def isFormatFlag_def trimPrefix_def)
  ultimately show ?thesis
    using assms(1) grow
    by (auto simp: queryForms_def plain_word psqlArgStep_def isFormatFlag_def simp del: psqlArgsLoop.simps(1))
qed

lemma progIdx_psql: "progIdx (''psql'' # ws) = 0"
proof -
  have "\<not> isEnvToken ''psql''" by code_simp
  then have "skipEnvTokens (locate 0 (''psql'' # ws)) = 0" by (simp add: skipEnvTokens_def plain_word)
  moreover have "pathBase (dropWhile (\<lambda>c. c = CHR ''('') ''psql'') \<noteq> ''docker''" by code_simp
  ultimately show ?thesis by (simp add: progIdx_def skipEnvAndDockerExec_def Let_def plain_word)
qed

lemma segment_of_cmd: "(ws, dl) \<in> set cs \<Longrightarrow> \<exists>b. \<lparr>sg_text = renderCmd ws, sg_offset = b\<rparr> \<in> set (segmentsAt b0 cs)"
proof (induction cs arbitrary: b0)
  case (Cons c cs)
  obtain ws2 dl2 where c: "c = (ws2, dl2)" by (cases c)
  show ?case
  proof (cases "(ws, dl) = c")
    case True
    then show ?thesis using c by auto
  next
    case False
    then have "(ws, dl) \<in> set cs" using Cons.prems by auto
    from Cons.IH [OF this] show ?thesis unfolding c segmentsAt.simps by (meson list.set_intros(2))
  qed
qed simp

lemma query_found:
  assumes "isLine cs" "(''psql'' # pre @ args @ tail, dl) \<in> set cs" "list_all (\<lambda>w. \<not> hasPrefix (wordVal w) ''-'') pre"
    "args \<in> set (queryForms sql)" "sql \<noteq> []"
  shows "\<exists>iv\<in>set (findPsqlInvocations (renderLine cs)). sql \<in> set (queries iv)"
proof -
  let ?ws = "''psql'' # pre @ args @ tail"
  have ne: "cs \<noteq> []" using assms(2) by auto
  obtain b where b: "\<lparr>sg_text = renderCmd ?ws, sg_offset = b\<rparr> \<in> set (segmentsAt 0 cs)"
    using segment_of_cmd [OF assms(2)] by blast
  have "isCmd ?ws" using assms(1,2) by (auto simp: isLine_def list_all_iff)
  then have tok: "tokenizeWithOffsets (renderCmd ?ws) b = locate b ?ws" using tokenize_cmd by (simp add: isCmd_def)
  have "pathBase ''psql'' = ''psql''" by code_simp
  then have "isPsqlCmd ?ws" by (simp add: isPsqlCmd_def progIdx_psql plain_word)
  moreover have "sql \<in> set (queries (psqlInv ?ws))"
    using args_take_query [OF assms(4,5)] args_skip_operands [OF assms(3), of _ 0 "args @ tail"]
    by (simp add: psqlInv_def progIdx_psql parsePsqlArgs_def)
  ultimately obtain iv where iv: "iv \<in> set (psqlOfTokens (locate b ?ws))" "sql \<in> set (queries iv)"
    unfolding psqlOf_locate by simp
  then have "iv \<in> set (concat (map (\<lambda>seg. psqlOfTokens (tokenizeWithOffsets (sg_text seg) (sg_offset seg))) (segmentsAt 0 cs)))"
    using b tok by force
  then show ?thesis using iv(2) find_line [OF assms(1) ne] by auto
qed


definition wholeTableInfo :: SQLStatementInfo where
  "wholeTableInfo = \<lparr>Columns = [\<lparr>col_Name = ''id'', TableOID = 7, AttrNum = 1\<rparr>], TableColCounts = [(7, 1)],
     TableNamesByOID = [(7, ''t'')], RelColCounts = [], si_Plan = None\<rparr>"

definition wholeTableDescriber :: SQLDescriber where
  "wholeTableDescriber = \<lparr>ds_Describe = (\<lambda>_. Inr (Some wholeTableInfo)), ds_SchemaHint = (\<lambda>_ _. [])\<rparr>"


end
