(* ===== verification/ShareGuard.thy ===== *)
theory ShareGuard
  imports GoPath SqlGuard
begin

text \<open>
  The guard of the read-only mounts (\<^verbatim>\<open>services/eri/pkg/guard/share.go\<close>), the tool call
  arguments it reads (\<^verbatim>\<open>types.go\<close>), the quote-aware shell splitter it shares with the search and
  commit guards (\<^verbatim>\<open>search.go\<close>, \<^verbatim>\<open>commit.go\<close>), and the loop that runs all guards
  (\<^verbatim>\<open>guard.go\<close>).

  The file system is a parameter: what \<^verbatim>\<open>filepath.EvalSymlinks\<close> and \<^verbatim>\<open>os.Getwd\<close> answer.
  Command lines come out of a JSON string and are therefore valid UTF-8, so the splitter, which
  walks runes, is written on bytes: every byte it looks at is ASCII.
\<close>

section \<open>Tool calls\<close>

record ToolArgs =
  a_TargetFile :: string
  a_AbsolutePath :: string
  a_Path :: string
  a_File :: string
  a_StartLine :: int
  a_EndLine :: int
  a_CommandLine :: string
  a_Cwd :: string
  a_ServerName :: string
  a_ToolName :: string
  a_Arguments :: string
  a_ServerNameLower :: string
  a_ToolNameLower :: string
  a_ArgumentsLower :: string
  a_Action :: string
  a_WaitMsBeforeAsync :: string
  a_IsDaemon :: string

definition emptyArgs :: ToolArgs where
  "emptyArgs = \<lparr>a_TargetFile = [], a_AbsolutePath = [], a_Path = [], a_File = [], a_StartLine = 0, a_EndLine = 0,
     a_CommandLine = [], a_Cwd = [], a_ServerName = [], a_ToolName = [], a_Arguments = [], a_ServerNameLower = [],
     a_ToolNameLower = [], a_ArgumentsLower = [], a_Action = [], a_WaitMsBeforeAsync = [], a_IsDaemon = []\<rparr>"

definition FilePath :: "ToolArgs \<Rightarrow> string" where
  "FilePath a = (if a_TargetFile a \<noteq> [] then a_TargetFile a
     else if a_AbsolutePath a \<noteq> [] then a_AbsolutePath a
     else if a_Path a \<noteq> [] then a_Path a else a_File a)"

definition hasAnyField :: "ToolArgs \<Rightarrow> bool" where
  "hasAnyField a = (FilePath a \<noteq> [] \<or> a_CommandLine a \<noteq> [] \<or> a_Cwd a \<noteq> []
     \<or> a_ToolName a \<noteq> [] \<or> a_ServerName a \<noteq> [] \<or> a_ToolNameLower a \<noteq> [] \<or> a_ServerNameLower a \<noteq> []
     \<or> a_Action a \<noteq> [] \<or> a_Arguments a \<noteq> [] \<or> a_ArgumentsLower a \<noteq> []
     \<or> a_WaitMsBeforeAsync a \<noteq> [] \<or> a_IsDaemon a \<noteq> [])"

definition normalizeToolName :: "string \<Rightarrow> string" where
  "normalizeToolName toolName = (let n = toLower (trimSpace toolName)
     in rev (takeWhile (\<lambda>c. c \<noteq> CHR '':'') (rev n)))"

section \<open>Protected paths\<close>

record fsys =
  evalSymlinks :: "string \<Rightarrow> string option"
  getwd :: "string option"

definition ProtectedPrefixes :: "string list" where
  "ProtectedPrefixes = [''/share/aerial'', ''/share/aerial-config'']"

text \<open>The loop over the ancestors of a path that does not exist.\<close>

function nearestReal :: "fsys \<Rightarrow> string \<Rightarrow> string \<Rightarrow> string \<Rightarrow> string" where
  "nearestReal fs absPath parent base =
     (if parent = ''/'' \<or> parent = ''.'' then absPath
      else case evalSymlinks fs parent of
        Some resolvedParent \<Rightarrow> pathJoin resolvedParent base
      | None \<Rightarrow> nearestReal fs absPath (pathDir parent) (pathJoin (pathBase parent) base))"
  by pat_completeness auto
termination
  by (relation "measure (\<lambda>(fs, absPath, parent, base). dirMeasure parent)") (auto intro: pathDir_decreases)

declare nearestReal.simps [simp del]

definition realPathOf :: "fsys \<Rightarrow> string \<Rightarrow> string" where
  "realPathOf fs absPath = (case evalSymlinks fs absPath of Some r \<Rightarrow> r
     | None \<Rightarrow> nearestReal fs absPath (pathDir absPath) (pathBase absPath))"

definition IsProtectedPath :: "fsys \<Rightarrow> string \<Rightarrow> bool" where
  "IsProtectedPath fs path =
     (let p = trimSpace path in
      if p = [] then False
      else let clean = pathClean p;
               absPath = (case pathAbs (getwd fs) clean of Some a \<Rightarrow> a | None \<Rightarrow> clean);
               realPath = realPathOf fs absPath
           in list_ex (\<lambda>prefix.
                let realPrefix = (case evalSymlinks fs prefix of Some r \<Rightarrow> r | None \<Rightarrow> prefix)
                in realPath = realPrefix \<or> hasPrefix realPath (realPrefix @ ''/'')) ProtectedPrefixes)"

section \<open>Splitting shell commands\<close>

definition detectDelimiter :: "string \<Rightarrow> (char \<times> nat) option" where
  "detectDelimiter chars = (case chars of [] \<Rightarrow> None | r # rest \<Rightarrow>
     if r = CHR ''&'' \<and> hasPrefix rest ''&'' then Some (CHR ''&'', 1)
     else if r = CHR ''|'' \<and> hasPrefix rest ''|'' then Some (CHR '';'', 1)
     else if r = CHR '';'' \<or> r = CHR ''|'' \<or> r = CHR 0x0A then Some (r, 0) else None)"

text \<open>
  A flush: the command, if any, with the operator before it, and the operator before the next
  (\<^const>\<open>None\<close> for the rune 0).
\<close>

definition segFlush :: "string \<Rightarrow> char option \<Rightarrow> char option \<Rightarrow> (string \<times> char option) list \<times> char option" where
  "segFlush current lastOp nextOp =
     (let s = trimSpace current in
      if s \<noteq> [] then ([(s, lastOp)], nextOp)
      else ([], if nextOp = Some (CHR ''|'') then nextOp else lastOp))"

function segLoop :: "string \<Rightarrow> char option \<Rightarrow> bool \<Rightarrow> bool \<Rightarrow> bool \<Rightarrow> string \<Rightarrow> (string \<times> char option) list" where
  "segLoop cur lastOp inSingle inDouble escaped [] = fst (segFlush cur lastOp None)"
| "segLoop cur lastOp inSingle inDouble escaped (r # rest) =
     (if escaped then segLoop (cur @ [r]) lastOp inSingle inDouble False rest
      else if r = CHR 0x5C \<and> \<not> inSingle then segLoop (cur @ [r]) lastOp inSingle inDouble True rest
      else if r = CHR 0x27 \<and> \<not> inDouble then segLoop (cur @ [r]) lastOp (\<not> inSingle) inDouble False rest
      else if r = CHR 0x22 \<and> \<not> inSingle then segLoop (cur @ [r]) lastOp inSingle (\<not> inDouble) False rest
      else if \<not> inSingle \<and> \<not> inDouble then
        (case detectDelimiter (r # rest) of
           Some (op, adv) \<Rightarrow> fst (segFlush cur lastOp (Some op))
             @ segLoop [] (snd (segFlush cur lastOp (Some op))) False False False (drop adv rest)
         | None \<Rightarrow> segLoop (cur @ [r]) lastOp False False False rest)
      else segLoop (cur @ [r]) lastOp inSingle inDouble False rest)"
  by pat_completeness auto
termination
  by (relation "measure (\<lambda>(cur, l, s, d, e, rest). length rest)") auto

definition splitPipelineSegments :: "string \<Rightarrow> (string \<times> char option) list" where
  "splitPipelineSegments cmd = segLoop [] None False False False cmd"

definition splitPipeline :: "string \<Rightarrow> string list" where
  "splitPipeline cmd = map fst (splitPipelineSegments cmd)"

fun qaLoop :: "string \<Rightarrow> bool \<Rightarrow> bool \<Rightarrow> bool \<Rightarrow> string \<Rightarrow> string list" where
  "qaLoop cur inSingle inDouble escaped [] = (if cur \<noteq> [] then [cur] else [])"
| "qaLoop cur inSingle inDouble escaped (r # rest) =
     (if escaped then qaLoop (cur @ [r]) inSingle inDouble False rest
      else if r = CHR 0x5C \<and> \<not> inSingle then qaLoop cur inSingle inDouble True rest
      else if r = CHR 0x27 \<and> \<not> inDouble then qaLoop cur (\<not> inSingle) inDouble False rest
      else if r = CHR 0x22 \<and> \<not> inSingle then qaLoop cur inSingle (\<not> inDouble) False rest
      else if \<not> inSingle \<and> \<not> inDouble \<and> (r = CHR '' '' \<or> r = CHR 0x09 \<or> r = CHR 0x0A) then
        (if cur \<noteq> [] then cur # qaLoop [] inSingle inDouble False rest else qaLoop [] inSingle inDouble False rest)
      else qaLoop (cur @ [r]) inSingle inDouble False rest)"

definition tokenizeQuoteAware :: "string \<Rightarrow> string list" where
  "tokenizeQuoteAware sub = qaLoop [] False False False sub"

fun argAfterDashC :: "string list \<Rightarrow> string option" where
  "argAfterDashC [] = None"
| "argAfterDashC (t # ts) = (if t = ''-c'' \<and> ts \<noteq> [] then Some (hd ts) else argAfterDashC ts)"

definition unwrapShellScriptCommand :: "string list \<Rightarrow> string option" where
  "unwrapShellScriptCommand tokens =
     (if length tokens < 3 then None
      else if toLower (pathBase (hd tokens)) \<notin> {''bash'', ''sh'', ''zsh''} then None
      else argAfterDashC tokens)"

section \<open>Commands that would write to a protected path\<close>

fun redirectTargets :: "string list \<Rightarrow> string list" where
  "redirectTargets [] = []"
| "redirectTargets (t # ts) =
     (if hasPrefix t ''>'' then
        (let target = dropWhile (\<lambda>c. c = CHR ''>'') t;
             target = (if target = [] \<and> ts \<noteq> [] then hd ts else target)
         in (if target \<noteq> [] then [target] else []) @ redirectTargets ts)
      else redirectTargets ts)"

definition hasProtectedOutputRedirect :: "fsys \<Rightarrow> string \<Rightarrow> bool" where
  "hasProtectedOutputRedirect fs cmd =
     (contains cmd ''>'' \<and> list_ex (IsProtectedPath fs) (redirectTargets (fieldsLoop [] cmd)))"

fun gitCommandTargetsShare :: "fsys \<Rightarrow> string list \<Rightarrow> bool" where
  "gitCommandTargetsShare fs [] = False"
| "gitCommandTargetsShare fs (t # ts) =
     ((t = ''-C'' \<and> ts \<noteq> [] \<and> IsProtectedPath fs (hd ts))
      \<or> (hasPrefix t ''-C'' \<and> length t > 2 \<and> IsProtectedPath fs (trimPrefix t ''-C''))
      \<or> (hasPrefix t ''--git-dir='' \<and> IsProtectedPath fs (trimPrefix t ''--git-dir=''))
      \<or> (hasPrefix t ''--work-tree='' \<and> IsProtectedPath fs (trimPrefix t ''--work-tree=''))
      \<or> gitCommandTargetsShare fs ts)"

definition hasProtectedPositionalArg :: "fsys \<Rightarrow> string list \<Rightarrow> bool" where
  "hasProtectedPositionalArg fs args = list_ex (\<lambda>arg. \<not> hasPrefix arg ''-'' \<and> IsProtectedPath fs arg) args"

definition isMutatingGitSubcommand :: "string \<Rightarrow> bool" where
  "isMutatingGitSubcommand s = (s \<in> {''add'', ''commit'', ''checkout'', ''switch'', ''merge'', ''rebase'', ''reset'', ''pull'',
     ''push'', ''apply'', ''cherry-pick'', ''revert'', ''stash''})"

definition isMutatingBinary :: "string \<Rightarrow> bool" where
  "isMutatingBinary s = (s \<in> {''rm'', ''touch'', ''mv'', ''cp'', ''mkdir'', ''rmdir'', ''sed'', ''tee'', ''chmod'', ''chown''})"

fun isGitMutating :: "string list \<Rightarrow> bool" where
  "isGitMutating [] = False"
| "isGitMutating (arg # rest) =
     (if arg = ''-C'' \<and> rest \<noteq> [] then isGitMutating (drop 1 rest)
      else if hasPrefix arg ''-C'' \<or> hasPrefix arg ''--git-dir='' \<or> hasPrefix arg ''--work-tree='' then isGitMutating rest
      else if hasPrefix arg ''-'' then isGitMutating rest
      else let subcmd = toLower arg
           in isMutatingGitSubcommand subcmd
              \<or> (subcmd = ''branch'' \<and> list_ex (\<lambda>opt. opt = ''-d'' \<or> opt = ''-D'' \<or> hasPrefix opt ''--delete'') rest))"

text \<open>What one command does, apart from the script a shell runs.\<close>

definition mutatesShare :: "fsys \<Rightarrow> bool \<Rightarrow> string list \<Rightarrow> bool" where
  "mutatesShare fs cwdProtected tokens =
     (let cmdBin = toLower (pathBase (hd tokens))
      in (cmdBin = ''git'' \<and> (cwdProtected \<or> gitCommandTargetsShare fs tokens) \<and> isGitMutating (tl tokens))
         \<or> (cwdProtected \<and> isMutatingBinary cmdBin)
         \<or> (isMutatingBinary cmdBin \<and> hasProtectedPositionalArg fs (tl tokens)))"

text \<open>Splitting never lengthens, so the script of \<^verbatim>\<open>bash -c\<close> is shorter than the line it is on.\<close>

lemma segFlush_len: "(c, op) \<in> set (fst (segFlush cur l nx)) \<Longrightarrow> length c \<le> length cur"
  using length_trimSpace [of cur] by (auto simp: segFlush_def Let_def split: if_splits)

lemma segLoop_len: "(c, op) \<in> set (segLoop cur l s d e rest) \<Longrightarrow> length c \<le> length cur + length rest"
proof (induction cur l s d e rest rule: segLoop.induct)
  case (1 cur l s d e)
  then show ?case using segFlush_len by force
next
  case (2 cur l s d e r rest)
  show ?case
  proof (cases "\<not> e \<and> \<not> (r = CHR 0x5C \<and> \<not> s) \<and> \<not> (r = CHR 0x27 \<and> \<not> d) \<and> \<not> (r = CHR 0x22 \<and> \<not> s) \<and> \<not> s \<and> \<not> d")
    case True
    show ?thesis
    proof (cases "detectDelimiter (r # rest)")
      case None
      then show ?thesis using 2 True by auto
    next
      case (Some a)
      obtain o' adv where a: "a = (o', adv)" by (cases a)
      then have "segLoop cur l s d e (r # rest) = fst (segFlush cur l (Some o'))
             @ segLoop [] (snd (segFlush cur l (Some o'))) False False False (drop adv rest)" using True Some by auto
      then show ?thesis using "2.prems" "2.IH"(6) [OF _ _ _ _ _ Some a [symmetric]] True segFlush_len [of c op cur l "Some o'"]
        by fastforce
    qed
  next
    case False
    then show ?thesis using 2 by (auto split: if_splits)
  qed
qed

lemma splitPipeline_len: "sub \<in> set (splitPipeline cmd) \<Longrightarrow> length sub \<le> length cmd"
  using segLoop_len [of sub _ "[]" None False False False cmd] by (auto simp: splitPipeline_def splitPipelineSegments_def)

lemma qaLoop_len: "sum_list (map length (qaLoop cur s d e rest)) \<le> length cur + length rest"
proof (induction rest arbitrary: cur s d e)
  case (Cons r rest)
  have blank: "length cur + sum_list (map length (qaLoop [] s d False rest)) \<le> Suc (length cur + length rest)" for s d
    using Cons.IH [of "[]" s d False] by simp
  have other: "sum_list (map length (qaLoop c s d e rest)) \<le> Suc (length cur + length rest)"
    if "length c \<le> Suc (length cur)" for c s d e using Cons.IH [of c s d e] that by simp
  have "sum_list (map length (qaLoop [] s d False rest)) \<le> Suc (length rest)" for s d
    using Cons.IH [of "[]" s d False] by simp
  then show ?case by (simp add: blank other)
qed simp

lemma qaLoop_nonempty: "[] \<notin> set (qaLoop cur s d e rest)"
  by (induction rest arbitrary: cur s d e) auto

lemma member_shorter:
  assumes "x \<in> set xs" "length xs \<ge> 2" "[] \<notin> set xs" shows "length x < sum_list (map length xs)"
proof -
  obtain ys zs where xs: "xs = ys @ x # zs" using assms(1) by (meson split_list)
  have pos: "sum_list (map length ws) > 0" if "ws \<noteq> []" "[] \<notin> set ws" for ws :: "'a list list"
    using that by (cases ws) auto
  have "ys \<noteq> [] \<or> zs \<noteq> []" using assms(2) xs by auto
  then show ?thesis using pos [of ys] pos [of zs] assms(3) xs by auto
qed

lemma argAfterDashC_in: "argAfterDashC ts = Some x \<Longrightarrow> x \<in> set ts"
  by (induction ts) (auto split: if_splits)

lemma script_shorter:
  assumes "unwrapShellScriptCommand (tokenizeQuoteAware sub) = Some script" "sub \<in> set (splitPipeline cmd)"
  shows "length script < length cmd"
proof -
  let ?ts = "tokenizeQuoteAware sub"
  have "script \<in> set ?ts" "length ?ts \<ge> 2"
    using assms(1) argAfterDashC_in by (auto simp: unwrapShellScriptCommand_def split: if_splits)
  then have "length script < sum_list (map length ?ts)"
    using member_shorter qaLoop_nonempty by (metis tokenizeQuoteAware_def)
  also have "\<dots> \<le> length sub" using qaLoop_len [of "[]"] by (simp add: tokenizeQuoteAware_def)
  also have "\<dots> \<le> length cmd" using assms(2) by (rule splitPipeline_len)
  finally show ?thesis .
qed

function inspectRunCommand :: "fsys \<Rightarrow> string \<Rightarrow> string \<Rightarrow> bool" where
  "inspectRunCommand fs cmd cwd =
     (hasProtectedOutputRedirect fs cmd
      \<or> list_ex (\<lambda>sub. let tokens = tokenizeQuoteAware sub in
            if tokens = [] then False
            else (case unwrapShellScriptCommand tokens of
                    Some script \<Rightarrow> inspectRunCommand fs script cwd
                  | None \<Rightarrow> False)
                 \<or> mutatesShare fs (IsProtectedPath fs cwd) tokens)
          (splitPipeline cmd))"
  by pat_completeness auto
termination
  by (relation "measure (\<lambda>(fs, cmd, cwd). length cmd)") (auto intro: script_shorter)

declare inspectRunCommand.simps [simp del]

definition ShareDenyReason :: string where
  "ShareDenyReason = ''Target is mounted read-only (:ro). Direct edits and mutating commands in ''
     @ ''/share/aerial and /share/aerial-config are blocked to prevent EROFS errors. ''
     @ ''Please initialize an ephemeral scratch workspace via '' @ [CHR 0x27] @ ''scripts/aerial-pr.sh init <repo>'' @ [CHR 0x27]
     @ '' to author and verify your changes safely.''"

definition isEditTool :: "string \<Rightarrow> bool" where
  "isEditTool n = (n \<in> {''replace_file_content'', ''write_to_file'', ''edit_file'', ''write_file''})"

definition CheckShare :: "fsys \<Rightarrow> string \<Rightarrow> ToolArgs \<Rightarrow> Decision" where
  "CheckShare fs toolName args =
     (let n = normalizeToolName toolName
      in if isEditTool n \<and> IsProtectedPath fs (FilePath args) then denyDec ShareDenyReason
         else if n = ''run_command'' \<and> inspectRunCommand fs (a_CommandLine args) (a_Cwd args) then denyDec ShareDenyReason
         else allowDec)"

section \<open>Paths are judged by what they resolve to\<close>

text \<open>
  The specification, on components: the path itself if it exists, else its longest existing
  ancestor below the root with the missing components put back.
\<close>

fun nearestAncestor :: "fsys \<Rightarrow> string list \<Rightarrow> nat \<Rightarrow> string" where
  "nearestAncestor fs cs 0 = absOf cs"
| "nearestAncestor fs cs (Suc k) = (case evalSymlinks fs (absOf (take (Suc k) cs)) of
       Some r \<Rightarrow> pathJoin r (joinWith ''/'' (drop (Suc k) cs))
     | None \<Rightarrow> nearestAncestor fs cs k)"

definition resolvedOf :: "fsys \<Rightarrow> string list \<Rightarrow> string" where
  "resolvedOf fs cs = (case evalSymlinks fs (absOf cs) of Some r \<Rightarrow> r
     | None \<Rightarrow> nearestAncestor fs cs (length cs - 1))"

definition withinPath :: "string \<Rightarrow> string \<Rightarrow> bool" where
  "withinPath p q = (p = q \<or> (\<exists>r. p = q @ CHR ''/'' # r))"

lemma absOf_not_root: "list_all isElem cs \<Longrightarrow> cs \<noteq> [] \<Longrightarrow> absOf cs \<noteq> ''/'' \<and> absOf cs \<noteq> ''.''"
  by (cases cs; cases "tl cs") (auto simp: absOf_def isElem_def)

lemma nearestReal_absOf:
  "list_all isElem cs \<Longrightarrow> k < length cs \<Longrightarrow>
   nearestReal fs (absOf cs) (absOf (take k cs)) (joinWith ''/'' (drop k cs)) = nearestAncestor fs cs k"
proof (induction k)
  case 0
  then show ?case by (simp add: nearestReal.simps) (simp add: absOf_def)
next
  case (Suc k)
  have el: "list_all isElem (take n cs)" "list_all isElem (drop n cs)" for n
    using Suc.prems(1) by (auto simp: list_all_iff dest: in_set_takeD in_set_dropD)
  have sn: "take (Suc k) cs = take k cs @ [cs ! k]" using Suc.prems(2) by (simp add: take_Suc_conv_app_nth)
  have ck: "isElem (cs ! k)" using Suc.prems by (simp add: list_all_length)
  have dk: "drop k cs = cs ! k # drop (Suc k) cs" using Suc.prems(2) by (simp add: Cons_nth_drop_Suc)
  have nr: "absOf (take (Suc k) cs) \<noteq> ''/'' \<and> absOf (take (Suc k) cs) \<noteq> ''.''"
    using absOf_not_root [OF el(1)] Suc.prems(2) by (metis Suc_lessD length_greater_0_conv sn snoc_eq_iff_butlast)
  have "pathDir (absOf (take (Suc k) cs)) = absOf (take k cs)" "pathBase (absOf (take (Suc k) cs)) = cs ! k"
    unfolding sn using pathDir_absOf [OF el(1) ck] pathBase_absOf [OF ck] by simp_all
  moreover have "pathJoin (cs ! k) (joinWith ''/'' (drop (Suc k) cs)) = joinWith ''/'' (drop k cs)"
    unfolding dk using pathJoin_rel [OF ck el(2)] Suc.prems(2) by simp
  ultimately show ?case
    using Suc nr by (simp add: nearestReal.simps [of fs _ "absOf (take (Suc k) cs)"] split: option.splits)
qed

lemma realPathOf_absOf: "list_all isElem cs \<Longrightarrow> realPathOf fs (absOf cs) = resolvedOf fs cs"
proof (cases cs rule: rev_cases)
  case Nil
  have "pathDir ''/'' = ''/''" by code_simp
  then show ?thesis
    by (auto simp: Nil realPathOf_def resolvedOf_def absOf_def nearestReal.simps split: option.splits)
next
  case (snoc ds c)
  assume cs: "list_all isElem cs"
  then have "pathDir (absOf cs) = absOf (take (length cs - 1) cs)"
    "pathBase (absOf cs) = joinWith ''/'' (drop (length cs - 1) cs)"
    using snoc pathDir_absOf [of ds c] pathBase_absOf [of c ds] by simp_all
  then show ?thesis
    using nearestReal_absOf [OF cs, of "length cs - 1" fs] snoc by (simp add: realPathOf_def resolvedOf_def split: option.splits)
qed

lemma hasPrefix_within: "p = q \<or> hasPrefix p (q @ ''/'') \<longleftrightarrow> withinPath p q"
  by (auto simp: withinPath_def hasPrefix_iff)

lemma protected_abs:
  assumes "hasPrefix (trimSpace p) ''/''"
  shows "IsProtectedPath fs p \<longleftrightarrow> (\<exists>prefix\<in>set ProtectedPrefixes.
    withinPath (resolvedOf fs (pathElems (trimSpace p))) (case evalSymlinks fs prefix of Some r \<Rightarrow> r | None \<Rightarrow> prefix))"
proof -
  let ?cs = "pathElems (trimSpace p)"
  have "trimSpace p \<noteq> []" using assms by auto
  moreover have "pathClean (trimSpace p) = absOf ?cs" using assms by (rule pathClean_rooted)
  moreover have "pathAbs (getwd fs) (absOf ?cs) = Some (absOf ?cs)" by (simp add: pathAbs_def pathElems_elem)
  ultimately show ?thesis
    unfolding IsProtectedPath_def Let_def hasPrefix_within by (simp add: realPathOf_absOf pathElems_elem list_ex_iff)
qed

text \<open>
  C20. Whether an absolute path is protected depends only on what it resolves to: its components after
  removing \<^verbatim>\<open>.\<close>, \<^verbatim>\<open>..\<close> and repeated slashes, followed through the symbolic links of
  the path or of its longest existing ancestor. The loop over the ancestors terminates.
\<close>

theorem share_path_decided:
  assumes "hasPrefix (trimSpace p) ''/''"
  shows "IsProtectedPath fs p \<longleftrightarrow> (\<exists>prefix\<in>set ProtectedPrefixes.
    withinPath (resolvedOf fs (pathElems (trimSpace p))) (case evalSymlinks fs prefix of Some r \<Rightarrow> r | None \<Rightarrow> prefix))"
  using assms by (rule protected_abs)

theorem share_path_decided_witness:
  "IsProtectedPath \<lparr>evalSymlinks = (\<lambda>p. if p = ''/tmp/x'' then Some ''/share/aerial/src'' else None), getwd = None\<rparr>
     ''/tmp//./x/new/../main.go''"
proof -
  let ?fs = "\<lparr>evalSymlinks = (\<lambda>p. if p = ''/tmp/x'' then Some ''/share/aerial/src'' else None), getwd = None\<rparr>"
  have e: "pathElems (trimSpace ''/tmp//./x/new/../main.go'') = [''tmp'', ''x'', ''main.go'']" by code_simp
  have r: "resolvedOf ?fs [''tmp'', ''x'', ''main.go''] = ''/share/aerial/src/main.go''" by code_simp
  have "withinPath ''/share/aerial/src/main.go'' ''/share/aerial''" by (simp add: withinPath_def)
  moreover have "hasPrefix (trimSpace ''/tmp//./x/new/../main.go'') ''/''" by code_simp
  ultimately show ?thesis
    using share_path_decided [of "''/tmp//./x/new/../main.go''" ?fs] e r by (auto simp: ProtectedPrefixes_def)
qed

text \<open>Without symbolic links a path resolves to its own components.\<close>

lemma resolved_plain:
  assumes "\<And>q. evalSymlinks fs q = None \<or> evalSymlinks fs q = Some q" "list_all isElem cs"
  shows "resolvedOf fs cs = absOf cs"
proof -
  have el: "list_all isElem (take n cs)" "list_all isElem (drop n cs)" for n
    using assms(2) by (auto simp: list_all_iff dest: in_set_takeD in_set_dropD)
  have "nearestAncestor fs cs k = absOf cs" for k
  proof (induction k)
    case (Suc k)
    then show ?case
      using assms(1) [of "absOf (take (Suc k) cs)"] pathJoin_absOf [OF el(1) el(2), of "Suc k" "Suc k"] by auto
  qed simp
  then show ?thesis using assms(1) [of "absOf cs"] by (auto simp: resolvedOf_def)
qed

lemma absOf_within: "withinPath (absOf (cs @ ds)) (absOf cs)" if "cs \<noteq> []"
proof (cases ds)
  case (Cons d ds')
  have "joinWith ''/'' (xs @ d # ds') = joinWith ''/'' xs @ CHR ''/'' # joinWith ''/'' (d # ds')" if "xs \<noteq> []" for xs
    using that by (induction "''/''" xs rule: joinWith.induct) auto
  then show ?thesis using that Cons by (auto simp: withinPath_def absOf_def)
qed (simp add: withinPath_def)



section \<open>Commands are judged however they are quoted or nested\<close>

lemma detect_plain: "\<not> isShellMeta ch \<Longrightarrow> detectDelimiter (ch # rest) = None"
  by (auto simp: detectDelimiter_def isShellMeta_def isBlank_def)

lemma segLoop_word:
  "wordScan s d e w \<noteq> None \<Longrightarrow> segLoop cur l s d e (w @ r) = segLoop (cur @ w) l False False False r"
proof (induction w arbitrary: cur s d e)
  case (Cons ch w)
  then show ?case by (auto simp: detect_plain split: if_splits)
qed (auto split: if_splits)

lemma segLoop_blank: "segLoop cur l False False False (CHR '' '' # r) = segLoop (cur @ '' '') l False False False r"
  by (simp add: detectDelimiter_def)

lemma segLoop_cmd:
  "list_all isWord ws \<Longrightarrow> segLoop cur l False False False (renderCmd ws @ r) = segLoop (cur @ renderCmd ws) l False False False r"
proof (induction ws arbitrary: cur)
  case Nil
  then show ?case by (simp add: renderCmd_def)
next
  case (Cons w ws)
  then have w: "wordScan False False False w \<noteq> None" by (auto simp: isWord_def)
  show ?case
  proof (cases ws)
    case Nil
    then show ?thesis using segLoop_word [OF w] by (simp add: renderCmd_def)
  next
    case (Cons w2 ws2)
    then have "renderCmd (w # ws) = w @ CHR '' '' # renderCmd ws" by (simp add: renderCmd_def)
    then show ?thesis using segLoop_word [OF w] Cons.IH Cons.prems by (simp add: segLoop_blank del: segLoop.simps)
  qed
qed

lemma detect_delim:
  assumes "isDelimiter dl" shows "\<exists>op. detectDelimiter (dl @ CHR '' '' # r) = Some (op, length dl - 1)"
  using assms by (auto simp: isDelimiter_def detectDelimiter_def)

lemma segFlush_cmd:
  assumes "isCmd ws" "p \<in> {[], '' ''}" "q \<in> {[], '' ''}"
  shows "map fst (fst (segFlush (p @ renderCmd ws @ q) l nx)) = [renderCmd ws]"
  using trim_edges(1) [OF _ _ _ assms(2,3), of "renderCmd ws"] renderCmd_edges [OF assms(1)] by (simp add: segFlush_def)

lemma segLoop_line:
  "isLine cs \<Longrightarrow> cs \<noteq> [] \<Longrightarrow> p \<in> {[], '' ''} \<Longrightarrow>
   map fst (segLoop p l False False False (renderLine cs)) = map (\<lambda>(ws, dl). renderCmd ws) cs"
proof (induction cs arbitrary: p l rule: renderLine.induct)
  case (2 ws dl)
  then have c: "isCmd ws" by (simp add: isLine_def)
  then show ?case using segLoop_cmd [of ws p l "[]"] segFlush_cmd [OF c "2.prems"(3), of "[]" l None] by (simp add: isCmd_def)
next
  case (3 ws dl c cs)
  then have cmd: "isCmd ws" and dl: "isDelimiter dl" and rest: "isLine (c # cs)" by (auto simp: isLine_def)
  let ?r = "CHR '' '' # renderLine (c # cs)"
  obtain op where op: "detectDelimiter (dl @ ?r) = Some (op, length dl - 1)" using detect_delim [OF dl] by blast
  obtain d0 dl' where d0: "dl = d0 # dl'" using delim_step(2) [OF dl] by (cases dl) auto
  have step: "segLoop q l False False False (dl @ ?r) = fst (segFlush q l (Some op))
      @ segLoop [] (snd (segFlush q l (Some op))) False False False ?r" for q
    using op delim_step(3) [OF dl] unfolding d0 by simp
  have a: "segLoop p l False False False (renderLine ((ws, dl) # c # cs)) = segLoop (p @ renderCmd ws @ '' '') l False False False (dl @ ?r)"
    using segLoop_cmd [of ws p l] cmd by (simp add: isCmd_def segLoop_blank del: segLoop.simps)
  have b: "map fst (segLoop (p @ renderCmd ws @ '' '') l False False False (dl @ ?r)) = renderCmd ws
      # map fst (segLoop '' '' (snd (segFlush (p @ renderCmd ws @ '' '') l (Some op))) False False False (renderLine (c # cs)))"
    unfolding step using segFlush_cmd [OF cmd "3.prems"(3), of "'' ''" l "Some op"] by (simp add: segLoop_blank del: segLoop.simps)
  show ?case unfolding a b using "3.IH" [OF rest, of "'' ''"] by simp
qed simp

lemma splitPipeline_line: "isLine cs \<Longrightarrow> splitPipeline (renderLine cs) = map (\<lambda>(ws, dl). renderCmd ws) cs"
  using segLoop_line [of cs "[]" None]
  by (cases "cs = []") (auto simp: splitPipeline_def splitPipelineSegments_def segFlush_def)

lemma isShellMeta_blank [simp]: "isShellMeta (CHR '' '')" "isShellMeta (CHR 0x09)" "isShellMeta (CHR 0x0A)"
  by (simp_all add: isShellMeta_def isBlank_def)

lemma qaLoop_word:
  "wordScan s d e w = Some v \<Longrightarrow> qaLoop cur s d e (w @ r) = qaLoop (cur @ v) False False False r"
proof (induction w arbitrary: s d e v cur)
  case (Cons ch w)
  note step = Cons.IH [of _ _ _ _ "cur @ [ch]"]
  consider (esc) "e" | (q) "\<not> e" "ch = CHR 0x5C \<and> \<not> s \<or> ch = CHR 0x27 \<and> \<not> d \<or> ch = CHR 0x22 \<and> \<not> s"
    | (plain) "\<not> e" "\<not> (ch = CHR 0x5C \<and> \<not> s)" "\<not> (ch = CHR 0x27 \<and> \<not> d)" "\<not> (ch = CHR 0x22 \<and> \<not> s)" by blast
  then show ?case
  proof cases
    case esc
    then obtain v' where "v = ch # v'" "wordScan s d False w = Some v'" using Cons.prems by auto
    then show ?thesis using esc step by simp
  next
    case q
    then show ?thesis using Cons.prems Cons.IH [of _ _ _ v cur] by (elim disjE) simp_all
  next
    case plain
    then have nm: "\<not> (\<not> s \<and> \<not> d \<and> isShellMeta ch)" using Cons.prems by auto
    then have "wordScan s d e (ch # w) = map_option (Cons ch) (wordScan s d False w)" using plain by auto
    then obtain v' where v': "v = ch # v'" "wordScan s d False w = Some v'" using Cons.prems by auto
    have "qaLoop cur s d e (ch # w @ r) = qaLoop (cur @ [ch]) s d False (w @ r)"
      using plain nm by (auto simp del: qaLoop.simps simp: qaLoop.simps(2))
    then show ?thesis using step [OF v'(2)] v'(1) by simp
  qed
qed (auto split: if_splits)

lemma tokenize_words: "list_all isWord ws \<Longrightarrow> tokenizeQuoteAware (renderCmd ws) = filter (\<lambda>v. v \<noteq> []) (map wordVal ws)"
  unfolding tokenizeQuoteAware_def
proof (induction ws)
  case Nil
  then show ?case by (simp add: renderCmd_def)
next
  case (Cons w ws)
  then obtain v where v: "wordScan False False False w = Some v" by (auto simp: isWord_def)
  then have wv: "wordVal w = v" by (simp add: wordVal_def)
  show ?case
  proof (cases ws)
    case Nil
    then show ?thesis using qaLoop_word [OF v, of "[]" "[]"] wv by (simp add: renderCmd_def)
  next
    case (Cons w2 ws2)
    then have "renderCmd (w # ws) = w @ CHR '' '' # renderCmd ws" by (simp add: renderCmd_def)
    then show ?thesis using qaLoop_word [OF v, of "[]"] wv Cons.IH Cons.prems by simp
  qed
qed

text \<open>The verdict on one command, given its tokens.\<close>

definition cmdDenied :: "fsys \<Rightarrow> string \<Rightarrow> string list \<Rightarrow> bool" where
  "cmdDenied fs cwd tokens = (tokens \<noteq> [] \<and>
     ((\<exists>script. unwrapShellScriptCommand tokens = Some script \<and> inspectRunCommand fs script cwd)
      \<or> mutatesShare fs (IsProtectedPath fs cwd) tokens))"

lemma inspectRunCommand_iff:
  "inspectRunCommand fs cmd cwd \<longleftrightarrow> hasProtectedOutputRedirect fs cmd
     \<or> (\<exists>sub\<in>set (splitPipeline cmd). cmdDenied fs cwd (tokenizeQuoteAware sub))"
proof -
  have "(let tokens = tokenizeQuoteAware sub in
           if tokens = [] then False
           else (case unwrapShellScriptCommand tokens of Some script \<Rightarrow> inspectRunCommand fs script cwd | None \<Rightarrow> False)
                \<or> mutatesShare fs (IsProtectedPath fs cwd) tokens) = cmdDenied fs cwd (tokenizeQuoteAware sub)" for sub
    by (cases "unwrapShellScriptCommand (tokenizeQuoteAware sub)") (simp_all add: cmdDenied_def Let_def)
  then show ?thesis by (subst inspectRunCommand.simps) (simp add: list_ex_iff)
qed

lemma inspect_line:
  assumes "isLine cs" "(ws, dl) \<in> set cs" "cmdDenied fs cwd (filter (\<lambda>v. v \<noteq> []) (map wordVal ws))"
  shows "inspectRunCommand fs (renderLine cs) cwd"
proof -
  have "list_all isWord ws" using assms(1,2) by (auto simp: isLine_def isCmd_def list_all_iff)
  then have "cmdDenied fs cwd (tokenizeQuoteAware (renderCmd ws))" using assms(3) by (simp add: tokenize_words)
  moreover have "renderCmd ws \<in> set (splitPipeline (renderLine cs))"
    using assms(2) splitPipeline_line [OF assms(1)] by force
  ultimately show ?thesis unfolding inspectRunCommand_iff by blast
qed

text \<open>A line run through \<open>n\<close> nested shells, each quoting the script of the next.\<close>

fun nestShell :: "nat \<Rightarrow> string \<Rightarrow> string" where
  "nestShell 0 line = line"
| "nestShell (Suc n) line = renderLine [([''bash'', ''-c'', shQuote (nestShell n line)], '';'')]"

lemma bash_word: "isWord ''bash''" "wordVal ''bash'' = ''bash''" "toLower (pathBase ''bash'') = ''bash''"
  by code_simp+

lemma inspect_nil: "\<not> inspectRunCommand fs [] cwd"
  by (simp add: inspectRunCommand_iff hasProtectedOutputRedirect_def splitPipeline_def splitPipelineSegments_def segFlush_def)

lemma nested_denied:
  assumes "inspectRunCommand fs line cwd" shows "inspectRunCommand fs (nestShell n line) cwd"
proof (induction n)
  case 0
  then show ?case using assms by simp
next
  case (Suc n)
  let ?script = "nestShell n line"
  have "?script \<noteq> []" using Suc inspect_nil by metis
  then have "filter (\<lambda>v. v \<noteq> []) (map wordVal [''bash'', ''-c'', shQuote ?script]) = [''bash'', ''-c'', ?script]"
    by (simp add: bash_word plain_word)
  moreover have "unwrapShellScriptCommand [''bash'', ''-c'', ?script] = Some ?script"
    by (simp add: unwrapShellScriptCommand_def bash_word)
  ultimately have "cmdDenied fs cwd (filter (\<lambda>v. v \<noteq> []) (map wordVal [''bash'', ''-c'', shQuote ?script]))"
    using Suc by (auto simp: cmdDenied_def)
  moreover have "isLine [([''bash'', ''-c'', shQuote ?script], '';'')]"
    by (simp add: isLine_def isCmd_def isDelimiter_def bash_word plain_word)
  ultimately show ?case unfolding nestShell.simps by (rule inspect_line [rotated 2]) auto
qed



text \<open>
  A limit of the redirection check: it looks at tokens that begin with \<^verbatim>\<open>>\<close>, so a
  redirection attached to the word before it goes unseen.
\<close>

lemma share_redirect_missed:
  "inspectRunCommand \<lparr>evalSymlinks = (\<lambda>p. Some p), getwd = None\<rparr> ''echo x >/share/aerial/f'' []"
  "\<not> inspectRunCommand \<lparr>evalSymlinks = (\<lambda>p. Some p), getwd = None\<rparr> ''echo x>/share/aerial/f'' []"
  by code_simp+

section \<open>All guards in turn\<close>

text \<open>
  The loop of \<^verbatim>\<open>evaluateAllGuards\<close>. A check is a closure over the arguments, which the loop
  changes when a check overwrites the command line.
\<close>

definition threadArgs :: "Decision \<Rightarrow> ToolArgs \<Rightarrow> ToolArgs" where
  "threadArgs d args = (case d_Overwrite d ''CommandLine'' of
       Some (AnyStr s) \<Rightarrow> args\<lparr>a_CommandLine := s\<rparr> | _ \<Rightarrow> args)"

fun runChecks :: "(ToolArgs \<Rightarrow> Decision) list \<Rightarrow> ToolArgs \<Rightarrow> (string \<rightharpoonup> anyval) \<Rightarrow> Decision option \<Rightarrow> Decision" where
  "runChecks [] args mergedOverwrite lastDecision = (case lastDecision of
       None \<Rightarrow> allowDec | Some d \<Rightarrow> d\<lparr>d_Overwrite := mergedOverwrite\<rparr>)"
| "runChecks (check # checks) args mergedOverwrite lastDecision =
     (let d = check args
      in if d_Decision d = DecisionDeny then d
         else runChecks checks (threadArgs d args) (mergedOverwrite ++ d_Overwrite d) (Some d))"

definition evaluateAllGuards ::
  "fsys \<Rightarrow> (ToolArgs \<Rightarrow> Decision) \<Rightarrow> (ToolArgs \<Rightarrow> Decision) \<Rightarrow> (ToolArgs \<Rightarrow> Decision) \<Rightarrow> (ToolArgs \<Rightarrow> Decision) \<Rightarrow>
   string \<Rightarrow> ToolArgs \<Rightarrow> Decision" where
  "evaluateAllGuards fs checkSchedule checkBatch checkSearch checkCommit toolName args =
     runChecks [CheckShare fs toolName, checkSchedule, checkBatch, checkSearch, checkCommit] args Map.empty None"

text \<open>The arguments each check is called with, and at the end those the tool would run with.\<close>

fun passedArgs :: "(ToolArgs \<Rightarrow> Decision) list \<Rightarrow> ToolArgs \<Rightarrow> ToolArgs list" where
  "passedArgs [] args = [args]"
| "passedArgs (check # checks) args = args # passedArgs checks (threadArgs (check args) args)"

definition effectiveLine :: "ToolArgs \<Rightarrow> (string \<rightharpoonup> anyval) \<Rightarrow> string" where
  "effectiveLine args ow = (case ow ''CommandLine'' of Some (AnyStr s) \<Rightarrow> s | _ \<Rightarrow> a_CommandLine args)"

lemma passedArgs_nonempty [simp]: "passedArgs checks args \<noteq> []"
  by (cases checks) auto

lemma runChecks_deny:
  "d_Decision (runChecks checks args ow (Some d)) = DecisionDeny \<longleftrightarrow>
   list_ex (\<lambda>(c, a). d_Decision (c a) = DecisionDeny) (zip checks (passedArgs checks args)) \<or> (checks = [] \<and> d_Decision d = DecisionDeny)"
proof (induction checks arbitrary: args ow d)
  case (Cons c cs)
  then show ?case by (cases cs) (auto simp: Let_def)
qed simp

definition lineOverwrite :: "Decision \<Rightarrow> bool" where
  "lineOverwrite d = (case d_Overwrite d ''CommandLine'' of None \<Rightarrow> True | Some (AnyStr s) \<Rightarrow> True | _ \<Rightarrow> False)"

lemma threadArgs_line:
  "lineOverwrite d \<Longrightarrow> effectiveLine a0 ow = a_CommandLine args \<Longrightarrow>
   effectiveLine a0 (ow ++ d_Overwrite d) = a_CommandLine (threadArgs d args)"
  by (auto simp: lineOverwrite_def effectiveLine_def threadArgs_def map_add_def split: option.splits anyval.splits)

lemma runChecks_line:
  "\<forall>c\<in>set checks. \<forall>a. lineOverwrite (c a) \<Longrightarrow> effectiveLine a0 ow = a_CommandLine args \<Longrightarrow>
   d_Decision (runChecks checks args ow (Some d)) = DecisionAllow \<Longrightarrow>
   effectiveLine a0 (d_Overwrite (runChecks checks args ow (Some d))) = a_CommandLine (last (passedArgs checks args))"
proof (induction checks arbitrary: args ow d)
  case (Cons c cs)
  have nd: "d_Decision (c args) \<noteq> DecisionDeny"
  proof
    assume "d_Decision (c args) = DecisionDeny"
    then have "runChecks (c # cs) args ow (Some d) = c args" by (simp add: Let_def)
    then show False using Cons.prems(3) \<open>d_Decision (c args) = DecisionDeny\<close> by simp
  qed
  have "effectiveLine a0 (ow ++ d_Overwrite (c args)) = a_CommandLine (threadArgs (c args) args)"
    using threadArgs_line Cons.prems(1,2) by simp
  then show ?case using Cons.IH [of "ow ++ d_Overwrite (c args)" "threadArgs (c args) args" "c args"] Cons.prems(1,3) nd
    by (simp add: Let_def)
qed simp

text \<open>
  C24. All guards together: the call is denied exactly when one of the five guards denies the
  arguments as the guards before it rewrote them, and an allowed call runs the command line that
  came out of the last rewriting guard, each guard having judged the line as rewritten before it.
\<close>

theorem all_guards_compose:
  assumes "\<forall>c\<in>{schedule, batch, search, commit}. \<forall>a. lineOverwrite (c a)"
  shows "(d_Decision (evaluateAllGuards fs schedule batch search commit tool args) = DecisionDeny \<longleftrightarrow>
      list_ex (\<lambda>(c, a). d_Decision (c a) = DecisionDeny)
        (zip [CheckShare fs tool, schedule, batch, search, commit]
             (passedArgs [CheckShare fs tool, schedule, batch, search, commit] args)))
    \<and> (d_Decision (evaluateAllGuards fs schedule batch search commit tool args) = DecisionAllow \<longrightarrow>
       effectiveLine args (d_Overwrite (evaluateAllGuards fs schedule batch search commit tool args)) =
       a_CommandLine (last (passedArgs [CheckShare fs tool, schedule, batch, search, commit] args)))"
proof -
  let ?cs = "[CheckShare fs tool, schedule, batch, search, commit]"
  have start: "evaluateAllGuards fs schedule batch search commit tool args = runChecks ?cs args Map.empty (Some allowDec)"
    by (simp add: evaluateAllGuards_def Let_def)
  have "lineOverwrite (CheckShare fs tool a)" for a
    by (auto simp: CheckShare_def lineOverwrite_def allowDec_def denyDec_def Let_def)
  then have "\<forall>c\<in>set ?cs. \<forall>a. lineOverwrite (c a)" using assms by auto
  moreover have "effectiveLine args Map.empty = a_CommandLine args" by (simp add: effectiveLine_def)
  ultimately show ?thesis
    unfolding start using runChecks_deny [of ?cs args Map.empty allowDec] runChecks_line [of ?cs args Map.empty args allowDec]
    by blast
qed

theorem all_guards_compose_witness:
  "effectiveLine (emptyArgs\<lparr>a_CommandLine := ''psql''\<rparr>)
     (d_Overwrite (evaluateAllGuards \<lparr>evalSymlinks = (\<lambda>p. Some p), getwd = None\<rparr> (\<lambda>a. allowDec) (\<lambda>a. allowDec)
        (\<lambda>a. inspectPsqlPipeline (a_CommandLine a) None) (\<lambda>a. allowDec) ''run_command'' (emptyArgs\<lparr>a_CommandLine := ''psql''\<rparr>)))
   = ''psql -A''"
proof -
  let ?fs = "\<lparr>evalSymlinks = (\<lambda>p. Some p), getwd = None\<rparr>" and ?args = "emptyArgs\<lparr>a_CommandLine := ''psql''\<rparr>"
    and ?search = "\<lambda>a. inspectPsqlPipeline (a_CommandLine a) None"
  have lo: "lineOverwrite allowDec" "lineOverwrite (inspectPsqlPipeline l None)" for l
    by (auto simp: lineOverwrite_def inspectPsqlPipeline_def allowDec_def Let_def)
  have sh: "CheckShare ?fs ''run_command'' ?args = allowDec"
  proof -
    have "normalizeToolName ''run_command'' = ''run_command''" "\<not> inspectRunCommand ?fs ''psql'' []" by code_simp+
    then show ?thesis by (simp add: CheckShare_def isEditTool_def Let_def emptyArgs_def)
  qed
  have al: "threadArgs allowDec a = a" for a by (simp add: threadArgs_def)
  have f: "findPsqlInvocations ''psql'' = [\<lparr>insertOffset = 4, hasFormatFlag = False, queries = []\<rparr>]" by code_simp
  then have s: "inspectPsqlPipeline ''psql'' None = allowDec\<lparr>d_Overwrite := [''CommandLine'' \<mapsto> AnyStr ''psql -A'']\<rparr>"
    by (simp add: inspectPsqlPipeline_def rewritePsql_def insertUnaligned_def)
  have "d_Decision (evaluateAllGuards ?fs (\<lambda>a. allowDec) (\<lambda>a. allowDec) ?search (\<lambda>a. allowDec) ''run_command'' ?args) = DecisionAllow"
    by (simp add: evaluateAllGuards_def sh al s Let_def)
  then show ?thesis
    using all_guards_compose [of "\<lambda>a. allowDec" "\<lambda>a. allowDec" ?search "\<lambda>a. allowDec" ?fs "''run_command''" ?args] lo sh al s
    by (simp add: threadArgs_def)
qed

end
