(* ===== verification/BatchGuard.thy ===== *)
theory BatchGuard
  imports ShareGuard
begin

text \<open>
  The batching guard (\<^verbatim>\<open>services/eri/pkg/guard/batch.go\<close>): it denies unscoped tests and
  unbounded git commands, rewrites noisy flags, widens file reads so that repeated small reads of
  one file become page reads, and keeps a record of recent tool calls per conversation.

  The state directory is a map from sanitized conversation ids to file contents; environment
  variables, the clock, whether a write succeeds and which files the garbage collection removes
  are arguments. Line numbers are unbounded integers; the bounds theorem states when the code's
  64-bit arithmetic agrees. Reaping of orphaned processes is not modelled.
\<close>

section \<open>Environment and small helpers\<close>

type_synonym env = "string \<Rightarrow> string"

definition trimRightChar :: "char \<Rightarrow> string \<Rightarrow> string" where
  "trimRightChar ch s = rev (dropWhile (\<lambda>c. c = ch) (rev s))"

fun envPositiveInt :: "env \<Rightarrow> int \<Rightarrow> string list \<Rightarrow> int" where
  "envPositiveInt getenv fallback [] = fallback"
| "envPositiveInt getenv fallback (k # ks) =
     (let raw = trimSpace (getenv k)
      in if raw = [] then envPositiveInt getenv fallback ks
         else case atoi raw of Some n \<Rightarrow> (if n > 0 then n else envPositiveInt getenv fallback ks)
              | None \<Rightarrow> envPositiveInt getenv fallback ks)"

definition minAnchorReadLines :: "env \<Rightarrow> int" where
  "minAnchorReadLines getenv = envPositiveInt getenv 120 [''AERIAL_BATCH_MIN_ANCHOR_LINES'', ''AERIAL_BATCH_MIN_PAGINATED_LINES'']"

fun stripLeadingEnv :: "string list \<Rightarrow> string list" where
  "stripLeadingEnv [] = []"
| "stripLeadingEnv (f # fs) = (if contains f ''='' \<and> \<not> hasPrefix f ''-'' then stripLeadingEnv fs else f # fs)"

fun skipDockerFlags :: "string list \<Rightarrow> string list" where
  "skipDockerFlags [] = []"
| "skipDockerFlags (t # ts) =
     (if hasPrefix t ''-'' then (if isDockerValFlag t then skipDockerFlags (drop 1 ts) else skipDockerFlags ts)
      else t # ts)"

definition unwrapCommandTokens :: "string list \<Rightarrow> string list" where
  "unwrapCommandTokens ts =
     (let tokens = stripLeadingEnv ts
      in if length tokens \<ge> 3 \<and> pathBase (dropWhile (\<lambda>c. c = CHR ''('') (hd tokens)) = ''docker'' \<and> tokens ! 1 = ''exec''
         then (let after = skipDockerFlags (drop 2 tokens)
               in if length after \<ge> 2 then stripLeadingEnv (tl after) else tokens)
         else tokens)"

section \<open>Command rules\<close>

definition isUnscopedVerify :: "string list \<Rightarrow> bool" where
  "isUnscopedVerify args = (\<not> list_ex (\<lambda>f. f = ''--staged'' \<or> f = ''-h'' \<or> f = ''--help'') args)"

definition isGoTestValFlag :: "string \<Rightarrow> bool" where
  "isGoTestValFlag f = (f \<in> {''-C'', ''-timeout'', ''-tags'', ''-coverprofile'', ''-cpu'', ''-count'', ''-o'', ''-run'', ''-test.run''})"

text \<open>The package arguments and the last \<^verbatim>\<open>-C\<close> directory.\<close>

fun goTestArgs :: "string list \<Rightarrow> string \<Rightarrow> string list \<Rightarrow> string list \<times> string" where
  "goTestArgs pkgs chdirMod [] = (pkgs, chdirMod)"
| "goTestArgs pkgs chdirMod (arg # args) =
     (let f = trimRightChar (CHR '')'') arg in
      if f = [] then goTestArgs pkgs chdirMod args
      else if hasPrefix f ''-'' then
        (let chdirMod = (if f = ''-C'' \<and> args \<noteq> [] then trimPrefix (trimRightChar (CHR '')'') (hd args)) ''./'' else chdirMod)
         in goTestArgs pkgs chdirMod (if isGoTestValFlag f then drop 1 args else args))
      else goTestArgs (pkgs @ [f]) chdirMod args)"

definition isUnscopedTarget :: "string \<Rightarrow> bool" where
  "isUnscopedTarget t = (t \<in> {''./...'', ''brain/...'', ''services/eri/...'', ''...''})"

definition isUnscopedGoTest :: "string list \<Rightarrow> bool" where
  "isUnscopedGoTest args =
     (let (pkgs, chdirMod) = goTestArgs [] [] args;
          isScopedSubmodule = (chdirMod \<noteq> [] \<and> chdirMod \<noteq> ''.'' \<and> chdirMod \<noteq> ''services/eri'')
      in pkgs = [] \<or> list_ex (\<lambda>arg. \<not> (arg = ''./...'' \<and> isScopedSubmodule) \<and> isUnscopedTarget arg) pkgs)"

text \<open>
  \<^verbatim>\<open>pytestRegex\<close> decided on the words between the white space of a regular expression's
  \<^verbatim>\<open>\s\<close>; the flags it lets through are followed by white space or the end.
\<close>

definition isReSpace :: "char \<Rightarrow> bool" where
  "isReSpace c = (c \<in> {CHR '' '', CHR 0x09, CHR 0x0A, CHR 0x0C, CHR 0x0D})"

fun reWords :: "string \<Rightarrow> string \<Rightarrow> string list" where
  "reWords cur [] = (if cur \<noteq> [] then [cur] else [])"
| "reWords cur (c # s) = (if isReSpace c then (if cur \<noteq> [] then cur # reWords [] s else reWords [] s) else reWords (cur @ [c]) s)"

definition isPytestFlag :: "string \<Rightarrow> bool" where
  "isPytestFlag w = (w \<in> {''-v'', ''-q'', ''-s'', ''-x''} \<or> (hasPrefix w ''--tb='' \<and> length w > 5))"

definition isPythonWord :: "string \<Rightarrow> bool" where
  "isPythonWord w = (hasPrefix w ''python'' \<and> list_all (\<lambda>c. isDigit c \<or> c = CHR ''.'') (drop 6 w))"

definition pytestMatches :: "string \<Rightarrow> bool" where
  "pytestMatches s = (s \<noteq> [] \<and> \<not> isReSpace (hd s) \<and> (case reWords [] s of
       [] \<Rightarrow> False
     | w # ws \<Rightarrow> (w = ''pytest'' \<and> list_all isPytestFlag ws)
         \<or> (isPythonWord w \<and> (case ws of m # p # fs \<Rightarrow> m = ''-m'' \<and> p = ''pytest'' \<and> list_all isPytestFlag fs | _ \<Rightarrow> False))))"

definition isUnscopedTestSingle :: "string \<Rightarrow> bool" where
  "isUnscopedTestSingle cmd =
     (let fields = unwrapCommandTokens (tokenizeQuoteAware (trimSpace (dropWhile (\<lambda>c. c = CHR ''('') cmd)))
      in if fields = [] then False
         else if hd fields = ''./scripts/verify.sh'' \<or> hd fields = ''scripts/verify.sh'' then isUnscopedVerify (tl fields)
         else if pytestMatches (joinWith '' '' fields) then True
         else if length fields \<ge> 2 \<and> hd fields = ''go'' \<and> fields ! 1 = ''test'' then isUnscopedGoTest (drop 2 fields)
         else False)"

definition isUnscopedTest :: "string \<Rightarrow> bool" where
  "isUnscopedTest cmd = list_ex isUnscopedTestSingle (splitPipeline cmd)"

definition isUnbatchedGitMutation :: "string \<Rightarrow> bool" where
  "isUnbatchedGitMutation cmd =
     (let trimmed = trimSpace cmd
      in if trimmed = [] then False
         else if contains trimmed ''&&'' \<or> contains trimmed '';'' \<or> contains trimmed ''||'' \<or> contains trimmed ''|'' then False
         else let parts = fieldsLoop [] trimmed
              in length parts \<ge> 2 \<and> hd parts = ''git'' \<and> (parts ! 1 = ''add'' \<or> parts ! 1 = ''commit''))"

definition isGitGlobalValFlag :: "string \<Rightarrow> bool" where
  "isGitGlobalValFlag f = (f \<in> {''-C'', ''-c'', ''--git-dir'', ''--work-tree'', ''--namespace'', ''--super-prefix'', ''--config-env''})"

text \<open>The index of the subcommand among the tokens after \<^verbatim>\<open>git\<close>, relative to them.\<close>

fun findGitSubcommand :: "nat \<Rightarrow> locatedToken list \<Rightarrow> nat option" where
  "findGitSubcommand i [] = None"
| "findGitSubcommand i (t # ts) =
     (let val = trimRightChar (CHR '')'') (tk_value t)
      in if isGitGlobalValFlag val then findGitSubcommand (i + 2) (drop 1 ts)
         else if hasPrefix val ''-'' then findGitSubcommand (i + 1) ts else Some i)"

fun shortFlagLoop :: "char \<Rightarrow> string \<Rightarrow> bool" where
  "shortFlagLoop flag [] = False"
| "shortFlagLoop flag (r # rs) = (if isDigit r then False else r = flag \<or> shortFlagLoop flag rs)"

definition hasShortFlag :: "string \<Rightarrow> char \<Rightarrow> bool" where
  "hasShortFlag token flag = (hasPrefix token ''-'' \<and> \<not> hasPrefix token ''--'' \<and> shortFlagLoop flag (drop 1 token))"

definition isGitStatusFormatFlag :: "string \<Rightarrow> bool" where
  "isGitStatusFormatFlag f = (f \<in> {''--short'', ''--porcelain'', ''--long'', ''--help'', ''-h'', ''-v'', ''--verbose''})"

definition hasGitStatusFormatFlag :: "locatedToken list \<Rightarrow> bool" where
  "hasGitStatusFormatFlag args = list_ex (\<lambda>tok. let val = trimRightChar (CHR '')'') (tk_value tok) in
     isGitStatusFormatFlag val \<or> hasPrefix val ''--porcelain='' \<or> hasShortFlag val (CHR ''s'') \<or> hasShortFlag val (CHR ''z'')) args"

text \<open>The git command of a segment: its subcommand token and what follows.\<close>

definition gitCommandOf :: "pipelineSegment \<Rightarrow> (locatedToken \<times> locatedToken list) option" where
  "gitCommandOf seg =
     (let tokens = tokenizeWithOffsets (sg_text seg) (sg_offset seg); idx = skipEnvAndDockerExec tokens
      in if idx \<ge> length tokens \<or> pathBase (dropWhile (\<lambda>c. c = CHR ''('') (tk_value (tokens ! idx))) \<noteq> ''git'' then None
         else case findGitSubcommand (idx + 1) (drop (idx + 1) tokens) of
           None \<Rightarrow> None
         | Some subIdx \<Rightarrow> Some (tokens ! subIdx, drop (subIdx + 1) tokens))"

definition gitStatusOffset :: "pipelineSegment \<Rightarrow> nat list" where
  "gitStatusOffset seg = (case gitCommandOf seg of None \<Rightarrow> [] | Some (subTok, rest) \<Rightarrow>
     (let cleanSub = trimRightChar (CHR '')'') (tk_value subTok)
      in if cleanSub = ''status'' \<and> \<not> hasGitStatusFormatFlag rest
         then [endOffset subTok - (length (tk_value subTok) - length cleanSub)] else []))"

definition shapeGitStatus :: "string \<Rightarrow> string" where
  "shapeGitStatus cmdLine = foldr (\<lambda>pos line. take pos line @ '' -sb'' @ drop pos line)
     (concat (map gitStatusOffset (splitPipelineWithOffsets cmdLine))) cmdLine"

definition isGitLogBounded :: "locatedToken list \<Rightarrow> bool" where
  "isGitLogBounded args = list_ex (\<lambda>tok. let val = trimRightChar (CHR '')'') (tk_value tok) in
     val \<in> {''-n'', ''--max-count'', ''-h'', ''--help''} \<or> hasPrefix val ''--max-count=''
     \<or> (hasPrefix val ''-n'' \<and> length val > 2 \<and> isDigit (val ! 2))
     \<or> (length val \<ge> 2 \<and> hd val = CHR ''-'' \<and> isDigit (val ! 1) \<and> val ! 1 \<noteq> CHR ''0'')) args"

definition isScopedGitDiffPath :: "string \<Rightarrow> bool" where
  "isScopedGitDiffPath val =
     (if val \<in> {[], ''.'', ''./''} \<or> contains val ''..'' then False
      else if val = ''HEAD'' \<or> hasPrefix val ''HEAD~'' \<or> hasPrefix val ''HEAD^'' \<or> hasPrefix val ''@'' \<or> val \<in> {''main'', ''master''} then False
      else if hasPrefix val ''origin/'' \<or> hasPrefix val ''upstream/'' \<or> hasPrefix val ''refs/'' then False
      else contains val ''/'' \<or> contains val ''.'' \<or> val \<in> {''Makefile'', ''Dockerfile''})"

definition hasScopedPathAfterDashDash :: "locatedToken list \<Rightarrow> bool" where
  "hasScopedPathAfterDashDash args = list_ex (\<lambda>tok. trimRightChar (CHR '')'') (tk_value tok) \<notin> {[], ''.'', ''./'', ''..''}) args"

definition isGitDiffSummaryFlag :: "string \<Rightarrow> bool" where
  "isGitDiffSummaryFlag f = (f \<in> {''--stat'', ''--shortstat'', ''--numstat'', ''--summary'', ''--name-only'', ''--name-status'',
     ''--dirstat'', ''--check'', ''--quiet'', ''--exit-code'', ''-s'', ''--no-patch'', ''-h'', ''--help''})"

definition isGitDiffValFlag :: "string \<Rightarrow> bool" where
  "isGitDiffValFlag f = (f \<in> {''-U'', ''--unified'', ''-O'', ''-S'', ''-G'', ''--diff-filter'', ''--inter-hunk-context''})"

fun isGitDiffScoped :: "locatedToken list \<Rightarrow> bool" where
  "isGitDiffScoped [] = False"
| "isGitDiffScoped (tok # args) =
     (let val = trimRightChar (CHR '')'') (tk_value tok) in
      if val = ''--'' then hasScopedPathAfterDashDash args
      else if isGitDiffSummaryFlag val \<or> hasPrefix val ''--stat='' \<or> hasPrefix val ''--dirstat='' then True
      else if hasPrefix val ''-'' then isGitDiffScoped (if isGitDiffValFlag val then drop 1 args else args)
      else isScopedGitDiffPath val \<or> isGitDiffScoped args)"

definition gitSegmentDecision :: "pipelineSegment \<Rightarrow> Decision option" where
  "gitSegmentDecision seg = (case gitCommandOf seg of None \<Rightarrow> None | Some (subTok, rest) \<Rightarrow>
     (let sub = trimRightChar (CHR '')'') (tk_value subTok) in
      if sub = ''log'' \<and> \<not> isGitLogBounded rest then
        Some (denyDec (''Unbounded git log detected. Specify a commit count limit such as '' @ [CHR 0x27] @ ''-n <N>'' @ [CHR 0x27] @ '' or '' @ [CHR 0x27] @ ''-<N>'' @ [CHR 0x27]
          @ '' (e.g. '' @ [CHR 0x27] @ ''git log -n 10 --oneline'' @ [CHR 0x27] @ '' or '' @ [CHR 0x27] @ ''git log -5'' @ [CHR 0x27]
          @ '') to prevent dumping unconstrained commit history into the context window.''))
      else if sub = ''diff'' \<and> \<not> isGitDiffScoped rest then
        Some (denyDec (''Unscoped full-patch git diff detected. Pass '' @ [CHR 0x27] @ ''--stat'' @ [CHR 0x27] @ '' or '' @ [CHR 0x27] @ ''--name-only'' @ [CHR 0x27]
          @ '' for repository-wide summaries, or scope the diff to specific file paths (e.g. '' @ [CHR 0x27] @ ''git diff -- <path>'' @ [CHR 0x27]
          @ '') to avoid dumping large patches into the context window.''))
      else None))"

fun firstSome :: "('a \<Rightarrow> 'b option) \<Rightarrow> 'a list \<Rightarrow> 'b option" where
  "firstSome f [] = None"
| "firstSome f (x # xs) = (case f x of Some y \<Rightarrow> Some y | None \<Rightarrow> firstSome f xs)"

definition inspectGitBatchCommand :: "string \<Rightarrow> Decision option" where
  "inspectGitBatchCommand cmdLine = firstSome gitSegmentDecision (splitPipelineWithOffsets cmdLine)"

section \<open>Rewriting go test\<close>

record byteSpan =
  sp_start :: nat
  sp_end :: nat
  sp_repl :: string
  sp_isPkg :: bool

definition formatSubmoduleRelPkg :: "string \<Rightarrow> string" where
  "formatSubmoduleRelPkg rest = (if rest = [] then ''.'' else ''./'' @ rest)"

text \<open>\<^verbatim>\<open>strings.SplitN(s, "/", n)\<close>.\<close>

fun splitSlashN :: "nat \<Rightarrow> string \<Rightarrow> string list" where
  "splitSlashN 0 s = []"
| "splitSlashN (Suc 0) s = [s]"
| "splitSlashN (Suc (Suc n)) s =
     (let p = takeWhile (\<lambda>c. c \<noteq> CHR ''/'') s
      in if p = s then [s] else p # splitSlashN (Suc n) (drop (length p + 1) s))"

definition isRootSharedPkg :: "string \<Rightarrow> bool" where
  "isRootSharedPkg p = (p \<in> {''httpkit'', ''ollama'', ''pgutil'', ''sanitizer''})"

definition splitSubmoduleTestTarget :: "string \<Rightarrow> (string \<times> string) option" where
  "splitSubmoduleTestTarget pkgArg =
     (let trimmed = trimPrefix pkgArg ''./'' in
      if trimmed = ''services/eri'' \<or> trimmed = ''services/eri/...'' then None
      else if trimmed = ''scripts/code-health'' \<or> hasPrefix trimmed ''scripts/code-health/'' then
        Some (''scripts/code-health'', formatSubmoduleRelPkg (trimPrefix (trimPrefix trimmed ''scripts/code-health'') ''/''))
      else let parts = splitSlashN 3 trimmed in
        if length parts < 2 \<or> parts ! 1 = [] \<or> parts ! 1 = ''...'' then None
        else if hd parts = ''services'' \<or> hd parts = ''mcp'' then
          Some (hd parts @ ''/'' @ parts ! 1, formatSubmoduleRelPkg (if length parts = 3 then parts ! 2 else []))
        else if hd parts = ''pkg'' \<and> isRootSharedPkg (parts ! 1) then Some (''pkg'', ''./'' @ trimPrefix trimmed ''pkg/'')
        else None)"

definition trimLeadingSpaceOffset :: "string \<Rightarrow> nat \<Rightarrow> nat" where
  "trimLeadingSpaceOffset cmdLine offset =
     offset - length (takeWhile (\<lambda>c. c = CHR '' '' \<or> c = CHR 0x09) (rev (take offset cmdLine)))"

definition filterGoTestSpans :: "byteSpan list \<Rightarrow> nat \<Rightarrow> string \<Rightarrow> bool \<Rightarrow> byteSpan list" where
  "filterGoTestSpans raw insertPos commonMod allowPkgRewrite =
     (if allowPkgRewrite then [\<lparr>sp_start = insertPos, sp_end = insertPos, sp_repl = '' -C '' @ commonMod, sp_isPkg = False\<rparr>] else [])
     @ filter (\<lambda>sp. \<not> sp_isPkg sp \<or> allowPkgRewrite) raw"

definition isGoTestVerbose :: "string \<Rightarrow> bool" where
  "isGoTestVerbose f = (f \<in> {''-v'', ''-test.v'', ''-v=true'', ''-test.v=true'', ''--v'', ''--test.v'', ''--v=true'', ''--test.v=true''})"

text \<open>The loop over the arguments; the result is \<^verbatim>\<open>raw\<close>, \<^verbatim>\<open>commonMod\<close>, \<^verbatim>\<open>canRewriteMod\<close>, \<^verbatim>\<open>hasPkgEdit\<close>.\<close>

fun goTestSpanLoop :: "string \<Rightarrow> byteSpan list \<Rightarrow> string \<Rightarrow> bool \<Rightarrow> bool \<Rightarrow> locatedToken list \<Rightarrow> byteSpan list \<times> string \<times> bool \<times> bool" where
  "goTestSpanLoop cmdLine raw commonMod canRewrite hasEdit [] = (raw, commonMod, canRewrite, hasEdit)"
| "goTestSpanLoop cmdLine raw commonMod canRewrite hasEdit (tok # ts) =
     (let cleanVal = trimRightChar (CHR '')'') (tk_value tok) in
      if cleanVal = ''--'' \<or> cleanVal = ''-args'' then (raw, commonMod, canRewrite, hasEdit)
      else let canRewrite = (if cleanVal = ''-C'' \<or> hasPrefix cleanVal ''-C='' then False else canRewrite);
               stop = endOffset tok - (length (tk_value tok) - length cleanVal) in
        if isGoTestValFlag cleanVal then goTestSpanLoop cmdLine raw commonMod canRewrite hasEdit (drop 1 ts)
        else if isGoTestVerbose cleanVal then
          goTestSpanLoop cmdLine (raw @ [\<lparr>sp_start = trimLeadingSpaceOffset cmdLine (startOffset tok), sp_end = stop, sp_repl = [], sp_isPkg = False\<rparr>])
            commonMod canRewrite hasEdit ts
        else if hasPrefix cleanVal ''-'' then goTestSpanLoop cmdLine raw commonMod canRewrite hasEdit ts
        else case splitSubmoduleTestTarget cleanVal of
            None \<Rightarrow> goTestSpanLoop cmdLine raw commonMod False hasEdit ts
          | Some (modDir, relPkg) \<Rightarrow>
              if commonMod \<noteq> [] \<and> commonMod \<noteq> modDir then goTestSpanLoop cmdLine raw commonMod False hasEdit ts
              else goTestSpanLoop cmdLine (raw @ [\<lparr>sp_start = startOffset tok, sp_end = stop, sp_repl = relPkg, sp_isPkg = True\<rparr>])
                     modDir canRewrite True ts)"

definition collectGoTestSegmentSpans :: "string \<Rightarrow> locatedToken list \<Rightarrow> nat \<Rightarrow> byteSpan list" where
  "collectGoTestSegmentSpans cmdLine tokens idx =
     (case goTestSpanLoop cmdLine [] [] True False (drop (idx + 2) tokens) of
        (raw, commonMod, canRewrite, hasEdit) \<Rightarrow>
          filterGoTestSpans raw (endOffset (tokens ! (idx + 1))) commonMod (canRewrite \<and> commonMod \<noteq> [] \<and> hasEdit))"

definition goTestSpans :: "string \<Rightarrow> pipelineSegment \<Rightarrow> byteSpan list" where
  "goTestSpans cmdLine seg =
     (let tokens = tokenizeWithOffsets (sg_text seg) (sg_offset seg); idx = skipEnvAndDockerExec tokens
      in if idx + 1 \<ge> length tokens \<or> pathBase (dropWhile (\<lambda>c. c = CHR ''('') (tk_value (tokens ! idx))) \<noteq> ''go''
            \<or> tk_value (tokens ! (idx + 1)) \<noteq> ''test''
         then [] else collectGoTestSegmentSpans cmdLine tokens idx)"

definition applySpan :: "byteSpan \<Rightarrow> string \<Rightarrow> string" where
  "applySpan sp line = take (sp_start sp) line @ sp_repl sp @ drop (sp_end sp) line"

definition stripGoTestVerbose :: "string \<Rightarrow> string" where
  "stripGoTestVerbose cmdLine = foldr applySpan (concat (map (goTestSpans cmdLine) (splitPipelineWithOffsets cmdLine))) cmdLine"

section \<open>Targets and categories\<close>

definition isTranscriptLogPath :: "string \<Rightarrow> bool" where
  "isTranscriptLogPath path =
     (let clean = trimSpace path
      in (contains clean ''/.system_generated/logs/'' \<or> hasPrefix clean ''.system_generated/logs/'')
         \<and> hasPrefix (pathBase clean) ''transcript'' \<and> hasSuffix (pathBase clean) ''.jsonl'')"

definition scratchVarPrefixes :: "(string \<times> string) list" where
  "scratchVarPrefixes = [(''${SCRATCH_DIR}'', ''SCRATCH_DIR''), (''$SCRATCH_DIR'', ''SCRATCH_DIR''),
     (''${SCRATCHDIR}'', ''SCRATCHDIR''), (''$SCRATCHDIR'', ''SCRATCHDIR'')]"

definition expandScratchEnvPrefix :: "env \<Rightarrow> string \<Rightarrow> string" where
  "expandScratchEnvPrefix getenv p =
     (case List.find (\<lambda>(prefix, key). p = prefix \<or> hasPrefix p (prefix @ ''/'')) scratchVarPrefixes of
        None \<Rightarrow> p
      | Some (prefix, key) \<Rightarrow>
          (let rest = trimPrefix p prefix; base = trimSpace (getenv key); base = (if base = [] then ''/share/aerial'' else base)
           in trimRightChar (CHR ''/'') base @ rest))"

definition scratchSegmentRepo :: "string \<Rightarrow> string" where
  "scratchSegmentRepo seg =
     (let dot = length (takeWhile (\<lambda>c. c \<noteq> CHR ''.'') seg);
          base = (if dot < length seg \<and> dot > 0 then take dot seg else seg)
      in if base = ''aerial-code-scratch'' \<or> base = ''aerial-pr'' \<or> hasPrefix base ''aerial-pr-'' then ''aerial''
         else if hasSuffix base ''-scratch'' \<and> length base > 8 then trimSuffix base ''-scratch'' else [])"

fun scratchParts :: "string list \<Rightarrow> string option" where
  "scratchParts [] = None"
| "scratchParts (seg # parts) =
     (if scratchSegmentRepo seg \<noteq> [] \<and> parts \<noteq> []
      then Some (''/share/'' @ scratchSegmentRepo seg @ ''/'' @ joinWith ''/'' parts) else scratchParts parts)"

definition scratchEnvTarget :: "env \<Rightarrow> string \<Rightarrow> string \<Rightarrow> string option" where
  "scratchEnvTarget getenv p key =
     (let envDir = trimRightChar (CHR ''/'') (trimSpace (getenv key))
      in if envDir \<noteq> [] \<and> envDir \<noteq> ''/'' \<and> hasPrefix p (envDir @ ''/'')
         then Some (''/share/aerial'' @ trimPrefix p envDir) else None)"

definition normalizeBatchTarget :: "env \<Rightarrow> string \<Rightarrow> string" where
  "normalizeBatchTarget getenv path =
     (let p = trimSpace path in
      if p = [] then []
      else let p = expandScratchEnvPrefix getenv p;
               p = (if hasPrefix p ''/'' then pathClean p else p)
           in case scratchParts (splitOn CHR ''/'' p) of Some t \<Rightarrow> t
              | None \<Rightarrow> (case firstSome (scratchEnvTarget getenv p) [''SCRATCH_DIR'', ''SCRATCHDIR''] of
                  Some t \<Rightarrow> t | None \<Rightarrow> p))"

definition categorizeInvocation :: "env \<Rightarrow> string \<Rightarrow> ToolArgs \<Rightarrow> string \<times> string" where
  "categorizeInvocation getenv toolName args =
     (let n = normalizeToolName toolName in
      if n = ''view_file'' \<or> n = ''read_file'' then (''read'', normalizeBatchTarget getenv (FilePath args))
      else if isEditTool n then (''edit'', normalizeBatchTarget getenv (FilePath args))
      else if n = ''run_command'' then
        (let cmd = trimSpace (a_CommandLine args)
         in if isUnscopedTest cmd then (''unscoped_test'', cmd)
            else if isUnbatchedGitMutation cmd then (''git_mutation'', cmd) else (''command'', cmd))
      else (''other'', toolName))"

definition isSafeIDByte :: "char \<Rightarrow> bool" where
  "isSafeIDByte c = (let n = of_char c :: nat in
     (97 \<le> n \<and> n \<le> 122) \<or> (65 \<le> n \<and> n \<le> 90) \<or> (48 \<le> n \<and> n \<le> 57) \<or> c = CHR ''-'' \<or> c = CHR ''_'')"

definition sanitizeID :: "string \<Rightarrow> string" where
  "sanitizeID ident = (let res = filter isSafeIDByte (trimSpace ident) in if res = [] then ''default'' else res)"

section \<open>The record of recent calls\<close>

record ToolInvocation =
  iv_Timestamp :: int
  iv_StepIdx :: int
  iv_Turn :: int
  iv_ToolName :: string
  iv_Target :: string
  iv_Category :: string
  iv_StartLine :: int
  iv_EndLine :: int

record BatchState =
  st_InvocationNum :: int
  st_Records :: "ToolInvocation list"

definition emptyState :: BatchState where
  "emptyState = \<lparr>st_InvocationNum = 0, st_Records = []\<rparr>"

record Payload =
  p_ToolName :: string
  p_StepIdx :: int
  p_InvocationNum :: int
  p_Error :: string
  p_ConversationID :: string

definition isSameStep :: "ToolInvocation \<Rightarrow> int \<Rightarrow> int \<Rightarrow> bool" where
  "isSameStep rec currentStep currentTS =
     ((currentStep > 0 \<and> iv_StepIdx rec > 0 \<and> iv_StepIdx rec = currentStep) \<or> \<bar>currentTS - iv_Timestamp rec\<bar> \<le> 1)"

text \<open>
  A state file holds an encoded state or something \<^verbatim>\<open>json.Unmarshal\<close> rejects, which loading
  removes. Loading drops the records that have left the window of 60 seconds.
\<close>

datatype stateFile = Corrupt | Saved BatchState

type_synonym stateDir = "string \<rightharpoonup> stateFile"

definition loadState :: "stateDir \<Rightarrow> string \<Rightarrow> int \<Rightarrow> stateDir \<times> BatchState" where
  "loadState dir safeID now = (case dir safeID of
       None \<Rightarrow> (dir, emptyState)
     | Some Corrupt \<Rightarrow> (dir(safeID := None), emptyState)
     | Some (Saved st) \<Rightarrow> (dir, st\<lparr>st_Records := filter (\<lambda>rec. iv_Timestamp rec \<ge> now - 60) (st_Records st)\<rparr>))"

definition saveState :: "bool \<Rightarrow> stateDir \<Rightarrow> string \<Rightarrow> BatchState \<Rightarrow> stateDir" where
  "saveState writable dir safeID st = (if writable then dir(safeID \<mapsto> Saved st) else dir)"

definition pruneStateFiles :: "string set \<Rightarrow> stateDir \<Rightarrow> stateDir" where
  "pruneStateFiles old dir = (\<lambda>n. if n \<in> old then None else dir n)"

text \<open>The suffix after the last edit of the target, and the reads of the target in it.\<close>

fun afterLastEdit :: "string \<Rightarrow> ToolInvocation list \<Rightarrow> ToolInvocation list" where
  "afterLastEdit target [] = []"
| "afterLastEdit target (r # rs) =
     (if list_ex (\<lambda>x. iv_Category x = ''edit'' \<and> iv_Target x = target) rs then afterLastEdit target rs
      else if iv_Category r = ''edit'' \<and> iv_Target r = target then rs else r # rs)"

definition isReadOf :: "string \<Rightarrow> ToolInvocation \<Rightarrow> bool" where
  "isReadOf target r = (iv_Category r = ''read'' \<and> iv_Target r = target \<and> iv_StartLine r > 0 \<and> iv_EndLine r \<ge> iv_StartLine r)"

definition readsSinceLastTargetEdit :: "ToolInvocation list \<Rightarrow> string \<Rightarrow> ToolInvocation list" where
  "readsSinceLastTargetEdit records target = filter (isReadOf target) (afterLastEdit target records)"

definition removeTargetInvocations :: "ToolInvocation list \<Rightarrow> string \<Rightarrow> string \<Rightarrow> ToolInvocation list" where
  "removeTargetInvocations records category target =
     filter (\<lambda>r. iv_Category r \<noteq> category \<or> iv_Target r \<noteq> target) records"

definition findTouchingPriorRead :: "ToolInvocation list \<Rightarrow> int \<Rightarrow> int \<Rightarrow> ToolInvocation option" where
  "findTouchingPriorRead priorReads start stop =
     List.find (\<lambda>r. start \<le> iv_EndLine r + 50 \<and> stop \<ge> iv_StartLine r - 50) (rev priorReads)"

text \<open>Go's integer division truncates; its operand is positive wherever the code divides.\<close>

definition promotePageRange :: "int \<Rightarrow> int \<Rightarrow> ToolInvocation option \<Rightarrow> int \<times> int" where
  "promotePageRange start stop touching = (case touching of
       Some t \<Rightarrow>
         if start \<ge> iv_StartLine t then
           (let newStart = iv_StartLine t; newStart = (if newStart + 800 - 1 < stop then start else newStart)
            in (newStart, newStart + 800 - 1))
         else (let uEnd = max stop (iv_EndLine t); newStart = min (max 1 (uEnd - 800 + 1)) start
               in (newStart, newStart + 800 - 1))
     | None \<Rightarrow>
         (let span = stop - start + 1; pad = (800 - span + 1) div 2; newStart = max 1 (start - pad)
          in (newStart, newStart + 800 - 1)))"

definition shapeReadFileRange :: "env \<Rightarrow> string \<Rightarrow> int \<Rightarrow> int \<Rightarrow> ToolInvocation list \<Rightarrow> int \<times> int \<times> bool" where
  "shapeReadFileRange getenv target startLine endLine priorRecords =
     (if target = [] then (startLine, endLine, False)
      else if startLine \<le> 0 \<and> endLine \<le> 0 then (1, 800, False)
      else if startLine > 0 \<and> endLine \<le> 0 then (startLine, startLine + 800 - 1, False)
      else if startLine > 0 \<and> endLine < startLine then (startLine, endLine, False)
      else let start = max 1 startLine; stop = endLine; span = stop - start + 1 in
        if span \<ge> 800 then (start, stop, start \<noteq> startLine)
        else let priorReads = readsSinceLastTargetEdit priorRecords target;
                 touching = findTouchingPriorRead priorReads start stop in
          if touching \<noteq> None \<or> length priorReads \<ge> 2 then
            (let (newStart, newEnd) = promotePageRange start stop touching
             in (newStart, newEnd, newStart \<noteq> startLine \<or> newEnd \<noteq> endLine))
          else let minAnchor = minAnchorReadLines getenv in
            if span < minAnchor then
              (let pad = (minAnchor - span + 1) div 2; newStart = max 1 (start - pad); newEnd = newStart + minAnchor - 1
               in (newStart, newEnd, newStart \<noteq> startLine \<or> newEnd \<noteq> endLine))
            else (start, stop, start \<noteq> startLine))"

section \<open>The handlers\<close>

definition unscopedTestReason :: string where
  "unscopedTestReason = ''Unscoped test sweep detected. Run targeted package unit tests (e.g. '' @ [CHR 0x27] @ ''go test ./pkg/<pkg>/...'' @ [CHR 0x27]
     @ '' or '' @ [CHR 0x27] @ ''go test -run TestName ./pkg/<pkg>'' @ [CHR 0x27]
     @ '') during development; comprehensive monorepo sweeps are offloaded to GitHub Actions CI or '' @ [CHR 0x27] @ ''./scripts/verify.sh --staged'' @ [CHR 0x27] @ ''.''"

definition unbatchedGitReason :: string where
  "unbatchedGitReason = ''Unbatched git lifecycle command detected. Combine git operations into compound one-liners (e.g. '' @ [CHR 0x27]
     @ ''git add -A && git commit -m ... && git push ...'' @ [CHR 0x27] @ '') or use '' @ [CHR 0x27]
     @ ''scripts/aerial-pr.sh submit <scratch_dir> [commit_msg]'' @ [CHR 0x27] @ '' for automated pre-flight verification and submission.''"

definition transcriptReason :: string where
  "transcriptReason = ''Direct read_file/view_file on raw session transcripts (transcript*.jsonl) is prohibited because each JSONL line can exceed 30KB and floods the context window. Use the ''
     @ [CHR 0x27] @ ''transcript-search'' @ [CHR 0x27] @ '' CLI skill or targeted '' @ [CHR 0x27] @ ''jq'' @ [CHR 0x27] @ '' / '' @ [CHR 0x27] @ ''rg -m 20'' @ [CHR 0x27] @ '' queries via run_command instead.''"

definition checkStatelessBatchRules :: "string \<Rightarrow> ToolArgs \<Rightarrow> Decision option" where
  "checkStatelessBatchRules tool args =
     (if tool = ''run_command'' \<and> isUnscopedTest (a_CommandLine args) then Some (denyDec unscopedTestReason)
      else if tool = ''run_command'' \<and> isUnbatchedGitMutation (a_CommandLine args) then Some (denyDec unbatchedGitReason)
      else if tool = ''run_command'' \<and> inspectGitBatchCommand (a_CommandLine args) \<noteq> None then inspectGitBatchCommand (a_CommandLine args)
      else if (tool = ''read_file'' \<or> tool = ''view_file'') \<and> isTranscriptLogPath (FilePath args) then Some (denyDec transcriptReason)
      else None)"

definition resolvePriorRecords :: "BatchState \<Rightarrow> Payload \<Rightarrow> int \<Rightarrow> BatchState \<times> int \<times> ToolInvocation list" where
  "resolvePriorRecords st payload ts =
     (let st = (if p_InvocationNum payload > 0 then st\<lparr>st_InvocationNum := p_InvocationNum payload\<rparr> else st);
          invNum = st_InvocationNum st
      in (st, invNum, filter (\<lambda>r. \<not> ((invNum > 0 \<and> iv_Turn r > 0 \<and> iv_Turn r = invNum)
            \<or> ((invNum = 0 \<or> iv_Turn r = 0) \<and> isSameStep r (p_StepIdx payload) ts))) (st_Records st)))"

definition keepLast :: "nat \<Rightarrow> 'a list \<Rightarrow> 'a list" where
  "keepLast n xs = (if length xs > n then drop (length xs - n) xs else xs)"

text \<open>The state after an allowed call is recorded.\<close>

definition recordInvocation :: "ToolInvocation \<Rightarrow> BatchState \<Rightarrow> BatchState" where
  "recordInvocation r st =
     (let kept = (if iv_Category r = ''edit'' \<and> iv_Target r \<noteq> []
                  then removeTargetInvocations (st_Records st) ''read'' (iv_Target r) else st_Records st)
      in st\<lparr>st_Records := keepLast 30 (kept @ [r])\<rparr>)"

definition CheckBatchWithDir :: "env \<Rightarrow> bool \<Rightarrow> string set \<Rightarrow> Payload \<Rightarrow> ToolArgs \<Rightarrow> stateDir \<Rightarrow> int \<Rightarrow> stateDir \<times> Decision" where
  "CheckBatchWithDir getenv writable old payload args dir now =
     (let tool = normalizeToolName (p_ToolName payload) in
      case checkStatelessBatchRules tool args of Some dec \<Rightarrow> (dir, dec)
      | None \<Rightarrow>
        (let (category, target) = categorizeInvocation getenv (p_ToolName payload) args;
             safeID = sanitizeID (p_ConversationID payload);
             (dir, st) = loadState dir safeID now;
             (st, invNum, priorRecords) = resolvePriorRecords st payload now;
             (effStart, effEnd, readOverwritten) = (if category = ''read''
                then shapeReadFileRange getenv target (a_StartLine args) (a_EndLine args) priorRecords
                else (a_StartLine args, a_EndLine args, False));
             r = \<lparr>iv_Timestamp = now, iv_StepIdx = p_StepIdx payload, iv_Turn = invNum, iv_ToolName = p_ToolName payload,
                  iv_Target = target, iv_Category = category, iv_StartLine = effStart, iv_EndLine = effEnd\<rparr>;
             dir = pruneStateFiles old (saveState writable dir safeID (recordInvocation r st));
             rewritten = shapeGitStatus (stripGoTestVerbose (a_CommandLine args));
             decision = (if readOverwritten then allowDec\<lparr>d_Overwrite := [''StartLine'' \<mapsto> AnyInt effStart, ''EndLine'' \<mapsto> AnyInt effEnd]\<rparr>
                else if tool = ''run_command'' \<and> rewritten \<noteq> a_CommandLine args
                then allowDec\<lparr>d_Overwrite := [''CommandLine'' \<mapsto> AnyStr rewritten]\<rparr> else allowDec)
         in (dir, decision)))"

definition RecordPreInvocationWithDir :: "bool \<Rightarrow> Payload \<Rightarrow> stateDir \<Rightarrow> int \<Rightarrow> stateDir" where
  "RecordPreInvocationWithDir writable payload dir now =
     (if p_InvocationNum payload > 0 then
        (let safeID = sanitizeID (p_ConversationID payload); (dir, st) = loadState dir safeID now
         in saveState writable dir safeID (st\<lparr>st_InvocationNum := p_InvocationNum payload\<rparr>))
      else dir)"

text \<open>
  The loop of \<^verbatim>\<open>rollbackFailedEdit\<close> runs backwards: the last edit of the target recorded at the
  given step (at any step when the step is not positive), else the last edit of the target.
\<close>

definition lastIndexWhere :: "('a \<Rightarrow> bool) \<Rightarrow> 'a list \<Rightarrow> nat option" where
  "lastIndexWhere P xs = (let n = length (takeWhile (\<lambda>x. \<not> P x) (rev xs)) in if n < length xs then Some (length xs - 1 - n) else None)"

definition removeAt :: "nat \<Rightarrow> 'a list \<Rightarrow> 'a list" where
  "removeAt i xs = take i xs @ drop (i + 1) xs"

definition rollbackFailedEdit :: "ToolInvocation list \<Rightarrow> string \<Rightarrow> int \<Rightarrow> ToolInvocation list \<times> bool" where
  "rollbackFailedEdit records target stepIdx =
     (let isEdit = (\<lambda>r. iv_Category r = ''edit'' \<and> iv_Target r = target) in
      case lastIndexWhere (\<lambda>r. isEdit r \<and> (stepIdx \<le> 0 \<or> iv_StepIdx r = stepIdx)) records of
        Some i \<Rightarrow> (removeAt i records, True)
      | None \<Rightarrow> (case lastIndexWhere isEdit records of Some i \<Rightarrow> (removeAt i records, True) | None \<Rightarrow> (records, False)))"

definition RecordPostBatchWithDir :: "env \<Rightarrow> bool \<Rightarrow> Payload \<Rightarrow> ToolArgs \<Rightarrow> stateDir \<Rightarrow> int \<Rightarrow> stateDir" where
  "RecordPostBatchWithDir getenv writable payload args dir now =
     (let (cat, target) = categorizeInvocation getenv (p_ToolName payload) args in
      if trimSpace (p_Error payload) \<noteq> [] \<and> cat = ''edit'' \<and> target \<noteq> [] then
        (let safeID = sanitizeID (p_ConversationID payload); (dir, st) = loadState dir safeID now;
             (updated, removed) = rollbackFailedEdit (st_Records st) target (p_StepIdx payload)
         in if removed then saveState writable dir safeID (st\<lparr>st_Records := updated\<rparr>) else dir)
      else dir)"

section \<open>Read windows\<close>

lemma touching_read:
  "findTouchingPriorRead (readsSinceLastTargetEdit recs target) a b = Some t \<Longrightarrow> 0 < iv_StartLine t \<and> iv_StartLine t \<le> iv_EndLine t"
  unfolding findTouchingPriorRead_def readsSinceLastTargetEdit_def
  by (drule find_Some_in) (auto simp: isReadOf_def)

text \<open>A page of 800 lines around a range that fits in it.\<close>

lemma promote_page:
  assumes "promotePageRange a b t = (s, e)" "1 \<le> a" "a \<le> b" "b - a < 799"
    and "\<And>r. t = Some r \<Longrightarrow> 0 < iv_StartLine r"
  shows "1 \<le> s \<and> s \<le> a \<and> b \<le> e \<and> e = s + 799"
proof (cases t)
  case None
  then show ?thesis using assms(1-4) by (auto simp: promotePageRange_def Let_def)
next
  case (Some r)
  then show ?thesis using assms by (auto simp: promotePageRange_def Let_def split: if_splits)
qed

lemma envPositiveInt_pos: "0 < fallback \<Longrightarrow> 0 < envPositiveInt getenv fallback ks"
  by (induction ks) (auto simp: Let_def split: option.splits)

lemma minAnchor_pos: "0 < minAnchorReadLines getenv"
  unfolding minAnchorReadLines_def by (rule envPositiveInt_pos) simp



section \<open>The record stays small and fresh\<close>

text \<open>
  No read of a file is recorded before an edit of it, and at most 30 calls are. The relation
  between an earlier and a later record is kept by every sublist, which is what loading, trimming
  and rolling back produce.
\<close>

definition notStale :: "ToolInvocation \<Rightarrow> ToolInvocation \<Rightarrow> bool" where
  "notStale a b = (\<not> (iv_Category a = ''read'' \<and> iv_Category b = ''edit'' \<and> iv_Target a = iv_Target b \<and> iv_Target b \<noteq> []))"

definition stateInv :: "BatchState \<Rightarrow> bool" where
  "stateInv st = (length (st_Records st) \<le> 30 \<and> sorted_wrt notStale (st_Records st))"

definition dirInv :: "stateDir \<Rightarrow> bool" where
  "dirInv dir = (\<forall>n st. dir n = Some (Saved st) \<longrightarrow> stateInv st)"

lemma stateInv_filter: "stateInv st \<Longrightarrow> stateInv (st\<lparr>st_Records := filter P (st_Records st)\<rparr>)"
  by (auto simp: stateInv_def sorted_wrt_filter intro: le_trans [OF length_filter_le])

lemma stateInv_number [simp]: "stateInv (st\<lparr>st_InvocationNum := n\<rparr>) = stateInv st"
  by (simp add: stateInv_def)

lemma loadState_inv:
  assumes "dirInv dir" "loadState dir n now = (dir', st)" shows "dirInv dir'" "stateInv st"
proof -
  have e: "stateInv emptyState" by (simp add: stateInv_def emptyState_def)
  consider "dir n = None" | "dir n = Some Corrupt" | st0 where "dir n = Some (Saved st0)"
    by (metis not_None_eq stateFile.exhaust)
  then have "dirInv dir' \<and> stateInv st"
  proof cases
    case 3
    then have "stateInv st0" using assms(1) by (simp add: dirInv_def)
    then show ?thesis using 3 assms stateInv_filter by (auto simp: loadState_def)
  qed (use assms e in \<open>auto simp: loadState_def dirInv_def split: if_splits\<close>)
  then show "dirInv dir'" "stateInv st" by simp_all
qed

lemma dirInv_save: "dirInv dir \<Longrightarrow> stateInv st \<Longrightarrow> dirInv (saveState w dir n st)"
  by (auto simp: dirInv_def saveState_def)

lemma dirInv_prune: "dirInv dir \<Longrightarrow> dirInv (pruneStateFiles old dir)"
  by (auto simp: dirInv_def pruneStateFiles_def)

lemma length_keepLast: "length (keepLast n xs) \<le> n"
  by (simp add: keepLast_def)

lemma sorted_keepLast: "sorted_wrt P xs \<Longrightarrow> sorted_wrt P (keepLast n xs)"
  by (simp add: keepLast_def sorted_wrt_drop)

lemma recordInvocation_inv: "stateInv st \<Longrightarrow> stateInv (recordInvocation r st)"
proof -
  assume st: "stateInv st"
  let ?kept = "if iv_Category r = ''edit'' \<and> iv_Target r \<noteq> []
    then removeTargetInvocations (st_Records st) ''read'' (iv_Target r) else st_Records st"
  have "sorted_wrt notStale ?kept" using st by (simp add: stateInv_def removeTargetInvocations_def sorted_wrt_filter)
  moreover have "\<forall>x\<in>set ?kept. notStale x r" by (auto simp: notStale_def removeTargetInvocations_def)
  ultimately have "sorted_wrt notStale (?kept @ [r])" by (simp add: sorted_wrt_append)
  then show ?thesis
    by (simp add: stateInv_def recordInvocation_def Let_def length_keepLast sorted_keepLast)
qed

lemma removeAt_inv: "stateInv st \<Longrightarrow> stateInv (st\<lparr>st_Records := removeAt i (st_Records st)\<rparr>)"
proof -
  assume st: "stateInv st"
  let ?rs = "st_Records st"
  have "sorted_wrt notStale (take i ?rs @ drop i ?rs)" using st by (simp add: stateInv_def)
  then have "sorted_wrt notStale (take i ?rs) \<and> sorted_wrt notStale (drop (i + 1) ?rs)
      \<and> (\<forall>x\<in>set (take i ?rs). \<forall>y\<in>set (drop (i + 1) ?rs). notStale x y)"
    unfolding sorted_wrt_append using sorted_wrt_drop [of notStale "drop i ?rs" 1] set_drop_subset [of 1 "drop i ?rs"]
    by (simp add: drop_drop) blast
  moreover have "length (removeAt i ?rs) \<le> length ?rs" by (simp add: removeAt_def)
  ultimately show ?thesis using st by (simp add: stateInv_def removeAt_def sorted_wrt_append)
qed

lemma rollback_inv: "rollbackFailedEdit (st_Records st) t k = (rs, b) \<Longrightarrow> stateInv st \<Longrightarrow> stateInv (st\<lparr>st_Records := rs\<rparr>)"
  using removeAt_inv by (auto simp: rollbackFailedEdit_def Let_def split: option.splits)

text \<open>The hooks as steps on the state directory.\<close>

inductive batchStep :: "stateDir \<Rightarrow> stateDir \<Rightarrow> bool" where
  check: "batchStep dir (fst (CheckBatchWithDir getenv writable old payload args dir now))"
| pre: "batchStep dir (RecordPreInvocationWithDir writable payload dir now)"
| post: "batchStep dir (RecordPostBatchWithDir getenv writable payload args dir now)"

lemma resolve_inv: "resolvePriorRecords st payload ts = (st', n, prior) \<Longrightarrow> stateInv st \<Longrightarrow> stateInv st'"
  by (auto simp: resolvePriorRecords_def Let_def split: if_splits)

lemma check_inv: "dirInv dir \<Longrightarrow> dirInv (fst (CheckBatchWithDir getenv writable old payload args dir now))"
proof (cases "checkStatelessBatchRules (normalizeToolName (p_ToolName payload)) args")
  case None
  assume dir: "dirInv dir"
  obtain cat target where c: "categorizeInvocation getenv (p_ToolName payload) args = (cat, target)" by fastforce
  obtain dir1 st1 where l: "loadState dir (sanitizeID (p_ConversationID payload)) now = (dir1, st1)" by fastforce
  obtain st2 n prior where r: "resolvePriorRecords st1 payload now = (st2, n, prior)" by (metis prod.exhaust)
  note st2 = resolve_inv [OF r loadState_inv(2) [OF dir l]]
  show ?thesis unfolding CheckBatchWithDir_def None Let_def c l r
    by (auto simp: split_def r intro!: dirInv_prune dirInv_save recordInvocation_inv st2 loadState_inv(1) [OF dir l])
qed (simp add: CheckBatchWithDir_def)

lemma pre_inv: "dirInv dir \<Longrightarrow> dirInv (RecordPreInvocationWithDir writable payload dir now)"
  using loadState_inv [of dir] unfolding RecordPreInvocationWithDir_def Let_def
  by (auto simp: split_def intro!: dirInv_save) (metis prod.collapse)+

lemma post_inv: "dirInv dir \<Longrightarrow> dirInv (RecordPostBatchWithDir getenv writable payload args dir now)"
proof -
  assume dir: "dirInv dir"
  obtain dir1 st1 where l: "loadState dir (sanitizeID (p_ConversationID payload)) now = (dir1, st1)" by fastforce
  obtain cat target where c: "categorizeInvocation getenv (p_ToolName payload) args = (cat, target)" by fastforce
  obtain rs b where r: "rollbackFailedEdit (st_Records st1) target (p_StepIdx payload) = (rs, b)" by fastforce
  have "dirInv dir1" "stateInv (st1\<lparr>st_Records := rs\<rparr>)"
    using loadState_inv [OF dir l] rollback_inv [OF r] by simp_all
  then show ?thesis unfolding RecordPostBatchWithDir_def Let_def c l using dir dirInv_save by (simp add: r)
qed

interpretation batch: inductive_invariant "\<lambda>dir. dir = Map.empty" batchStep dirInv
proof unfold_locales
  show "dirInv dir" if "dir = Map.empty" for dir using that by (simp add: dirInv_def)
  show "dirInv t" if "batchStep s t" "dirInv s" for s t
    using that by (cases rule: batchStep.cases) (auto intro: check_inv pre_inv post_inv)
qed

text \<open>On a fresh record the search for the last edit is redundant: every recorded read counts.\<close>

lemma afterLastEdit_reads:
  "sorted_wrt notStale recs \<Longrightarrow> t \<noteq> [] \<Longrightarrow> filter (isReadOf t) (afterLastEdit t recs) = filter (isReadOf t) recs"
proof (induction recs)
  case (Cons r rs)
  have "\<not> isReadOf t r" if "list_ex (\<lambda>x. iv_Category x = ''edit'' \<and> iv_Target x = t) rs \<or> (iv_Category r = ''edit'' \<and> iv_Target r = t)"
    using that Cons.prems by (auto simp: list_ex_iff notStale_def isReadOf_def)
  then show ?case using Cons by auto
qed simp

text \<open>
  C30. In every state directory the hooks can produce, a conversation has at most 30 records and none
  of them is a read of a file before a recorded edit of it; so the reads that widen the next read
  of a file are exactly the recorded reads of it.
\<close>

theorem batch_state_fresh:
  assumes "reach (\<lambda>dir. dir = Map.empty) batchStep dir" "dir n = Some (Saved st)" "target \<noteq> []"
  shows "length (st_Records st) \<le> 30 \<and> sorted_wrt notStale (st_Records st)
    \<and> readsSinceLastTargetEdit (st_Records st) target = filter (isReadOf target) (st_Records st)"
proof -
  have "stateInv st" using batch.reach_inv [OF assms(1)] assms(2) by (auto simp: dirInv_def)
  then show ?thesis using afterLastEdit_reads [OF _ assms(3)] by (auto simp: stateInv_def readsSinceLastTargetEdit_def)
qed

definition demoRead :: "Payload \<times> ToolArgs" where
  "demoRead = (\<lparr>p_ToolName = ''read_file'', p_StepIdx = 1, p_InvocationNum = 4, p_Error = [], p_ConversationID = ''c1''\<rparr>,
     emptyArgs\<lparr>a_TargetFile := ''/a.go'', a_StartLine := 300, a_EndLine := 310\<rparr>)"

definition demoDir :: stateDir where
  "demoDir = fst (CheckBatchWithDir (\<lambda>_. []) True {} (fst demoRead) (snd demoRead) Map.empty 1000)"

definition demoState :: BatchState where
  "demoState = \<lparr>st_InvocationNum = 4, st_Records = [\<lparr>iv_Timestamp = 1000, iv_StepIdx = 1, iv_Turn = 4, iv_ToolName = ''read_file'',
     iv_Target = ''/a.go'', iv_Category = ''read'', iv_StartLine = 245, iv_EndLine = 364\<rparr>]\<rparr>"

theorem batch_state_fresh_witness:
  "length (st_Records demoState) \<le> 30
   \<and> readsSinceLastTargetEdit (st_Records demoState) ''/a.go'' = filter (isReadOf ''/a.go'') (st_Records demoState)"
proof -
  have "reach (\<lambda>dir. dir = Map.empty) batchStep demoDir"
    unfolding demoDir_def by (rule reach_step [where s = Map.empty]) (simp add: reach_init, rule batchStep.check)
  moreover have "demoDir ''c1'' = Some (Saved demoState)" by code_simp
  ultimately show ?thesis using batch_state_fresh [of demoDir "''c1''" demoState "''/a.go''"] by blast
qed

end
