(* ===== verification/GoText.thy ===== *)
theory GoText
  imports GoPath
begin

text \<open>
  More of Go's text handling, used by the deployment daemon: \<^verbatim>\<open>strings.Cut\<close>,
  \<^verbatim>\<open>strings.LastIndex\<close>, \<^verbatim>\<open>strings.Trim\<close>, \<^verbatim>\<open>strings.ReplaceAll\<close>, \<^verbatim>\<open>strings.Fields\<close>,
  \<^verbatim>\<open>bufio.Scanner\<close> on lines, and \<^verbatim>\<open>filepath.Join\<close> and \<^verbatim>\<open>filepath.Rel\<close>; with lemmas on when
  trimming and scanning leave a text alone.
\<close>

section \<open>Definitions\<close>

definition strCut :: "string \<Rightarrow> string \<Rightarrow> (string \<times> string) option" where
  "strCut s sep = map_option (\<lambda>i. (take i s, drop (i + length sep) s)) (strIndex s sep)"

text \<open>\<^verbatim>\<open>strings.LastIndex\<close> of one byte; -1 where it does not occur.\<close>

definition lastIndexByte :: "char \<Rightarrow> string \<Rightarrow> int" where
  "lastIndexByte c s = int (length s) - 1 - int (length (takeWhile (\<lambda>d. d \<noteq> c) (rev s)))"

definition trimChars :: "string \<Rightarrow> string \<Rightarrow> string" where
  "trimChars cutset s = rev (dropWhile (\<lambda>c. c \<in> set cutset) (rev (dropWhile (\<lambda>c. c \<in> set cutset) s)))"

text \<open>\<^verbatim>\<open>strings.ReplaceAll\<close> for a non-empty pattern.\<close>

function replaceAll :: "string \<Rightarrow> string \<Rightarrow> string \<Rightarrow> string" where
  "replaceAll old new s =
     (if s = [] \<or> old = [] then s
      else if hasPrefix s old then new @ replaceAll old new (drop (length old) s)
      else hd s # replaceAll old new (tl s))"
  by pat_completeness auto
termination
  by (relation "measure (\<lambda>(old, new, s). length s)") (auto simp: hasPrefix_iff neq_Nil_conv)

declare replaceAll.simps [simp del]

definition strFields :: "string \<Rightarrow> string list" where
  "strFields s = fieldsLoop [] s"

text \<open>
  \<^verbatim>\<open>bufio.Scanner\<close> with \<^verbatim>\<open>ScanLines\<close>: lines without their newline and one carriage return, no
  empty last line; a line that does not fit the buffer ends the scan.
\<close>

definition dropCR :: "string \<Rightarrow> string" where
  "dropCR l = (if l \<noteq> [] \<and> last l = CHR 0x0D then butlast l else l)"

definition rawLines :: "string \<Rightarrow> string list" where
  "rawLines s = (let ls = splitOn (CHR 0x0A) s in if last ls = [] then butlast ls else ls)"

definition scanLines :: "nat \<Rightarrow> string \<Rightarrow> string list" where
  "scanLines maxTokenSize s = map dropCR (takeWhile (\<lambda>l. length l < maxTokenSize) (rawLines s))"

definition MaxScanTokenSize :: nat where
  "MaxScanTokenSize = 64 * 1024"

definition pathJoinL :: "string list \<Rightarrow> string" where
  "pathJoinL es = (case dropWhile (\<lambda>e. e = []) es of [] \<Rightarrow> [] | xs \<Rightarrow> pathClean (joinWith ''/'' xs))"

fun stripCommon :: "string list \<Rightarrow> string list \<Rightarrow> string list \<times> string list" where
  "stripCommon (b # bs) (t # ts) = (if b = t then stripCommon bs ts else (b # bs, t # ts))"
| "stripCommon bs ts = (bs, ts)"

definition relElems :: "string \<Rightarrow> string list" where
  "relElems p = (if p = [] then [] else if p = ''/'' then [[]] else splitOn (CHR ''/'') p)"

definition pathRel :: "string \<Rightarrow> string \<Rightarrow> string option" where
  "pathRel basepath targpath =
     (let base0 = pathClean basepath; targ = pathClean targpath
      in if targ = base0 then Some ''.''
         else let base = (if base0 = ''.'' then [] else base0)
         in if hasPrefix base ''/'' \<noteq> hasPrefix targ ''/'' then None
            else let (bs, ts) = stripCommon (relElems base) (relElems targ)
            in if bs \<noteq> [] \<and> ts \<noteq> [] \<and> hd bs = ''..'' then None
               else Some (joinWith ''/'' (replicate (length bs) ''..'' @ ts)))"

section \<open>Cut and LastIndex\<close>

lemma strIndex_char: "c \<notin> set u \<Longrightarrow> strIndex (u @ c # v) [c] = Some (length u)"
proof (induction u)
  case Nil
  then show ?case by (simp add: strIndex_0)
next
  case (Cons d u)
  then have "\<not> hasPrefix (d # u @ c # v) [c]" by auto
  then show ?case using Cons by (simp add: strIndex_skip)
qed

lemma strIndex_char_None: "c \<notin> set s \<Longrightarrow> strIndex s [c] = None"
proof (induction s)
  case Nil
  then show ?case by (simp add: strIndex.simps [of "[]"])
next
  case (Cons d s)
  then have "\<not> hasPrefix (d # s) [c]" by auto
  then show ?case using Cons by (simp add: strIndex_skip)
qed

lemma strCut_char: "c \<notin> set u \<Longrightarrow> strCut (u @ c # v) [c] = Some (u, v)"
  by (simp add: strCut_def strIndex_char)

lemma strCut_char_None: "c \<notin> set s \<Longrightarrow> strCut s [c] = None"
  by (simp add: strCut_def strIndex_char_None)

lemma strIndex_bound: "strIndex s p = Some i \<Longrightarrow> i + length p \<le> length s"
proof (induction s arbitrary: i)
  case Nil
  then show ?case by (auto simp: strIndex.simps [of "[]"] split: if_splits)
next
  case (Cons c s)
  then show ?case
  proof (cases "hasPrefix (c # s) p")
    case True
    then have "length p \<le> length (c # s)" by (metis hasPrefix_iff le_add1 length_append)
    then show ?thesis using True Cons.prems by (simp add: strIndex_0)
  next
    case False
    then show ?thesis using Cons by (auto simp: strIndex_skip)
  qed
qed

lemma strCut_length: "strCut s sep = Some (a, b) \<Longrightarrow> length a + length sep + length b = length s"
  using strIndex_bound [of s sep] by (auto simp: strCut_def)

lemma lastIndexByte_last: "c \<notin> set v \<Longrightarrow> lastIndexByte c (u @ c # v) = int (length u)"
proof -
  assume "c \<notin> set v"
  then have "takeWhile (\<lambda>d. d \<noteq> c) (rev v @ c # rev u) = rev v" by (subst takeWhile_append2) auto
  then show ?thesis by (simp add: lastIndexByte_def)
qed

lemma lastIndexByte_none: "c \<notin> set s \<Longrightarrow> lastIndexByte c s = - 1"
proof -
  assume "c \<notin> set s"
  then have "takeWhile (\<lambda>d. d \<noteq> c) (rev s) = rev s" by (auto simp: takeWhile_eq_all_conv)
  then have "length (takeWhile (\<lambda>d. d \<noteq> c) (rev s)) = length s" by (metis length_rev)
  then show ?thesis unfolding lastIndexByte_def by simp
qed

lemma lastIndexByte_cases:
  obtains "c \<notin> set s" "lastIndexByte c s = - 1"
  | u v where "s = u @ c # v" "c \<notin> set v" "lastIndexByte c s = int (length u)"
proof (cases "c \<in> set s")
  case True
  then obtain u v where "s = u @ c # v" "c \<notin> set v" by (meson split_list_last)
  then show thesis using that(2) lastIndexByte_last by blast
qed (use that(1) lastIndexByte_none in blast)

section \<open>Trimming\<close>

definition plainByte :: "char \<Rightarrow> bool" where
  "plainByte c = (let n = of_char c :: nat in 33 \<le> n \<and> n < 128)"

text \<open>A visible ASCII byte neither starts nor ends a white space rune.\<close>

lemma plain_not_space:
  assumes "plainByte c"
  shows "runeLenIn spaceRunes (c # s) = 0" "runeLenIn (map rev spaceRunes) (c # s) = 0"
proof -
  have "\<forall>r\<in>set spaceRunes. \<not> plainByte (hd r) \<and> \<not> plainByte (last r)"
    by (simp add: spaceRunes_def plainByte_def)
  then show "runeLenIn spaceRunes (c # s) = 0" "runeLenIn (map rev spaceRunes) (c # s) = 0"
    using assms spaceRunes_nonempty unfolding runeLenIn_0 [OF spaceRunes_nonempty(1)] runeLenIn_0 [OF spaceRunes_nonempty(2)]
    by (auto simp: hasPrefix_iff Cons_eq_append_conv) (metis hd_rev list.sel(1))+
qed

lemma trimSpace_plain:
  assumes "plainByte c" "plainByte d"
  shows "trimSpace (c # s @ [d]) = c # s @ [d]" "trimSpace [c] = [c]"
  using plain_not_space [OF assms(1)] plain_not_space [OF assms(2)] by (simp_all add: trimSpace_fix)

lemma trimSpace_ends: "s \<noteq> [] \<Longrightarrow> plainByte (hd s) \<Longrightarrow> plainByte (last s) \<Longrightarrow> trimSpace s = s"
proof -
  assume s: "s \<noteq> []" "plainByte (hd s)" "plainByte (last s)"
  then obtain c r where c: "s = c # r" by (cases s) auto
  obtain r' d where d: "s = r' @ [d]" using s(1) by (cases s rule: rev_cases) auto
  show ?thesis
    using s c d plain_not_space [of c r] plain_not_space [of d "rev r'"]
    by (intro trimSpace_fix) (metis list.sel(1), metis rev_append rev_singleton_conv append_Cons append_Nil last_snoc)
qed

lemma trimSpace_plain_all: "list_all plainByte s \<Longrightarrow> trimSpace s = s"
  by (cases "s = []") (auto intro!: trimSpace_ends simp: list_all_iff)

lemma trimChars_fix: "hd s \<notin> set cs \<Longrightarrow> last s \<notin> set cs \<Longrightarrow> trimChars cs s = s"
proof -
  assume s: "hd s \<notin> set cs" "last s \<notin> set cs"
  have "dropWhile (\<lambda>c. c \<in> set cs) s = s" using s(1) by (cases s) auto
  moreover have "dropWhile (\<lambda>c. c \<in> set cs) (rev s) = rev s" using s(2) by (cases s rule: rev_cases) auto
  ultimately show ?thesis by (simp add: trimChars_def)
qed

lemma length_trimChars: "length (trimChars cs s) \<le> length s"
proof -
  have "length (trimChars cs s) \<le> length (dropWhile (\<lambda>c. c \<in> set cs) s)"
    unfolding trimChars_def by (metis length_rev length_dropWhile_le)
  then show ?thesis using length_dropWhile_le order_trans by blast
qed

section \<open>Fields and lines\<close>

lemma fieldsLoop_word: "list_all plainByte w \<Longrightarrow> fieldsLoop cur (w @ s) = fieldsLoop (cur @ w) s"
  by (induction w arbitrary: cur) (auto simp: plain_not_space)

lemma fieldsLoop_tab: "fieldsLoop cur (CHR 0x09 # s) = (if cur \<noteq> [] then [cur] else []) @ fieldsLoop [] s"
proof -
  have "runeLenIn spaceRunes (CHR 0x09 # s) = 1" by (simp add: spaceRunes_def)
  then show ?thesis by simp
qed

text \<open>Tab-separated words come back as fields.\<close>

lemma strFields_tabs:
  "ws \<noteq> [] \<Longrightarrow> \<forall>w\<in>set ws. w \<noteq> [] \<and> list_all plainByte w \<Longrightarrow> strFields (joinWith [CHR 0x09] ws) = ws"
proof (induction "[CHR 0x09]" ws rule: joinWith.induct)
  case (2 s)
  then show ?case using fieldsLoop_word [of s "[]" "[]"] by (simp add: strFields_def)
next
  case (3 s t ss)
  then have "strFields (joinWith [CHR 0x09] (t # ss)) = t # ss" by simp
  moreover have "fieldsLoop [] (s @ CHR 0x09 # joinWith [CHR 0x09] (t # ss))
      = [s] @ fieldsLoop [] (joinWith [CHR 0x09] (t # ss))"
    using 3(3) fieldsLoop_word [of s "[]"] by (simp add: fieldsLoop_tab del: fieldsLoop.simps)
  ultimately show ?case by (simp add: strFields_def del: fieldsLoop.simps)
qed simp

lemma rawLines_unlines:
  "\<forall>l\<in>set ls. CHR 0x0A \<notin> set l \<Longrightarrow> rawLines (concat (map (\<lambda>l. l @ [CHR 0x0A]) ls)) = ls"
proof -
  assume ls: "\<forall>l\<in>set ls. CHR 0x0A \<notin> set l"
  then have "splitOn (CHR 0x0A) (concat (map (\<lambda>l. l @ [CHR 0x0A]) ls)) = ls @ [[]]"
    by (induction ls) (auto simp: splitOn_append splitOn_free)
  then show ?thesis by (simp add: rawLines_def)
qed

lemma scanLines_unlines:
  assumes "\<forall>l\<in>set ls. CHR 0x0A \<notin> set l \<and> length l < n \<and> dropCR l = l"
  shows "scanLines n (concat (map (\<lambda>l. l @ [CHR 0x0A]) ls)) = ls"
  using assms by (simp add: scanLines_def rawLines_unlines takeWhile_eq_all_conv [THEN iffD2] map_idI)

section \<open>Lower case\<close>

definition lowerLetter :: "char \<Rightarrow> bool" where
  "lowerLetter c = (let n = of_char c :: nat in 97 \<le> n \<and> n \<le> 122)"

lemma of_lowerByte:
  "(of_char (lowerByte c) :: nat) = (if 65 \<le> (of_char c :: nat) \<and> (of_char c :: nat) \<le> 90 then of_char c + 32 else of_char c)"
  by (simp add: lowerByte_def Let_def take_bit_nat_def)

lemma char_eq_of: "c = d \<longleftrightarrow> (of_char c :: nat) = of_char d"
  by (metis char_of_char)

lemma lowerByte_low: "lowerByte (lowerByte c) = lowerByte c"
  unfolding char_eq_of [of "lowerByte (lowerByte c)"] of_lowerByte by simp

text \<open>No other byte is lowered to a byte that is neither a letter.\<close>

lemma lowerByte_eq: "(of_char d :: nat) < 65 \<Longrightarrow> lowerByte c = d \<longleftrightarrow> c = d"
  unfolding char_eq_of of_lowerByte by auto

lemma toLower_set: "c \<in> set (toLower s) \<Longrightarrow> c = CHR ''k'' \<or> c = CHR ''i'' \<or> (\<exists>d\<in>set s. c = lowerByte d)"
proof (induction s rule: toLower.induct)
  case (2 d s)
  have "set (drop n s) \<subseteq> set (d # s)" for n using set_drop_subset by fastforce
  then show ?case using 2 by (auto split: if_splits)
qed simp

lemma toLower_bytes: "c \<in> set (toLower s) \<Longrightarrow> lowerByte c = c"
proof -
  assume "c \<in> set (toLower s)"
  then consider "c = CHR ''k''" | "c = CHR ''i''" | d where "c = lowerByte d" using toLower_set by blast
  moreover have "lowerByte (CHR ''k'') = CHR ''k''" "lowerByte (CHR ''i'') = CHR ''i''" by code_simp+
  ultimately show ?thesis by cases (simp_all add: lowerByte_low)
qed

lemma toLower_free: "(of_char d :: nat) < 65 \<Longrightarrow> d \<notin> set s \<Longrightarrow> d \<notin> set (toLower s)"
proof
  assume d: "(of_char d :: nat) < 65" "d \<notin> set s" "d \<in> set (toLower s)"
  consider "d = CHR ''k''" | "d = CHR ''i''" | e where "e \<in> set s" "lowerByte e = d" using toLower_set [OF d(3)] by blast
  then show False using d(1,2) lowerByte_eq [OF d(1)] by cases auto
qed

lemma toLower_nonempty: "toLower s = [] \<longleftrightarrow> s = []"
  by (cases s) auto

text \<open>Bytes that are no letters stand in a lowered text as they stood before, at either end.\<close>

lemma lowerByte_other: "lowerByte d = c \<Longrightarrow> \<not> lowerLetter c \<Longrightarrow> d = c"
proof -
  assume "lowerByte d = c" "\<not> lowerLetter c"
  then have "(of_char d :: nat) = of_char c" using of_lowerByte [of d] by (auto simp: lowerLetter_def Let_def split: if_splits)
  then show ?thesis unfolding char_eq_of [of d c] .
qed

lemma toLower_prefix: "toLower s = w @ v \<Longrightarrow> list_all (\<lambda>c. \<not> lowerLetter c) w \<Longrightarrow> \<exists>v'. s = w @ v' \<and> toLower v' = v"
proof (induction w arbitrary: s)
  case (Cons c w)
  obtain d s' where s: "s = d # s'" using Cons.prems(1) by (cases s) auto
  have "lowerLetter (CHR ''k'')" "lowerLetter (CHR ''i'')" by code_simp+
  then have "lowerByte d = c" "toLower s' = w @ v"
    using Cons.prems unfolding s by (auto split: if_splits)
  then show ?case using Cons.IH [of s'] Cons.prems(2) lowerByte_other unfolding s by fastforce
qed simp

lemma toLower_suffix: "toLower s = u @ w \<Longrightarrow> list_all (\<lambda>c. \<not> lowerLetter c) w \<Longrightarrow> \<exists>u'. s = u' @ w"
proof (induction s arbitrary: u rule: toLower.induct)
  case (2 d s)
  show ?case
  proof (cases u)
    case Nil
    with toLower_prefix [of "d # s" w "[]"] 2(4,5) obtain v' where "d # s = w @ v'" "toLower v' = []" by auto
    then show ?thesis by (metis toLower_nonempty append_Nil append_Nil2)
  next
    case (Cons e u')
    have pre: "\<exists>x. s = x @ w \<Longrightarrow> ?thesis" by (metis append_Cons)
    have dr: "\<exists>x. drop n s = x @ w \<Longrightarrow> \<exists>x. s = x @ w" for n by (metis append_take_drop_id append_assoc)
    show ?thesis using 2 Cons by (intro pre) (auto split: if_splits intro: dr)
  qed
qed simp

lemma toLower_idem [simp]: "toLower (toLower s) = toLower s"
proof (induction s rule: toLower.induct)
  case (2 c s)
  have "hasPrefix (toLower s) w \<Longrightarrow> list_all (\<lambda>c. \<not> lowerLetter c) w \<Longrightarrow> hasPrefix s w" for w
    using toLower_prefix unfolding hasPrefix_iff by blast
  from this [of "[CHR 0x84, CHR 0xAA]"] this [of "[CHR 0xB0]"]
  have tails: "hasPrefix (toLower s) [CHR 0x84, CHR 0xAA] \<Longrightarrow> hasPrefix s [CHR 0x84, CHR 0xAA]"
    "hasPrefix (toLower s) [CHR 0xB0] \<Longrightarrow> hasPrefix s [CHR 0xB0]"
    by (simp_all add: lowerLetter_def)
  have "lowerByte (CHR ''k'') = CHR ''k''" "lowerByte (CHR ''i'') = CHR ''i''" by code_simp+
  moreover have "lowerByte c = CHR 0xE2 \<Longrightarrow> c = CHR 0xE2" "lowerByte c = CHR 0xC4 \<Longrightarrow> c = CHR 0xC4"
    by (rule lowerByte_other, assumption, simp add: lowerLetter_def)+
  ultimately show ?case using 2 tails by (auto simp: lowerByte_low split: if_splits)
qed simp

lemma trimSpace_toLower: "trimSpace t = t \<Longrightarrow> trimSpace (toLower t) = toLower t"
proof -
  assume t: "trimSpace t = t"
  have other: "\<forall>r\<in>set spaceRunes. list_all (\<lambda>c. \<not> lowerLetter c) r" by (simp add: spaceRunes_def lowerLetter_def)
  have "\<not> hasPrefix (toLower t) r" if r: "r \<in> set spaceRunes" for r
  proof
    assume "hasPrefix (toLower t) r"
    then have "hasPrefix t r" using toLower_prefix other r unfolding hasPrefix_iff by blast
    then show False using trimSpace_done(1) [of t] r runeLenIn_0 [OF spaceRunes_nonempty(1)] unfolding t by blast
  qed
  moreover have "\<not> hasPrefix (rev (toLower t)) r" if r: "r \<in> set (map rev spaceRunes)" for r
  proof
    obtain q where q: "q \<in> set spaceRunes" "r = rev q" using r by auto
    assume "hasPrefix (rev (toLower t)) r"
    then obtain u where "toLower t = u @ q" unfolding q hasPrefix_iff by (metis rev_append rev_rev_ident)
    then have "hasPrefix (rev t) r" using toLower_suffix other q unfolding hasPrefix_iff by (metis rev_append)
    then show False using trimSpace_done(2) [of t] r runeLenIn_0 [OF spaceRunes_nonempty(2)] unfolding t by blast
  qed
  ultimately show ?thesis
    using runeLenIn_0 [OF spaceRunes_nonempty(1)] runeLenIn_0 [OF spaceRunes_nonempty(2)] by (intro trimSpace_fix) blast+
qed

lemma toLower_trim [simp]: "trimSpace (toLower (trimSpace s)) = toLower (trimSpace s)"
  by (rule trimSpace_toLower) simp

end
