(* ===== verification/HangarPure.thy ===== *)
theory HangarPure
  imports GoText
begin

text \<open>
  The pure core of the deployment daemon (\<^verbatim>\<open>services/hangar/pure.go\<close>, and the image, repository
  and job-path helpers of \<^verbatim>\<open>pure_bundles.go\<close>): classification of changed files, environment
  filtering, container image references, registry challenges, GitHub slugs, and the scanners of
  Nomad job files and command output.

  \<^verbatim>\<open>url.Parse\<close> is an argument: the host name and path it finds, or \<^const>\<open>None\<close> for an error.
  Environment lookups and file tests are arguments too. Names that are lowered are taken to be
  ASCII, as image, job and repository names are; \<^verbatim>\<open>strings.EqualFold\<close> against a literal
  without the letters k and s compares bytes folded to lower case. The Docker and Git credential
  writers (base64 and JSON) are not modelled.
\<close>

section \<open>Changed files and sync status\<close>

definition slashed :: "string \<Rightarrow> string" where
  "slashed p = replaceAll [CHR 0x5C] ''/'' (trimSpace p)"

definition eqFold :: "string \<Rightarrow> string \<Rightarrow> bool" where
  "eqFold s t = (map lowerByte s = map lowerByte t)"

definition IsNomadConfigFile :: "string \<Rightarrow> bool" where
  "IsNomadConfigFile p =
     (let cleanPath = slashed p; base = pathBase cleanPath; dir = pathDir cleanPath
      in if \<not> hasSuffix (toLower base) ''.hcl'' then False
         else dir = ''nomad'' \<or> hasSuffix dir ''/nomad'' \<or> eqFold base ''nomad.hcl'')"

definition FilterNomadConfigFiles :: "string list \<Rightarrow> string list" where
  "FilterNomadConfigFiles changedFiles = filter IsNomadConfigFile changedFiles"

record RepoStatus =
  rs_Repo :: string
  rs_GitHubRepo :: string
  rs_DiskCommit :: string
  rs_DiskCommitTime :: "int option"
  rs_RemoteCommit :: string
  rs_RemoteCommitTime :: "int option"
  rs_TimeLagSeconds :: int
  rs_SyncStatus :: string
  rs_LastSyncTime :: int
  rs_Error :: string

text \<open>The map is given as the list of its entries; the result does not depend on their order.\<close>

definition CalculateSyncStatus :: "(string \<times> RepoStatus) list \<Rightarrow> string" where
  "CalculateSyncStatus repos =
     (let hasError = list_ex (\<lambda>(k, st). rs_SyncStatus st = ''error'' \<or> rs_Error st \<noteq> []) repos;
          hasLag = list_ex (\<lambda>(k, st). rs_SyncStatus st = ''lagging'') repos
      in if hasError then ''error'' else if hasLag then ''lagging'' else ''synced'')"

section \<open>Environments\<close>

definition allowedExactKeys :: "string list" where
  "allowedExactKeys =
     [''path'', ''home'', ''user'', ''tmpdir'', ''temp'', ''tmp'',
      ''hostname'', ''lang'', ''lc_all'', ''lc_ctype'', ''xdg_runtime_dir'', ''ci'',
      ''http_proxy'', ''https_proxy'', ''no_proxy'', ''all_proxy'', ''ssl_cert_file'', ''ssl_cert_dir'',
      ''systemroot'', ''systemdrive'', ''comspec'', ''pathext'']"

definition allowedPrefixes :: "string list" where
  "allowedPrefixes = [''docker_'', ''compose_'']"

definition isAllowedEnvKey :: "string \<Rightarrow> bool" where
  "isAllowedEnvKey key =
     (let lower = toLower (trimSpace key)
      in lower \<in> set allowedExactKeys \<or> list_ex (hasPrefix lower) allowedPrefixes)"

fun ScrubComposeEnv :: "string list \<Rightarrow> string list" where
  "ScrubComposeEnv [] = []"
| "ScrubComposeEnv (env # environ) =
     (case strCut env ''='' of
        None \<Rightarrow> ScrubComposeEnv environ
      | Some (key, val) \<Rightarrow> if isAllowedEnvKey key then env # ScrubComposeEnv environ else ScrubComposeEnv environ)"

text \<open>The candidates that \<^verbatim>\<open>resolveWindowsGitBin\<close> tries, in order.\<close>

definition windowsGitCandidate :: "(string \<Rightarrow> string) \<Rightarrow> string \<Rightarrow> string \<Rightarrow> string list \<Rightarrow> string option" where
  "windowsGitCandidate lookup sep key tail =
     (if lookup key \<noteq> [] then Some (joinWith sep (lookup key # tail)) else None)"

definition resolveWindowsGitBin :: "(string \<Rightarrow> string) \<Rightarrow> (string \<Rightarrow> bool) \<Rightarrow> string \<Rightarrow> string option" where
  "resolveWindowsGitBin lookup exists goos =
     (let sep = (if goos = ''windows'' then [CHR 0x5C] else ''/'');
          cands = [windowsGitCandidate lookup sep ''LOCALAPPDATA'' [''Programs'', ''MinGit'', ''cmd'', ''git.exe''],
                   windowsGitCandidate lookup sep ''ProgramFiles'' [''Git'', ''cmd'', ''git.exe''],
                   windowsGitCandidate lookup sep ''USERPROFILE'' [''AppData'', ''Local'', ''Programs'', ''MinGit'', ''cmd'', ''git.exe'']]
      in case List.find (\<lambda>c. case c of None \<Rightarrow> False | Some p \<Rightarrow> exists p) cands of
           None \<Rightarrow> None | Some c \<Rightarrow> c)"

definition resolveGitBinInternal ::
  "(string \<Rightarrow> string) \<Rightarrow> (string \<Rightarrow> bool) \<Rightarrow> (string \<Rightarrow> string option) option \<Rightarrow> string \<Rightarrow> string" where
  "resolveGitBinInternal lookup exists lookPath goos =
     (case (case lookPath of None \<Rightarrow> None | Some lp \<Rightarrow> lp ''git'') of
        Some (c # p) \<Rightarrow> c # p
      | _ \<Rightarrow> (case (if goos = ''windows'' \<or> lookup ''OS'' = ''Windows_NT'' then resolveWindowsGitBin lookup exists goos else None) of
                Some minGit \<Rightarrow> minGit
              | None \<Rightarrow> ''git''))"

definition parseRepoUser :: "string \<Rightarrow> string" where
  "parseRepoUser repoURL =
     (let trimmed = trimSuffix repoURL ''.git'';
          pathPart = (case strCut trimmed ''://'' of
              Some (_, after) \<Rightarrow> (case strIndex after ''/'' of Some i \<Rightarrow> drop (i + 1) after | None \<Rightarrow> after)
            | None \<Rightarrow> (case strCut trimmed '':'' of Some (_, after) \<Rightarrow> after | None \<Rightarrow> []));
          parts = splitOn (CHR ''/'') (trimChars ''/'' pathPart)
      in if length parts \<ge> 2 \<and> hd parts \<noteq> [] then hd parts else [])"

definition ResolveRegistryUser :: "string \<Rightarrow> (string \<Rightarrow> string) option \<Rightarrow> string" where
  "ResolveRegistryUser repoURL lookup =
     (let env = (\<lambda>k. case lookup of None \<Rightarrow> [] | Some l \<Rightarrow> trimSpace (l k)); url = trimSpace repoURL
      in if env ''DOCKER_REGISTRY_USER'' \<noteq> [] then env ''DOCKER_REGISTRY_USER''
         else if env ''GITHUB_ACTOR'' \<noteq> [] then env ''GITHUB_ACTOR''
         else if url \<noteq> [] \<and> parseRepoUser url \<noteq> [] then parseRepoUser url else ''x-access-token'')"

definition ResolveDockerConfigPath :: "(string \<Rightarrow> string) option \<Rightarrow> string" where
  "ResolveDockerConfigPath lookup =
     (let env = (\<lambda>k. case lookup of None \<Rightarrow> [] | Some l \<Rightarrow> trimSpace (l k))
      in if env ''DOCKER_CONFIG'' \<noteq> [] then pathJoinL [env ''DOCKER_CONFIG'', ''config.json'']
         else if env ''HOME'' \<noteq> [] then pathJoinL [env ''HOME'', ''.docker'', ''config.json'']
         else ''/root/.docker/config.json'')"

section \<open>Image references\<close>

datatype imageErr =
    EmptyImageRef
  | ImageRefHasSpace
  | InvalidDigestPin
  | InvalidTag
  | MissingRepositoryName
  | EmptyRepositoryPath

definition dockerHub :: string where
  "dockerHub = ''registry-1.docker.io''"

text \<open>The normalisation of the aliases of Docker Hub at the end of \<^verbatim>\<open>splitRegistryAndRepo\<close>.\<close>

definition normalizeHub :: "string \<Rightarrow> string \<Rightarrow> string \<times> string" where
  "normalizeHub registry0 repository =
     (let registry = (if registry0 = ''docker.io'' \<or> registry0 = ''index.docker.io'' then dockerHub else registry0)
      in (registry, if registry = dockerHub \<and> \<not> contains repository ''/'' then ''library/'' @ repository else repository))"

definition splitRegistryAndRepo :: "string \<Rightarrow> string \<times> string" where
  "splitRegistryAndRepo namePart =
     (case strCut namePart ''/'' of
        Some (firstSegment, after) \<Rightarrow>
          if contains firstSegment ''.'' \<or> contains firstSegment '':'' \<or> firstSegment = ''localhost''
          then normalizeHub firstSegment after else normalizeHub dockerHub namePart
      | None \<Rightarrow> normalizeHub dockerHub (''library/'' @ namePart))"

definition varImageTag :: string where
  "varImageTag = ''${var.image_tag}''"

definition parseImageTagAndName :: "string \<Rightarrow> string \<Rightarrow> (imageErr, string \<times> string) result" where
  "parseImageTagAndName trimmed tag =
     (if tag \<noteq> [] then Inr (trimmed, tag)
      else let lastColon = lastIndexByte (CHR '':'') trimmed; lastSlash = lastIndexByte (CHR ''/'') trimmed
      in if lastColon \<noteq> - 1 \<and> lastColon > lastSlash then
           let extractedTag = drop (nat lastColon + 1) trimmed; namePart = take (nat lastColon) trimmed
           in if extractedTag = [] \<or> contains extractedTag ''/'' then Inl InvalidTag
              else Inr (namePart, if extractedTag = varImageTag then ''latest'' else extractedTag)
         else Inr (trimmed, ''latest''))"

definition ParseImageReference :: "string \<Rightarrow> (imageErr, string \<times> string \<times> string) result" where
  "ParseImageReference ref =
     (let trimmed = trimSpace ref in
      guardErr (trimmed = []) EmptyImageRef (
      guardErr (contains trimmed '' '') ImageRefHasSpace (
      rbind (case strCut trimmed ''@'' of
               None \<Rightarrow> Inr (trimmed, [])
             | Some (before, digestPart) \<Rightarrow>
                 if \<not> hasPrefix digestPart ''sha256:'' then Inl InvalidDigestPin else Inr (before, digestPart))
        (\<lambda>(trimmed, tag).
      rbind (parseImageTagAndName trimmed tag) (\<lambda>(namePart, tag).
      guardErr (namePart = []) MissingRepositoryName (
      let (registry, repository) = splitRegistryAndRepo namePart
      in guardErr (repository = []) EmptyRepositoryPath (Inr (registry, repository, tag))))))))"

definition stripImageTag :: "string \<Rightarrow> string" where
  "stripImageTag img0 =
     (let img = (case strIndex img0 ''@'' of Some i \<Rightarrow> take i img0 | None \<Rightarrow> img0);
          lastSlash = lastIndexByte (CHR ''/'') img; lastColon = lastIndexByte (CHR '':'') img
      in if lastColon > lastSlash then take (nat lastColon) img else img)"

definition ReplaceImageTag :: "string \<Rightarrow> string \<Rightarrow> string" where
  "ReplaceImageTag imageRef tag =
     (let ref = trimSpace imageRef; t = trimSpace tag
      in if ref = [] \<or> t = [] then ref else stripImageTag ref @ '':'' @ t)"

definition ImageMatches :: "string \<Rightarrow> string \<Rightarrow> bool" where
  "ImageMatches query target =
     (let q = trimSpace (toLower query); t = trimSpace (toLower target)
      in if q = [] \<or> t = [] then False
         else q = t \<or> stripImageTag q = stripImageTag t
              \<or> pathBase (stripImageTag q) = pathBase (stripImageTag t))"

section \<open>Registry challenges\<close>

definition parseQuotedAuthParam :: "string \<Rightarrow> string \<times> string" where
  "parseQuotedAuthParam rem =
     (case strIndex (drop 1 rem) [CHR 0x22] of
        None \<Rightarrow> (trimChars [CHR 0x22] rem, [])
      | Some endQuote \<Rightarrow>
          (take endQuote (drop 1 rem),
           case strCut (drop (endQuote + 2) rem) '','' of Some (_, after) \<Rightarrow> trimSpace after | None \<Rightarrow> []))"

definition parseUnquotedAuthParam :: "string \<Rightarrow> string \<times> string" where
  "parseUnquotedAuthParam rem =
     (case strCut rem '','' of
        Some (before, after) \<Rightarrow> (trimSpace before, trimSpace after)
      | None \<Rightarrow> (trimSpace rem, []))"

definition parseAuthParamValue :: "string \<Rightarrow> string \<times> string" where
  "parseAuthParamValue rem =
     (if hasPrefix rem [CHR 0x22] then parseQuotedAuthParam rem else parseUnquotedAuthParam rem)"

lemma parseAuthParamValue_length: "length (snd (parseAuthParamValue rem)) \<le> length rem"
proof -
  have cut: "length (trimSpace b) \<le> length s" if "strCut s '','' = Some (a, b)" for s a b
    using strCut_length [OF that] length_trimSpace [of b] by linarith
  have "length (snd (parseQuotedAuthParam rem)) \<le> length rem"
    using cut by (fastforce simp: parseQuotedAuthParam_def split: option.splits dest: cut)
  moreover have "length (snd (parseUnquotedAuthParam rem)) \<le> length rem"
    using cut by (auto simp: parseUnquotedAuthParam_def split: option.splits)
  ultimately show ?thesis by (simp add: parseAuthParamValue_def)
qed

text \<open>The parameter loop; every round consumes at least the equals sign, so it ends.\<close>

function authParams :: "string \<Rightarrow> (string \<rightharpoonup> string) \<Rightarrow> (string \<rightharpoonup> string)" where
  "authParams paramsPart params =
     (case strIndex paramsPart ''='' of
        None \<Rightarrow> params
      | Some eqIdx \<Rightarrow>
          let key = toLower (trimSpace (take eqIdx paramsPart));
              rem = trimSpace (drop (eqIdx + 1) paramsPart)
          in authParams (snd (parseAuthParamValue rem))
               (if key \<noteq> [] then params(key \<mapsto> fst (parseAuthParamValue rem)) else params))"
  by pat_completeness auto
termination
proof (relation "measure (\<lambda>(paramsPart, params). length paramsPart)", goal_cases)
  case (2 paramsPart params eqIdx key rem)
  have "length rem \<le> length (drop (eqIdx + 1) paramsPart)" using 2 length_trimSpace by blast
  moreover have "length (snd (parseAuthParamValue rem)) \<le> length rem" by (rule parseAuthParamValue_length)
  moreover have "eqIdx < length paramsPart" using strIndex_bound [of paramsPart "''=''"] 2 by simp
  ultimately show ?case by simp
qed simp

declare authParams.simps [simp del]

datatype authErr = EmptyAuthHeader | UnsupportedAuthScheme | MissingRealm

definition param :: "(string \<rightharpoonup> string) \<Rightarrow> string \<Rightarrow> string" where
  "param ps k = (case ps k of Some v \<Rightarrow> v | None \<Rightarrow> [])"

definition ParseWwwAuthenticate :: "string \<Rightarrow> (authErr, string \<times> string \<times> string) result" where
  "ParseWwwAuthenticate header =
     (let trimmed = trimSpace header in
      guardErr (trimmed = []) EmptyAuthHeader (
      guardErr (\<not> hasPrefix (toLower trimmed) ''bearer '') UnsupportedAuthScheme (
      let params = authParams (trimSpace (drop 7 trimmed)) Map.empty in
      guardErr (param params ''realm'' = []) MissingRealm (
      Inr (param params ''realm'', param params ''service'', param params ''scope'')))))"

section \<open>GitHub slugs and repositories\<close>

definition cleanSlugPath :: "string \<Rightarrow> string" where
  "cleanSlugPath p0 =
     (let p1 = trimChars ''/'' (trimSuffix (trimChars ''/'' p0) ''.git'');
          p = takeWhile (\<lambda>c. c \<noteq> CHR ''?'' \<and> c \<noteq> CHR ''#'') p1;
          parts = splitOn (CHR ''/'') p
      in case parts of
           [a, b] \<Rightarrow> (let owner = trimSpace a; repo = trimSpace b
                      in if owner = [] \<or> repo = [] then [] else toLower (owner @ ''/'' @ repo))
         | _ \<Rightarrow> [])"

definition ParseGitHubSlug :: "(string \<Rightarrow> (string \<times> string) option) \<Rightarrow> string \<Rightarrow> string" where
  "ParseGitHubSlug urlParse rawRemoteURL =
     (let raw = trimSpace rawRemoteURL
      in if raw = [] then []
         else if hasPrefix raw ''git@'' then
           (case strCut (trimPrefix raw ''git@'') '':'' of
              Some (host, pathPart) \<Rightarrow> if eqFold host ''github.com'' then cleanSlugPath pathPart else []
            | None \<Rightarrow> [])
         else if contains raw ''://'' then
           (case urlParse raw of
              None \<Rightarrow> []
            | Some (hostname, path) \<Rightarrow> if toLower hostname \<noteq> ''github.com'' then [] else cleanSlugPath path)
         else [])"

definition NormalizeGitHubSlug :: "string \<Rightarrow> string" where
  "NormalizeGitHubSlug inp =
     (let s0 = trimSpace inp
      in if s0 = [] then []
         else let s1 = trimPrefix (trimPrefix (trimPrefix s0 ''https://github.com/'') ''http://github.com/'') ''git@github.com:'';
                  s = trimPrefix (trimSuffix s1 ''.git'') ''/'';
                  base = pathBase (pathClean inp);
                  parts = splitOn (CHR ''/'') s
         in if hasPrefix inp ''/'' \<and> base \<noteq> [] \<and> base \<noteq> ''.'' \<and> base \<noteq> ''/'' then ''azylman/'' @ base
            else if length parts \<ge> 2 then parts ! (length parts - 2) @ ''/'' @ last parts
            else if hd parts \<noteq> [] then ''azylman/'' @ hd parts else s)"

fun resolveRepoLoop :: "string \<Rightarrow> string list \<Rightarrow> string" where
  "resolveRepoLoop q [] = []"
| "resolveRepoLoop q (repo # repos) =
     (let cleanLower = toLower (pathClean repo); baseRepo = toLower (pathBase (pathClean repo)); baseQ = pathBase q
      in if cleanLower = pathClean q \<or> cleanLower = q \<or> baseRepo = q \<or> baseRepo = baseQ
            \<or> hasSuffix cleanLower (''/'' @ baseQ) then repo
         else resolveRepoLoop q repos)"

definition ResolveRepoPath :: "string \<Rightarrow> string list \<Rightarrow> string" where
  "ResolveRepoPath query configuredRepos =
     (let q = trimSpace (toLower query) in if q = [] then [] else resolveRepoLoop (trimSuffix q ''.git'') configuredRepos)"

section \<open>Job files\<close>

definition IsNomadJobFile :: "string \<Rightarrow> bool" where
  "IsNomadJobFile p =
     (let lower = toLower (pathBase (slashed p)) in hasSuffix lower ''.nomad'' \<or> hasSuffix lower ''.nomad.hcl'')"

definition IsNomadVarFile :: "string \<Rightarrow> bool" where
  "IsNomadVarFile p =
     (let lower = toLower (pathBase (slashed p)) in hasSuffix lower ''.vars.hcl'' \<and> length lower > length ''.vars.hcl'')"

definition IsSafeJobPath :: "string \<Rightarrow> string \<Rightarrow> bool" where
  "IsSafeJobPath baseDir targetPath =
     (if baseDir = [] \<or> targetPath = [] then False
      else case pathRel (pathClean baseDir) (pathClean targetPath) of
             None \<Rightarrow> False
           | Some rel \<Rightarrow> if hasPrefix rel ''..'' \<or> rel = ''.'' then False else IsNomadJobFile (pathClean targetPath))"

definition hclScanSize :: nat where
  "hclScanSize = 1024 * 1024"

definition hclComment :: "string \<Rightarrow> bool" where
  "hclComment line = (hasPrefix line ''#'' \<or> hasPrefix line ''//'')"

text \<open>\<^verbatim>\<open>strings.SplitN\<close> at double quotes, second part: what stands between the first two quotes, or after the only one.\<close>

definition quotedPart :: "string \<Rightarrow> string option" where
  "quotedPart line = (case splitOn (CHR 0x22) line of a # b # r \<Rightarrow> Some b | _ \<Rightarrow> None)"

definition jobNameOfLine :: "string \<Rightarrow> string option" where
  "jobNameOfLine raw =
     (let line = trimSpace raw
      in if hclComment line \<or> \<not> hasPrefix line ''job '' then None
         else case quotedPart line of
                None \<Rightarrow> None
              | Some part \<Rightarrow> if trimSpace part \<noteq> [] then Some (trimSpace part) else None)"

fun firstSome :: "('a \<Rightarrow> 'b option) \<Rightarrow> 'a list \<Rightarrow> 'b option" where
  "firstSome f [] = None"
| "firstSome f (x # xs) = (case f x of Some y \<Rightarrow> Some y | None \<Rightarrow> firstSome f xs)"

definition jobNameOfFile :: "string \<Rightarrow> string" where
  "jobNameOfFile fallbackFileName =
     trimSuffix (trimSuffix (trimSuffix (pathBase (slashed fallbackFileName)) ''.vars.hcl'') ''.nomad.hcl'') ''.nomad''"

definition ExtractJobName :: "string \<Rightarrow> string \<Rightarrow> string" where
  "ExtractJobName content fallbackFileName =
     (case firstSome jobNameOfLine (scanLines hclScanSize content) of
        Some name \<Rightarrow> name
      | None \<Rightarrow> jobNameOfFile fallbackFileName)"

definition extractImageFromHCLAssignment :: "string \<Rightarrow> string" where
  "extractImageFromHCLAssignment line =
     (case strCut line ''image'' of
        None \<Rightarrow> []
      | Some (_, after) \<Rightarrow>
          let sub = trimSpace after
          in if \<not> hasPrefix sub ''='' then []
             else case dropWhile (\<lambda>c. c \<noteq> CHR 0x22 \<and> c \<noteq> CHR 0x27) (trimSpace (drop 1 sub)) of
                    [] \<Rightarrow> []
                  | quote # rest \<Rightarrow>
                      (case strCut rest [quote] of
                         None \<Rightarrow> []
                       | Some (before0, _) \<Rightarrow> replaceAll varImageTag ''latest'' (trimSpace before0)))"

fun imagesLoop :: "string list \<Rightarrow> string list \<Rightarrow> string list" where
  "imagesLoop images [] = images"
| "imagesLoop images (raw # ls) =
     (let line = trimSpace raw
      in if hclComment line then imagesLoop images ls
         else let img = extractImageFromHCLAssignment line
              in imagesLoop (if img \<noteq> [] \<and> img \<notin> set images then images @ [img] else images) ls)"

definition ExtractNomadJobImages :: "string \<Rightarrow> string list" where
  "ExtractNomadJobImages content = imagesLoop [] (scanLines hclScanSize content)"

definition cleanChangedFilePath :: "string \<Rightarrow> string" where
  "cleanChangedFilePath f = trimPrefix (pathClean (slashed f)) ''/''"

definition HasNomadJobVariable :: "string \<Rightarrow> string \<Rightarrow> bool" where
  "HasNomadJobVariable content varName0 =
     (let varName = trimSpace varName0
      in if content = [] \<or> varName = [] then False
         else list_ex (\<lambda>raw. let line = trimSpace raw; fields = strFields line
                in \<not> hclComment line \<and> length fields \<ge> 2 \<and> hd fields = ''variable''
                   \<and> trimChars [CHR 0x22, CHR 0x27, CHR 0x60] (trimSuffix (fields ! 1) ''{'') = varName)
                (scanLines hclScanSize content))"

section \<open>Command output\<close>

record NomadFileChange =
  nc_Path :: string
  nc_Action :: string
  nc_JobName :: string

definition fileChange :: "string \<Rightarrow> string \<Rightarrow> NomadFileChange" where
  "fileChange path action = \<lparr>nc_Path = path, nc_Action = action, nc_JobName = ExtractJobName [] path\<rparr>"

definition renameChanges :: "string \<Rightarrow> string \<Rightarrow> NomadFileChange list" where
  "renameChanges oldPath newPath =
     (if IsNomadJobFile oldPath then [fileChange oldPath ''delete'']
      else if IsNomadVarFile oldPath then [fileChange oldPath ''apply''] else [])
     @ (if IsNomadJobFile newPath \<or> IsNomadVarFile newPath then [fileChange newPath ''apply''] else [])"

definition statusLineChanges :: "string \<Rightarrow> NomadFileChange list" where
  "statusLineChanges raw =
     (let line = trimSpace raw; parts = strFields line
      in if line = [] \<or> length parts < 2 then []
         else if hasPrefix (hd parts) ''R'' \<and> length parts \<ge> 3 then renameChanges (parts ! 1) (parts ! 2)
         else let filePath = last parts
              in if IsNomadVarFile filePath then [fileChange filePath ''apply'']
                 else if \<not> IsNomadJobFile filePath then []
                 else [fileChange filePath (if hasPrefix (hd parts) ''D'' then ''delete'' else ''apply'')])"

definition ParseNomadGitStatus :: "string \<Rightarrow> NomadFileChange list" where
  "ParseNomadGitStatus gitStatusOutput = concat (map statusLineChanges (scanLines MaxScanTokenSize gitStatusOutput))"

definition activeJobOfLine :: "string \<Rightarrow> string list" where
  "activeJobOfLine raw =
     (let line = trimSpace raw; fields = strFields line
      in if line = [] \<or> hasPrefix line ''No running jobs'' \<or> length fields < 4 then []
         else if hd fields = ''ID'' \<and> fields ! 1 = ''Type'' then []
         else if contains (hd fields) ''/'' \<or> toLower (fields ! 3) = ''dead'' then []
         else [hd fields])"

definition ParseActiveNomadJobs :: "string \<Rightarrow> string list" where
  "ParseActiveNomadJobs statusOutput = concat (map activeJobOfLine (scanLines MaxScanTokenSize statusOutput))"

section \<open>Image references: properties\<close>

datatype imageSuffix = NoSuffix | TagSuffix string | DigestSuffix string

fun renderSuffix :: "imageSuffix \<Rightarrow> string" where
  "renderSuffix NoSuffix = []"
| "renderSuffix (TagSuffix t) = CHR '':'' # t"
| "renderSuffix (DigestSuffix d) = CHR ''@'' # ''sha256:'' @ d"

fun suffixTag :: "imageSuffix \<Rightarrow> string" where
  "suffixTag NoSuffix = ''latest''"
| "suffixTag (TagSuffix t) = (if t = varImageTag then ''latest'' else t)"
| "suffixTag (DigestSuffix d) = ''sha256:'' @ d"

definition plainText :: "string \<Rightarrow> bool" where
  "plainText s = (s \<noteq> [] \<and> list_all plainByte s)"

fun suffixOk :: "imageSuffix \<Rightarrow> bool" where
  "suffixOk NoSuffix = True"
| "suffixOk (TagSuffix t) = (plainText t \<and> CHR ''/'' \<notin> set t \<and> CHR '':'' \<notin> set t \<and> CHR ''@'' \<notin> set t)"
| "suffixOk (DigestSuffix d) = list_all plainByte d"

definition nameOk :: "string \<Rightarrow> bool" where
  "nameOk name = (plainText name \<and> CHR ''@'' \<notin> set name
     \<and> lastIndexByte (CHR '':'') name \<le> lastIndexByte (CHR ''/'') name)"

lemma lastIndexByte_append: "c \<notin> set b \<Longrightarrow> lastIndexByte c (a @ b) = lastIndexByte c a"
proof (cases rule: lastIndexByte_cases [of c a])
  case 1
  assume "c \<notin> set b"
  then show ?thesis using 1 lastIndexByte_none [of c "a @ b"] by simp
next
  case (2 u v)
  assume "c \<notin> set b"
  then show ?thesis using 2 lastIndexByte_last [of c "v @ b" u] by simp
qed

lemma lastIndexByte_less: "lastIndexByte c s < int (length s)"
  by (simp add: lastIndexByte_def)

lemma contains_char: "contains s [c] \<longleftrightarrow> c \<in> set s"
  by (induction s) auto

lemma plain_no_space: "list_all plainByte s \<Longrightarrow> \<not> contains s '' ''"
  by (auto simp: contains_char list_all_iff plainByte_def)

lemma renderSuffix_plain: "suffixOk x \<Longrightarrow> list_all plainByte (renderSuffix x)"
  by (cases x) (auto simp: plainText_def plainByte_def)

lemma parseImageTagAndName_tag:
  assumes "suffixOk (TagSuffix t)"
  shows "parseImageTagAndName (name @ renderSuffix (TagSuffix t)) [] = Inr (name, suffixTag (TagSuffix t))"
proof -
  let ?s = "name @ CHR '':'' # t"
  have "lastIndexByte (CHR '':'') ?s = int (length name)" using assms by (simp add: lastIndexByte_last)
  moreover have "lastIndexByte (CHR ''/'') ?s < int (length name)"
    using lastIndexByte_append [of "CHR ''/''" "CHR '':'' # t" name] lastIndexByte_less [of "CHR ''/''" name] assms by simp
  ultimately show ?thesis using assms
    by (simp add: parseImageTagAndName_def Let_def contains_char plainText_def)
qed

lemma parseImageTagAndName_bare: "nameOk name \<Longrightarrow> parseImageTagAndName name [] = Inr (name, ''latest'')"
  by (simp add: parseImageTagAndName_def nameOk_def)

lemma parse_name:
  assumes "nameOk name" "suffixOk x" "splitRegistryAndRepo name = (registry, repository)" "repository \<noteq> []"
  shows "ParseImageReference (name @ renderSuffix x) = Inr (registry, repository, suffixTag x)"
proof -
  have plain: "list_all plainByte (name @ renderSuffix x)" and ne: "name \<noteq> []" and at: "CHR ''@'' \<notin> set name"
    using assms(1) renderSuffix_plain [OF assms(2)] by (simp_all add: nameOk_def plainText_def)
  have eq: "ParseImageReference (name @ renderSuffix x) =
      rbind (case strCut (name @ renderSuffix x) ''@'' of
               None \<Rightarrow> Inr (name @ renderSuffix x, [])
             | Some (before, digestPart) \<Rightarrow>
                 if \<not> hasPrefix digestPart ''sha256:'' then Inl InvalidDigestPin else Inr (before, digestPart))
        (\<lambda>(trimmed, tag). rbind (parseImageTagAndName trimmed tag) (\<lambda>(namePart, tag).
           guardErr (namePart = []) MissingRepositoryName (
             let (registry, repository) = splitRegistryAndRepo namePart
             in guardErr (repository = []) EmptyRepositoryPath (Inr (registry, repository, tag)))))"
    unfolding ParseImageReference_def trimSpace_plain_all [OF plain] Let_def guardErr_def
    using plain_no_space [OF plain] ne by simp
  show ?thesis
  proof (cases x)
    case NoSuffix
    then have "strCut (name @ renderSuffix x) ''@'' = None" using strCut_char_None [OF at] by simp
    then show ?thesis unfolding eq using assms(3,4) ne NoSuffix parseImageTagAndName_bare [OF assms(1)]
      by (simp add: guardErr_def)
  next
    case (TagSuffix t)
    then have "CHR ''@'' \<notin> set (name @ renderSuffix x)" using at assms(2) by simp
    then have "strCut (name @ renderSuffix x) ''@'' = None" by (rule strCut_char_None)
    then show ?thesis unfolding eq using assms(2-4) ne parseImageTagAndName_tag [of t name] TagSuffix
      by (simp add: guardErr_def)
  next
    case (DigestSuffix d)
    then have "strCut (name @ renderSuffix x) ''@'' = Some (name, ''sha256:'' @ d)" using strCut_char [OF at] by simp
    then show ?thesis unfolding eq using assms(3,4) ne DigestSuffix
      by (simp add: guardErr_def parseImageTagAndName_def)
  qed
qed

definition registryHost :: "string \<Rightarrow> bool" where
  "registryHost h = (plainText h \<and> CHR ''/'' \<notin> set h \<and> CHR ''@'' \<notin> set h
     \<and> (CHR ''.'' \<in> set h \<or> CHR '':'' \<in> set h \<or> h = ''localhost'')
     \<and> h \<noteq> ''docker.io'' \<and> h \<noteq> ''index.docker.io'' \<and> h \<noteq> dockerHub)"

definition repoText :: "string \<Rightarrow> bool" where
  "repoText r = (plainText r \<and> CHR '':'' \<notin> set r \<and> CHR ''@'' \<notin> set r)"

lemma nameOk_host: "registryHost h \<Longrightarrow> repoText r \<Longrightarrow> nameOk (h @ CHR ''/'' # r)"
proof -
  assume h: "registryHost h" and r: "repoText r"
  have "lastIndexByte (CHR '':'') (h @ CHR ''/'' # r) < int (length h)"
    using lastIndexByte_append [of "CHR '':''" "CHR ''/'' # r" h] lastIndexByte_less [of "CHR '':''" h] r
    by (simp add: repoText_def)
  moreover have "int (length h) \<le> lastIndexByte (CHR ''/'') (h @ CHR ''/'' # r)"
  proof (cases rule: lastIndexByte_cases [of "CHR ''/''" r])
    case 1
    then show ?thesis by (simp add: lastIndexByte_last)
  next
    case (2 u v)
    then show ?thesis using lastIndexByte_last [of "CHR ''/''" v "h @ CHR ''/'' # u"] by simp
  qed
  ultimately show ?thesis using h r by (auto simp: nameOk_def registryHost_def repoText_def plainText_def plainByte_def)
qed

lemma nameOk_short: "repoText n \<Longrightarrow> nameOk n"
proof -
  assume "repoText n"
  moreover have "- 1 \<le> lastIndexByte c n" for c by (cases rule: lastIndexByte_cases [of c n]) auto
  ultimately show ?thesis by (simp add: nameOk_def repoText_def lastIndexByte_none)
qed

text \<open>The two normalisation steps at the end of \<^const>\<open>splitRegistryAndRepo\<close>.\<close>

lemma splitRegistry_normal:
  assumes "splitRegistryAndRepo name = (registry, repository)"
  shows "registry \<noteq> ''docker.io'' \<and> registry \<noteq> ''index.docker.io''" "registry = dockerHub \<Longrightarrow> CHR ''/'' \<in> set repository"
proof -
  obtain reg repo where split: "normalizeHub reg repo = (registry, repository)"
    using assms by (auto simp: splitRegistryAndRepo_def split: option.splits if_splits)
  then have reg: "registry = (if reg = ''docker.io'' \<or> reg = ''index.docker.io'' then dockerHub else reg)"
    by (simp add: normalizeHub_def Let_def)
  have repo: "repository = (if registry = dockerHub \<and> \<not> contains repo ''/'' then ''library/'' @ repo else repo)"
    using split reg by (simp add: normalizeHub_def Let_def)
  show "registry \<noteq> ''docker.io'' \<and> registry \<noteq> ''index.docker.io''" using reg by (simp add: dockerHub_def split: if_splits)
  show "registry = dockerHub \<Longrightarrow> CHR ''/'' \<in> set repository" using repo by (auto simp: contains_char split: if_splits)
qed

lemma splitRegistry_host: "registryHost h \<Longrightarrow> splitRegistryAndRepo (h @ CHR ''/'' # r) = (h, r)"
  using strCut_char [of "CHR ''/''" h r]
  by (auto simp: splitRegistryAndRepo_def normalizeHub_def registryHost_def contains_char)

lemma splitRegistry_short: "CHR ''/'' \<notin> set n \<Longrightarrow> splitRegistryAndRepo n = (dockerHub, ''library/'' @ n)"
  using strCut_char_None [of "CHR ''/''" n] contains_char [of "''library/'' @ n" "CHR ''/''"]
  by (simp add: splitRegistryAndRepo_def normalizeHub_def dockerHub_def)

lemma splitRegistry_alias: "CHR ''/'' \<notin> set n \<Longrightarrow> splitRegistryAndRepo (''docker.io/'' @ n) = (dockerHub, ''library/'' @ n)"
  using strCut_char [of "CHR ''/''" "''docker.io''" n]
  by (simp add: splitRegistryAndRepo_def normalizeHub_def contains_char)

lemma nameOk_alias: "repoText n \<Longrightarrow> nameOk (''docker.io/'' @ n)"
proof -
  assume n: "repoText n"
  have "- 1 \<le> lastIndexByte (CHR ''/'') (''docker.io/'' @ n)"
    by (cases rule: lastIndexByte_cases [of "CHR ''/''" "''docker.io/'' @ n"]) auto
  then show ?thesis using n lastIndexByte_none [of "CHR '':''" "''docker.io/'' @ n"]
    by (simp add: nameOk_def repoText_def plainText_def) (simp add: plainByte_def)
qed

lemma parse_normal:
  assumes "ParseImageReference ref = Inr (registry, repository, tag)"
  shows "repository \<noteq> []" "tag \<noteq> []" "\<exists>name. splitRegistryAndRepo name = (registry, repository)"
proof -
  obtain trimmed t name where
    dig: "t = [] \<or> hasPrefix t ''sha256:''" and tg: "parseImageTagAndName trimmed t = Inr (name, tag)" and
    sp: "splitRegistryAndRepo name = (registry, repository)" "repository \<noteq> []"
    using assms unfolding ParseImageReference_def Let_def
    by (auto simp: guardErr_Inr rbind_Inr case_prod_beta prod_eq_iff split: option.splits if_splits)
  show "repository \<noteq> []" "\<exists>name. splitRegistryAndRepo name = (registry, repository)" using sp by auto
  show "tag \<noteq> []" using tg by (auto simp: parseImageTagAndName_def Let_def split: if_splits)
qed



text \<open>A reference with both a tag and a digest keeps the tag in the repository path.\<close>

lemma image_tag_and_digest: "ParseImageReference ''ghcr.io/azylman/eri:v2@sha256:ab'' = Inr (''ghcr.io'', ''azylman/eri:v2'', ''sha256:ab'')"
  by code_simp

section \<open>Registry challenges: properties\<close>

definition paramOk :: "string \<times> string \<Rightarrow> bool" where
  "paramOk p = (fst p \<noteq> [] \<and> list_all lowerLetter (fst p) \<and> CHR 0x22 \<notin> set (snd p))"

definition renderParam :: "string \<times> string \<Rightarrow> string" where
  "renderParam p = fst p @ CHR ''='' # CHR 0x22 # snd p @ [CHR 0x22]"

definition renderParams :: "(string \<times> string) list \<Rightarrow> string" where
  "renderParams ps = joinWith '','' (map renderParam ps)"

lemma lowerLetter_plain: "lowerLetter c \<Longrightarrow> plainByte c"
  by (simp add: lowerLetter_def plainByte_def Let_def)

lemma toLower_lower: "list_all lowerLetter k \<Longrightarrow> toLower k = k"
  by (induction k) (auto simp: lowerLetter_def lowerByte_def Let_def)

lemma renderParams_simps:
  "renderParams [p] = renderParam p" "ps \<noteq> [] \<Longrightarrow> renderParams (p # ps) = renderParam p @ CHR '','' # renderParams ps"
  by (simp add: renderParams_def) (cases ps; simp add: renderParams_def)

lemma renderParam_ends: "paramOk p \<Longrightarrow> plainByte (hd (renderParam p))" "last (renderParam p) = CHR 0x22"
  by (cases "fst p"; auto simp: renderParam_def paramOk_def lowerLetter_plain)+

lemma renderParams_ends:
  assumes "ps \<noteq> []" "list_all paramOk ps"
  shows "renderParams ps \<noteq> []" "plainByte (hd (renderParams ps))" "last (renderParams ps) = CHR 0x22"
  using assms
proof (induction ps)
  case (Cons p ps)
  have ne: "renderParam p \<noteq> []" by (simp add: renderParam_def)
  { case 1 then show ?case using ne by (cases "ps = []") (simp_all add: renderParams_simps) }
  { case 2 then show ?case using ne renderParam_ends(1) [of p] by (cases "ps = []") (simp_all add: renderParams_simps) }
  { case 3 then show ?case using Cons.IH renderParam_ends(2) [of p] by (cases "ps = []") (simp_all add: renderParams_simps) }
qed simp_all

lemma quote_plain: "plainByte (CHR 0x22)"
  by (simp add: plainByte_def)

lemma renderParams_trim: "list_all paramOk ps \<Longrightarrow> trimSpace (renderParams ps) = renderParams ps"
proof (cases "ps = []")
  case False
  assume "list_all paramOk ps"
  then show ?thesis using renderParams_ends [OF False] quote_plain by (intro trimSpace_ends) simp_all
qed (simp add: renderParams_def)

definition afterParam :: "(string \<times> string) list \<Rightarrow> string" where
  "afterParam ps = (if ps = [] then [] else CHR '','' # renderParams ps)"

lemma renderParams_Cons: "renderParams (p # ps) = fst p @ CHR ''='' # CHR 0x22 # snd p @ CHR 0x22 # afterParam ps"
  by (cases "ps = []") (simp_all add: renderParams_simps renderParam_def afterParam_def)

lemma parseAuthParamValue_render:
  assumes "CHR 0x22 \<notin> set v" "list_all paramOk ps"
  shows "parseAuthParamValue (CHR 0x22 # v @ CHR 0x22 # afterParam ps) = (v, renderParams ps)"
proof -
  have "strIndex (v @ CHR 0x22 # afterParam ps) [CHR 0x22] = Some (length v)" using assms(1) by (rule strIndex_char)
  moreover have "(case strCut (afterParam ps) '','' of Some (_, after) \<Rightarrow> trimSpace after | None \<Rightarrow> []) = renderParams ps"
    using strCut_char [of "CHR '',''" "[]" "renderParams ps"] strCut_char_None [of "CHR '',''" "[]"] renderParams_trim [OF assms(2)]
    by (cases "ps = []") (simp_all add: afterParam_def renderParams_def)
  ultimately show ?thesis by (simp add: parseAuthParamValue_def parseQuotedAuthParam_def)
qed

lemma authParams_render:
  "list_all paramOk ps \<Longrightarrow> authParams (renderParams ps) m = m ++ map_of (rev ps)"
proof (induction ps arbitrary: m)
  case Nil
  then show ?case using strIndex_char_None [of "CHR ''=''" "[]"] by (simp add: renderParams_def authParams.simps [of "[]"])
next
  case (Cons p ps)
  obtain k v where p: "p = (k, v)" by (cases p)
  have k: "k \<noteq> []" "list_all lowerLetter k" "CHR 0x22 \<notin> set v" using Cons.prems by (simp_all add: p paramOk_def)
  have ps: "list_all paramOk ps" using Cons.prems by simp
  let ?rem = "CHR 0x22 # v @ CHR 0x22 # afterParam ps"
  have "CHR ''='' \<notin> set k" using k(2) by (auto simp: list_all_iff lowerLetter_def)
  then have idx: "strIndex (renderParams (p # ps)) ''='' = Some (length k)"
    unfolding renderParams_Cons p by (simp add: strIndex_char)
  have key: "toLower (trimSpace k) = k"
    using k(2) by (simp add: trimSpace_plain_all list_all_iff lowerLetter_plain toLower_lower)
  have "last ?rem = CHR 0x22" using renderParams_ends(3) [OF _ ps] renderParams_ends(1) [OF _ ps] by (simp add: afterParam_def)
  then have rem: "trimSpace ?rem = ?rem" using quote_plain by (intro trimSpace_ends) simp_all
  have "authParams (renderParams (p # ps)) m = authParams (renderParams ps) (m(k \<mapsto> v))"
    unfolding authParams.simps [of "renderParams (p # ps)"] idx
    using key rem k(1) parseAuthParamValue_render [OF k(3) ps] by (simp add: renderParams_Cons p)
  also have "\<dots> = m ++ map_of (rev (p # ps))" unfolding Cons.IH [OF ps] by (auto simp: p map_add_def fun_eq_iff split: option.splits)
  finally show ?case .
qed

text \<open>
  C36. A registry challenge round trips: rendering any list of parameters with quoted values (which
  may contain commas, equals signs and blanks) after the Bearer scheme and parsing it returns the
  realm, service and scope of the list, where a later duplicate wins and a missing one is empty;
  without a realm the header is rejected. The parser ends on every input.
\<close>

theorem www_authenticate_roundtrip:
  assumes "ps \<noteq> []" "list_all paramOk ps"
  shows "ParseWwwAuthenticate (''Bearer '' @ renderParams ps) =
    (let get = param (map_of (rev ps))
     in if get ''realm'' = [] then Inl MissingRealm else Inr (get ''realm'', get ''service'', get ''scope''))"
proof -
  let ?h = "''Bearer '' @ renderParams ps"
  have trim: "trimSpace ?h = ?h" using renderParams_ends [OF assms] quote_plain
    by (intro trimSpace_ends) (simp_all add: plainByte_def)
  have "lowerByte (CHR ''B'') = CHR ''b''" by code_simp
  then have low: "hasPrefix (toLower ?h) ''bearer ''" by (simp add: lowerByte_def)
  show ?thesis
    unfolding ParseWwwAuthenticate_def trim Let_def guardErr_def using low
    by (simp add: renderParams_trim [OF assms(2)] authParams_render [OF assms(2)])
qed

theorem www_authenticate_roundtrip_witness:
  "ParseWwwAuthenticate (''Bearer realm='' @ [CHR 0x22] @ ''https://ghcr.io/token'' @ [CHR 0x22] @ '',scope='' @ [CHR 0x22] @ ''repository:a/b:pull,push'' @ [CHR 0x22])
   = Inr (''https://ghcr.io/token'', [], ''repository:a/b:pull,push'')"
  using www_authenticate_roundtrip [of "[(''realm'', ''https://ghcr.io/token''), (''scope'', ''repository:a/b:pull,push'')]"]
  by (simp add: paramOk_def lowerLetter_def renderParams_def renderParam_def param_def)

section \<open>GitHub slugs: properties\<close>

definition isSlug :: "string \<Rightarrow> bool" where
  "isSlug s = (case splitOn (CHR ''/'') s of
     [owner, repo] \<Rightarrow> owner \<noteq> [] \<and> repo \<noteq> [] \<and> list_all (\<lambda>c. lowerByte c = c \<and> c \<noteq> CHR ''?'' \<and> c \<noteq> CHR ''#'') (owner @ repo)
   | _ \<Rightarrow> False)"

lemma toLower_slash: "toLower (a @ CHR ''/'' # b) = toLower a @ CHR ''/'' # toLower b"
proof (induction a rule: toLower.induct)
  case 1
  have "lowerByte (CHR ''/'') = CHR ''/''" by code_simp
  then show ?case by simp
next
  case (2 c a)
  have two: "hasPrefix (a @ CHR ''/'' # b) [CHR 0x84, CHR 0xAA] \<longleftrightarrow> hasPrefix a [CHR 0x84, CHR 0xAA]"
    by (cases a; cases "tl a") auto
  have one: "hasPrefix (a @ CHR ''/'' # b) [CHR 0xB0] \<longleftrightarrow> hasPrefix a [CHR 0xB0]" by (cases a) auto
  have d2: "hasPrefix a [CHR 0x84, CHR 0xAA] \<Longrightarrow> drop 2 (a @ CHR ''/'' # b) = drop 2 a @ CHR ''/'' # b"
    by (auto simp: hasPrefix_iff)
  have d1: "hasPrefix a [CHR 0xB0] \<Longrightarrow> drop 1 (a @ CHR ''/'' # b) = drop 1 a @ CHR ''/'' # b"
    by (auto simp: hasPrefix_iff)
  consider (k) "c = CHR 0xE2" "hasPrefix a [CHR 0x84, CHR 0xAA]" | (i) "c = CHR 0xC4" "hasPrefix a [CHR 0xB0]"
    | (n) "\<not> (c = CHR 0xE2 \<and> hasPrefix a [CHR 0x84, CHR 0xAA])" "\<not> (c = CHR 0xC4 \<and> hasPrefix a [CHR 0xB0])" by blast
  then show ?case
  proof cases
    case k
    then show ?thesis using 2(1) unfolding append_Cons toLower.simps(2) two one d2 [OF k(2)] by simp
  next
    case i
    then show ?thesis using 2(2) unfolding append_Cons toLower.simps(2) two one d1 [OF i(2)] by simp
  next
    case n
    have eq: "toLower (c # s) = lowerByte c # toLower s"
      if "\<not> (c = CHR 0xE2 \<and> hasPrefix s [CHR 0x84, CHR 0xAA])" "\<not> (c = CHR 0xC4 \<and> hasPrefix s [CHR 0xB0])" for s
      unfolding toLower.simps(2) using that by presburger
    show ?thesis using eq [OF n] eq [of "a @ CHR ''/'' # b", unfolded two one, OF n] 2(3) [OF n] by simp
  qed
qed

lemma set_trimSpace: "set (trimSpace s) \<subseteq> set s"
proof -
  obtain u v where "s = u @ trimSpace s @ v" using trimSpace_infix by blast
  then show ?thesis by (metis Un_upper2 le_supI1 set_append sup.coboundedI2 sup_ge1)
qed

lemma cleanSlugPath_slug: "cleanSlugPath p = [] \<or> isSlug (cleanSlugPath p)"
proof -
  define q where "q = takeWhile (\<lambda>c. c \<noteq> CHR ''?'' \<and> c \<noteq> CHR ''#'') (trimChars ''/'' (trimSuffix (trimChars ''/'' p) ''.git''))"
  have eq: "cleanSlugPath p = (case splitOn (CHR ''/'') q of
      [a, b] \<Rightarrow> (if trimSpace a = [] \<or> trimSpace b = [] then [] else toLower (trimSpace a @ ''/'' @ trimSpace b)) | _ \<Rightarrow> [])"
    unfolding cleanSlugPath_def q_def Let_def ..
  show ?thesis
  proof (cases "\<exists>a b. splitOn (CHR ''/'') q = [a, b] \<and> trimSpace a \<noteq> [] \<and> trimSpace b \<noteq> []")
    case False
    then show ?thesis unfolding eq by (auto split: list.splits)
  next
    case True
    then obtain a b where ab: "splitOn (CHR ''/'') q = [a, b]" "trimSpace a \<noteq> []" "trimSpace b \<noteq> []" by blast
    have q: "q = a @ CHR ''/'' # b" using join_splitOn [of "CHR ''/''" q] ab(1) by simp
    have sl: "CHR ''/'' \<notin> set a" "CHR ''/'' \<notin> set b" using splitOn_parts [of "CHR ''/''" q] ab(1) by auto
    have "CHR ''?'' \<notin> set q" "CHR ''#'' \<notin> set q" unfolding q_def by (auto dest: set_takeWhileD)
    then have free: "CHR ''?'' \<notin> set a" "CHR ''#'' \<notin> set a" "CHR ''?'' \<notin> set b" "CHR ''#'' \<notin> set b" by (auto simp: q)
    have none: "d \<notin> set (toLower (trimSpace s))" if "d \<notin> set s" "(of_char d :: nat) < 65" for d s
      using toLower_free that set_trimSpace by blast
    let ?a = "toLower (trimSpace a)" and ?b = "toLower (trimSpace b)"
    have res: "cleanSlugPath p = ?a @ CHR ''/'' # ?b" unfolding eq using ab by (simp add: toLower_slash)
    have "splitOn (CHR ''/'') (?a @ CHR ''/'' # ?b) = [?a, ?b]"
      using none [OF sl(1)] none [OF sl(2)] by (simp add: splitOn_append splitOn_free)
    then have "isSlug (?a @ CHR ''/'' # ?b)"
      using ab(2,3) none [OF free(1)] none [OF free(2)] none [OF free(3)] none [OF free(4)] toLower_bytes
      by (auto simp: isSlug_def toLower_nonempty list_all_iff)
    then show ?thesis unfolding res by simp
  qed
qed

definition slugPart :: "string \<Rightarrow> bool" where
  "slugPart s = (s \<noteq> [] \<and> list_all (\<lambda>c. plainByte c \<and> c \<noteq> CHR ''/'' \<and> c \<noteq> CHR ''?'' \<and> c \<noteq> CHR ''#'') s)"

lemma trimSuffix_append [simp]: "trimSuffix (s @ p) p = s"
  by (simp add: trimSuffix_def)

lemma cleanSlugPath_git:
  assumes "slugPart owner" "slugPart repo"
  shows "cleanSlugPath (owner @ ''/'' @ repo @ ''.git'') = toLower (owner @ ''/'' @ repo)"
proof -
  let ?p = "owner @ CHR ''/'' # repo"
  have part: "s \<noteq> [] \<and> list_all plainByte s \<and> CHR ''/'' \<notin> set s \<and> (\<forall>c\<in>set s. c \<noteq> CHR ''?'' \<and> c \<noteq> CHR ''#'')" if "slugPart s" for s
    using that by (auto simp: slugPart_def list_all_iff)
  have ends: "hd ?p \<notin> set ''/''" "last ?p \<notin> set ''/''"
  proof -
    have o: "owner \<noteq> []" "CHR ''/'' \<notin> set owner" and r: "repo \<noteq> []" "CHR ''/'' \<notin> set repo"
      using part [OF assms(1)] part [OF assms(2)] by blast+
    have "hd ?p = hd owner" "last ?p = last repo" using o(1) r(1) by simp_all
    moreover have "hd owner \<noteq> CHR ''/''" "last repo \<noteq> CHR ''/''"
      using hd_in_set [OF o(1)] last_in_set [OF r(1)] o(2) r(2) by metis+
    ultimately show "hd ?p \<notin> set ''/''" "last ?p \<notin> set ''/''" by simp_all
  qed
  have inp: "owner @ ''/'' @ repo @ ''.git'' = ?p @ ''.git''" by simp
  have t1: "trimChars ''/'' (?p @ ''.git'') = ?p @ ''.git''" using ends(1) part [OF assms(1)] by (intro trimChars_fix) simp_all
  have t2: "trimChars ''/'' ?p = ?p" by (rule trimChars_fix [OF ends])
  have q: "takeWhile (\<lambda>c. c \<noteq> CHR ''?'' \<and> c \<noteq> CHR ''#'') ?p = ?p"
    using part [OF assms(1)] part [OF assms(2)] by (auto simp: takeWhile_eq_all_conv)
  have sp: "splitOn (CHR ''/'') ?p = [owner, repo]"
    using part [OF assms(1)] part [OF assms(2)] by (simp add: splitOn_append splitOn_free)
  have tr: "trimSpace owner = owner" "trimSpace repo = repo"
    using part [OF assms(1)] part [OF assms(2)] trimSpace_plain_all by auto
  show ?thesis unfolding cleanSlugPath_def inp Let_def t1 trimSuffix_append t2 q sp
    using part [OF assms(1)] part [OF assms(2)] by (simp add: tr)
qed



section \<open>Git status: properties\<close>

text \<open>The lines of \<^verbatim>\<open>git diff --name-status\<close>: a status letter and a path, or a rename or copy with a score and two paths.\<close>

datatype gitEntry = GitFile string string | GitRename string string string | GitCopy string string string

fun renderEntry :: "gitEntry \<Rightarrow> string" where
  "renderEntry (GitFile st p) = joinWith [CHR 0x09] [st, p]"
| "renderEntry (GitRename score old new) = joinWith [CHR 0x09] [CHR ''R'' # score, old, new]"
| "renderEntry (GitCopy score old new) = joinWith [CHR 0x09] [CHR ''C'' # score, old, new]"

definition pathOk :: "string \<Rightarrow> bool" where
  "pathOk p = (p \<noteq> [] \<and> list_all plainByte p)"

fun entryOk :: "gitEntry \<Rightarrow> bool" where
  "entryOk (GitFile st p) = (pathOk st \<and> pathOk p)"
| "entryOk (GitRename score old new) = (list_all plainByte score \<and> pathOk old \<and> pathOk new)"
| "entryOk (GitCopy score old new) = (list_all plainByte score \<and> pathOk old \<and> pathOk new)"

text \<open>What the deployment should do for one entry.\<close>

fun entryChanges :: "gitEntry \<Rightarrow> (string \<times> string) list" where
  "entryChanges (GitFile st p) =
     (if IsNomadVarFile p then [(p, ''apply'')]
      else if IsNomadJobFile p then [(p, if hd st = CHR ''D'' then ''delete'' else ''apply'')] else [])"
| "entryChanges (GitRename score old new) =
     (if IsNomadJobFile old then [(old, ''delete'')] else if IsNomadVarFile old then [(old, ''apply'')] else [])
     @ (if IsNomadJobFile new \<or> IsNomadVarFile new then [(new, ''apply'')] else [])"
| "entryChanges (GitCopy score old new) = (if IsNomadVarFile new \<or> IsNomadJobFile new then [(new, ''apply'')] else [])"

definition unlines :: "string list \<Rightarrow> string" where
  "unlines ls = concat (map (\<lambda>l. l @ [CHR 0x0A]) ls)"

lemma pathOk_props: "pathOk s \<Longrightarrow> s \<noteq> [] \<and> plainByte (hd s) \<and> plainByte (last s) \<and> CHR 0x0A \<notin> set s"
  by (auto simp: pathOk_def list_all_iff plainByte_def)

lemma joinTabs_props:
  "ws \<noteq> [] \<Longrightarrow> \<forall>w\<in>set ws. pathOk w \<Longrightarrow>
     joinWith [CHR 0x09] ws \<noteq> [] \<and> plainByte (hd (joinWith [CHR 0x09] ws)) \<and> plainByte (last (joinWith [CHR 0x09] ws))
     \<and> CHR 0x0A \<notin> set (joinWith [CHR 0x09] ws)"
proof (induction "[CHR 0x09]" ws rule: joinWith.induct)
  case (2 s)
  then show ?case using pathOk_props [of s] by simp
next
  case (3 s t ss)
  then show ?case using pathOk_props [of s] by simp
qed simp

fun entryWords :: "gitEntry \<Rightarrow> string list" where
  "entryWords (GitFile st p) = [st, p]"
| "entryWords (GitRename score old new) = [CHR ''R'' # score, old, new]"
| "entryWords (GitCopy score old new) = [CHR ''C'' # score, old, new]"

lemma entryWords_props:
  assumes "entryOk e"
  shows "renderEntry e = joinWith [CHR 0x09] (entryWords e)" "entryWords e \<noteq> []" "\<forall>w\<in>set (entryWords e). pathOk w"
  using assms by (cases e; simp add: pathOk_def plainByte_def)+

lemma statusLineChanges_entry:
  assumes "entryOk e"
  shows "statusLineChanges (renderEntry e) = map (\<lambda>(p, a). fileChange p a) (entryChanges e)"
proof -
  note w = entryWords_props [OF assms]
  have trim: "trimSpace (renderEntry e) = renderEntry e" unfolding w(1)
    using joinTabs_props [OF w(2,3)] by (intro trimSpace_ends) auto
  have fields: "strFields (renderEntry e) = entryWords e" unfolding w(1)
    using w(2,3) by (intro strFields_tabs) (auto simp: pathOk_def)
  have ne: "renderEntry e \<noteq> []" unfolding w(1) using joinTabs_props [OF w(2,3)] by blast
  have hdR: "hasPrefix s [c] \<longleftrightarrow> s \<noteq> [] \<and> hd s = c" for s c by (cases s) auto
  show ?thesis unfolding statusLineChanges_def trim fields Let_def using ne assms
    by (cases e) (auto simp: hdR renameChanges_def pathOk_def)
qed

lemma renderEntry_line: "entryOk e \<Longrightarrow> CHR 0x0A \<notin> set (renderEntry e) \<and> dropCR (renderEntry e) = renderEntry e"
proof -
  assume "entryOk e"
  note w = entryWords_props [OF this]
  have "plainByte (last (renderEntry e))" unfolding w(1) using joinTabs_props [OF w(2,3)] by blast
  then have "last (renderEntry e) \<noteq> CHR 0x0D" by (auto simp: plainByte_def)
  then show ?thesis using joinTabs_props [OF w(2,3)] by (simp add: dropCR_def w(1))
qed

lemma ExtractJobName_empty: "ExtractJobName [] p = jobNameOfFile p"
  by (simp add: ExtractJobName_def scanLines_def rawLines_def)

lemma statusLine_change:
  assumes "c \<in> set (statusLineChanges l)"
  shows "nc_Action c = ''apply'' \<and> (IsNomadJobFile (nc_Path c) \<or> IsNomadVarFile (nc_Path c))
    \<or> nc_Action c = ''delete'' \<and> IsNomadJobFile (nc_Path c)" "nc_JobName c = jobNameOfFile (nc_Path c)"
  using assms unfolding statusLineChanges_def renameChanges_def Let_def
  by (auto simp: fileChange_def ExtractJobName_empty split: if_splits)



text \<open>A path with a blank is cut at the blank: deleting one job file requests the teardown of another job.\<close>

lemma nomad_status_blank:
  "ParseNomadGitStatus (''D'' @ [CHR 0x09] @ ''jobs/old db.nomad'') = [\<lparr>nc_Path = ''db.nomad'', nc_Action = ''delete'', nc_JobName = ''db''\<rparr>]"
proof -
  let ?l = "''D'' @ [CHR 0x09] @ ''jobs/old db.nomad''"
  have "scanLines MaxScanTokenSize ?l = [?l]" by (simp add: scanLines_def rawLines_def MaxScanTokenSize_def dropCR_def)
  moreover have "statusLineChanges ?l = [\<lparr>nc_Path = ''db.nomad'', nc_Action = ''delete'', nc_JobName = jobNameOfFile ''db.nomad''\<rparr>]"
  proof -
    have "trimSpace ?l = ?l" by code_simp
    moreover have "strFields ?l = [''D'', ''jobs/old'', ''db.nomad'']" by code_simp
    moreover have "\<not> IsNomadVarFile ''db.nomad''" "IsNomadJobFile ''db.nomad''" by code_simp+
    ultimately show ?thesis by (simp add: statusLineChanges_def fileChange_def ExtractJobName_empty Let_def)
  qed
  moreover have "jobNameOfFile ''db.nomad'' = ''db''" by code_simp
  ultimately show ?thesis by (simp add: ParseNomadGitStatus_def)
qed

end
