(* ===== verification/HangarDeploy.thy ===== *)
theory HangarDeploy
  imports HangarPure
begin

text \<open>
  The deployment side of the daemon (\<^verbatim>\<open>services/hangar/reconcile.go\<close>,
  \<^verbatim>\<open>services/hangar/events.go\<close>): the queue of pending job changes, teardown of deleted and
  orphaned jobs, validated application of job files, rollouts of new images, and the debounced
  reconciliation cycle.

  What the daemon finds outside is the record \<open>world\<close>: directories and files, the answer of the
  Nomad command line to a command after the commands already issued, the digest a registry
  reports (empty for an error), the build rules of a repository's workflows (YAML),
  \<^verbatim>\<open>path.Match\<close>, the redaction of log output (\<^verbatim>\<open>pkg/sanitizer\<close>) and the head commit of a checkout.
  Within one operation the files do not change. The state keeps every Nomad command and every
  deployment event in the order they are issued. Operations hold \<^verbatim>\<open>nomadMu\<close> or run in the single
  reconciler goroutine and are one step each; whether the context was cancelled is an argument.
\<close>

section \<open>State and environment\<close>

record nomadRes =
  nr_out :: string
  nr_err :: string
  nr_ok :: bool

record world =
  w_readDir :: "string \<Rightarrow> (string \<times> bool) list option"
  w_readFile :: "string \<Rightarrow> string option"
  w_isFile :: "string \<Rightarrow> bool"
  w_isDir :: "string \<Rightarrow> bool"
  w_nomad :: "string list list \<Rightarrow> string list \<Rightarrow> nomadRes"
  w_digest :: "string \<Rightarrow> string"
  w_filters :: "string \<Rightarrow> (string \<times> string list) list"
  w_catalog :: "string \<Rightarrow> (string \<times> string) list"
  w_pathMatch :: "string \<Rightarrow> string \<Rightarrow> bool"
  w_sanitize :: "string \<Rightarrow> string"
  w_head :: "string \<Rightarrow> string option"

record NomadChangeEvent =
  ne_RepoPath :: string
  ne_Changes :: "NomadFileChange list"
  ne_Repo :: string
  ne_CommitSHA :: string
  ne_PRNumber :: int
  ne_TargetID :: string

record ImageReadyEventRequest =
  ir_Image :: string
  ir_Digest :: string
  ir_Repo :: string
  ir_CommitSHA :: string
  ir_PRNumber :: int
  ir_TargetID :: string

record PendingImageRollout =
  pr_JobName :: string
  pr_JobPath :: string
  pr_Request :: ImageReadyEventRequest

record MatchedNomadJob =
  mj_JobName :: string
  mj_JobPath :: string

record HangarDeployEvent =
  he_Event :: string
  he_JobName :: string
  he_Repo :: string
  he_CommitSHA :: string
  he_PRNumber :: int
  he_TargetID :: string
  he_Image :: string
  he_Digest :: string
  he_Status :: string
  he_Details :: string
  he_ExpectedJobs :: "string list"

text \<open>The fields of \<^verbatim>\<open>SyncDaemon\<close> that are configuration, and those that change.\<close>

record daemonConf =
  dc_repos :: "string list"
  dc_composeDir :: string
  dc_configDir :: string

record daemonState =
  pendingNomadChanges :: "NomadChangeEvent list"
  pendingNomadServerRestart :: bool
  pendingImageRollouts :: "(string \<times> PendingImageRollout) list"
  issued :: "string list list"
  events :: "HangarDeployEvent list"

definition execNomad :: "world \<Rightarrow> string list \<Rightarrow> daemonState \<Rightarrow> nomadRes \<times> daemonState" where
  "execNomad w args s = (w_nomad w (issued s) args, s\<lparr>issued := issued s @ [args]\<rparr>)"

definition DispatchDeployEvent :: "HangarDeployEvent \<Rightarrow> daemonState \<Rightarrow> daemonState" where
  "DispatchDeployEvent e s = s\<lparr>events := events s @ [e]\<rparr>"

section \<open>The queue of pending changes\<close>

definition parseNomadMeta :: "string list \<Rightarrow> string \<times> string \<times> string \<times> int" where
  "parseNomadMeta meta =
     (if length meta \<ge> 1 then meta ! 0 else [],
      if length meta \<ge> 2 then meta ! 1 else [],
      if length meta \<ge> 3 then meta ! 2 else [],
      if length meta \<ge> 4 then (case atoi (meta ! 3) of Some n \<Rightarrow> n | None \<Rightarrow> 0) else 0)"

definition changeEvent :: "string \<Rightarrow> NomadFileChange list \<Rightarrow> string list \<Rightarrow> NomadChangeEvent" where
  "changeEvent repoPath changes meta =
     (let (repo, commit, targetID, prNumber) = parseNomadMeta meta
      in \<lparr>ne_RepoPath = repoPath, ne_Changes = changes, ne_Repo = repo, ne_CommitSHA = commit,
          ne_PRNumber = prNumber, ne_TargetID = targetID\<rparr>)"

definition recordPendingNomadChanges :: "string \<Rightarrow> NomadFileChange list \<Rightarrow> string list \<Rightarrow> daemonState \<Rightarrow> daemonState" where
  "recordPendingNomadChanges repoPath changes meta s =
     s\<lparr>pendingNomadChanges := pendingNomadChanges s @ [changeEvent repoPath changes meta]\<rparr>"

definition drainPendingNomadChanges :: "daemonState \<Rightarrow> NomadChangeEvent list \<times> daemonState" where
  "drainPendingNomadChanges s = (pendingNomadChanges s, s\<lparr>pendingNomadChanges := []\<rparr>)"

definition isDelete :: "NomadFileChange \<Rightarrow> bool" where
  "isDelete ch = (nc_Action ch = ''delete'')"

fun splitDeletes :: "NomadChangeEvent list \<Rightarrow> NomadChangeEvent list \<times> NomadChangeEvent list" where
  "splitDeletes [] = ([], [])"
| "splitDeletes (evt # evts) =
     (let deletes = filter isDelete (ne_Changes evt); keeps = filter (\<lambda>ch. \<not> isDelete ch) (ne_Changes evt);
          (deleteEvents, remainingEvents) = splitDeletes evts
      in ((if deletes \<noteq> [] then [evt\<lparr>ne_Changes := deletes\<rparr>] else []) @ deleteEvents,
          (if keeps \<noteq> [] then [evt\<lparr>ne_Changes := keeps\<rparr>] else []) @ remainingEvents))"

definition drainPendingNomadDeletes :: "daemonState \<Rightarrow> NomadChangeEvent list \<times> daemonState" where
  "drainPendingNomadDeletes s =
     (let (deleteEvents, remainingEvents) = splitDeletes (pendingNomadChanges s)
      in (deleteEvents, s\<lparr>pendingNomadChanges := remainingEvents\<rparr>))"

definition recordPendingNomadServerRestart :: "daemonState \<Rightarrow> daemonState" where
  "recordPendingNomadServerRestart s = s\<lparr>pendingNomadServerRestart := True\<rparr>"

definition consumePendingNomadServerRestart :: "daemonState \<Rightarrow> bool \<times> daemonState" where
  "consumePendingNomadServerRestart s = (pendingNomadServerRestart s, s\<lparr>pendingNomadServerRestart := False\<rparr>)"

section \<open>Job files of the repositories\<close>

fun addDistinct :: "string list \<Rightarrow> string list \<Rightarrow> string list" where
  "addDistinct out [] = out"
| "addDistinct out (p # ps) =
     addDistinct (if p = [] \<or> pathClean p \<in> set out then out else out @ [pathClean p]) ps"

definition candidateJobRepos :: "daemonConf \<Rightarrow> string list" where
  "candidateJobRepos c = addDistinct [] (dc_repos c @ [dc_composeDir c, dc_configDir c])"

definition visitEntry :: "world \<Rightarrow> string \<Rightarrow> string \<times> bool \<Rightarrow> (string \<times> string \<times> string) list" where
  "visitEntry w cleanDir entry =
     (if snd entry \<or> \<not> IsNomadJobFile (fst entry) then []
      else let fullPath = pathJoinL [cleanDir, fst entry]
           in if \<not> IsSafeJobPath cleanDir fullPath then []
              else case w_readFile w fullPath of
                     None \<Rightarrow> []
                   | Some content \<Rightarrow> [(fullPath, ExtractJobName content (fst entry), content)])"

text \<open>
  The job files that \<^verbatim>\<open>walkNomadJobFiles\<close> visits, in order, as path, job name and content. A
  visitor that stops the walk early is a search for the first match in this list.
\<close>

fun walkNomadJobFiles :: "world \<Rightarrow> string list \<Rightarrow> string list \<Rightarrow> (string \<times> string \<times> string) list" where
  "walkNomadJobFiles w seenDirs [] = []"
| "walkNomadJobFiles w seenDirs (dir # dirs) =
     (let cleanDir = pathClean dir
      in if dir = [] \<or> cleanDir \<in> set seenDirs then walkNomadJobFiles w seenDirs dirs
         else (case w_readDir w cleanDir of None \<Rightarrow> [] | Some entries \<Rightarrow> concat (map (visitEntry w cleanDir) entries))
              @ walkNomadJobFiles w (cleanDir # seenDirs) dirs)"

definition jobDirs :: "string list \<Rightarrow> string list" where
  "jobDirs repos = concat (map (\<lambda>r. [pathJoinL [r, ''jobs''], pathJoinL [r, ''nomad'', ''jobs'']]) repos)"

definition FindJobDefinitionInRepos :: "world \<Rightarrow> string \<Rightarrow> string \<Rightarrow> string list \<Rightarrow> string option" where
  "FindJobDefinitionInRepos w jobName skipRepoPath candidateRepos =
     (if jobName = [] then None
      else let cleanSkip = (if skipRepoPath \<noteq> [] then pathClean skipRepoPath else []);
               repos = filter (\<lambda>r. \<not> (cleanSkip \<noteq> [] \<and> r = cleanSkip)) (map pathClean (filter (\<lambda>r. r \<noteq> []) candidateRepos))
           in map_option fst (List.find (\<lambda>(path, name, content). name = jobName) (walkNomadJobFiles w [] (jobDirs repos))))"

definition collectDefinedNomadJobs :: "world \<Rightarrow> daemonConf \<Rightarrow> string list" where
  "collectDefinedNomadJobs w c =
     (let dirs = jobDirs (map pathClean (filter (\<lambda>r. r \<noteq> []) (candidateJobRepos c)))
      in filter (\<lambda>n. n \<noteq> []) (map (\<lambda>(path, name, content). name) (walkNomadJobFiles w [] dirs)))"

definition ResolveJobVarFile :: "world \<Rightarrow> string \<Rightarrow> string \<Rightarrow> string" where
  "ResolveJobVarFile w jobName0 configDir0 =
     (let jobName = trimSpace jobName0; configDir = trimSpace configDir0
      in if jobName = [] \<or> configDir = [] then []
         else case List.find (w_isFile w) (map (\<lambda>sub. pathJoinL [pathClean configDir, sub, jobName @ ''.vars.hcl''])
                                             [''jobs'', pathJoinL [''nomad'', ''jobs'']]) of
                Some cand \<Rightarrow> cand
              | None \<Rightarrow> [])"

definition resolveApplyJobPath :: "world \<Rightarrow> daemonConf \<Rightarrow> string \<Rightarrow> NomadFileChange \<Rightarrow> string option" where
  "resolveApplyJobPath w c repoPath ch =
     (if IsNomadVarFile (nc_Path ch) then FindJobDefinitionInRepos w (nc_JobName ch) [] (candidateJobRepos c)
      else let fullPath = pathJoinL [repoPath, nc_Path ch]
           in if IsSafeJobPath repoPath fullPath then Some fullPath else None)"

section \<open>Nomad commands\<close>

definition varFileArgs :: "world \<Rightarrow> daemonConf \<Rightarrow> string \<Rightarrow> string list" where
  "varFileArgs w c jobName =
     (if dc_configDir c \<noteq> [] then
        (let vf = ResolveJobVarFile w jobName (dc_configDir c) in if vf \<noteq> [] then [''-var-file='' @ vf] else [])
      else [])"

definition nomadJobRunArgs :: "world \<Rightarrow> daemonConf \<Rightarrow> string \<Rightarrow> string \<Rightarrow> string list" where
  "nomadJobRunArgs w c jobName fullPath = [''job'', ''run'', ''-detach''] @ varFileArgs w c jobName @ [fullPath]"

definition runNomadValidate :: "world \<Rightarrow> string \<Rightarrow> string \<Rightarrow> string list \<Rightarrow> daemonState \<Rightarrow> bool \<times> daemonState" where
  "runNomadValidate w subCmd targetPath extraArgs s =
     (let (r, s') = execNomad w ([subCmd, ''validate''] @ extraArgs @ [targetPath]) s in (nr_ok r, s'))"

definition validateExtra :: "world \<Rightarrow> daemonConf \<Rightarrow> string \<Rightarrow> string list" where
  "validateExtra w c jobPath =
     varFileArgs w c (ExtractJobName (case w_readFile w jobPath of Some raw \<Rightarrow> raw | None \<Rightarrow> []) jobPath)"

definition ValidateNomadJob :: "world \<Rightarrow> daemonConf \<Rightarrow> string \<Rightarrow> daemonState \<Rightarrow> bool \<times> daemonState" where
  "ValidateNomadJob w c jobPath s = runNomadValidate w ''job'' jobPath (validateExtra w c jobPath) s"

definition reconcileNomadServer :: "world \<Rightarrow> string \<Rightarrow> daemonState \<Rightarrow> bool \<times> daemonState" where
  "reconcileNomadServer w composeDir s =
     (let nomadDir = pathJoinL [composeDir, ''nomad'']
      in if w_isDir w nomadDir then runNomadValidate w ''config'' nomadDir [] s else (True, s))"

definition stopCmd :: "string \<Rightarrow> string list" where
  "stopCmd jobName = [''job'', ''stop'', ''-purge'', jobName]"

definition stopDeletedNomadJob :: "world \<Rightarrow> daemonConf \<Rightarrow> string \<Rightarrow> string \<Rightarrow> daemonState \<Rightarrow> daemonState" where
  "stopDeletedNomadJob w c repoPath jobName s =
     (case FindJobDefinitionInRepos w jobName repoPath (candidateJobRepos c) of
        Some survivingPath \<Rightarrow> s
      | None \<Rightarrow> snd (execNomad w (stopCmd jobName) s))"

definition isNomadJobTypeChangeError :: "string \<Rightarrow> bool" where
  "isNomadJobTypeChangeError output = contains (toLower output) ''cannot update job from type''"

definition isBatchNomadRun :: "world \<Rightarrow> string list \<Rightarrow> bool" where
  "isBatchNomadRun w runArgs =
     (if length runArgs < 3 \<or> runArgs ! 0 \<noteq> ''job'' \<or> runArgs ! 1 \<noteq> ''run'' then False
      else case w_readFile w (last runArgs) of
             None \<Rightarrow> False
           | Some raw \<Rightarrow> contains raw ([CHR 0x22] @ ''batch'' @ [CHR 0x22]))"

definition combinedOutput :: "world \<Rightarrow> nomadRes \<Rightarrow> string" where
  "combinedOutput w r = w_sanitize w (trimSpace (nr_out r @ nr_err r))"

text \<open>\<^const>\<open>None\<close> where the purge failed and the job was not run again.\<close>

definition handleNomadJobTypeChange ::
  "world \<Rightarrow> string \<Rightarrow> string \<Rightarrow> string list \<Rightarrow> daemonState \<Rightarrow> (string \<times> bool) option \<times> daemonState" where
  "handleNomadJobTypeChange w jobName sanitizedCombined runArgs s =
     (let (stop, s1) = execNomad w (stopCmd jobName) s
      in if \<not> nr_ok stop then (None, s1)
         else let (r, s2) = execNomad w runArgs s1
              in (Some (if nr_ok r then sanitizedCombined else combinedOutput w r, nr_ok r), s2))"

text \<open>The purge before a batch job, and the run with its retry after a change of type.\<close>

definition purgeBatch :: "world \<Rightarrow> string \<Rightarrow> string list \<Rightarrow> daemonState \<Rightarrow> daemonState" where
  "purgeBatch w jobName runArgs s =
     (if jobName \<noteq> [] \<and> isBatchNomadRun w runArgs then snd (execNomad w (stopCmd jobName) s) else s)"

definition runWithRetry :: "world \<Rightarrow> string \<Rightarrow> string list \<Rightarrow> daemonState \<Rightarrow> (string \<times> bool) \<times> daemonState" where
  "runWithRetry w jobName runArgs s =
     (let (r, s1) = execNomad w runArgs s
      in if nr_ok r then (([], True), s1)
         else if jobName \<noteq> [] \<and> isNomadJobTypeChangeError (combinedOutput w r) then
           (case handleNomadJobTypeChange w jobName (combinedOutput w r) runArgs s1 of
              (Some res, s2) \<Rightarrow> (res, s2)
            | (None, s2) \<Rightarrow> ((combinedOutput w r, False), s2))
         else ((combinedOutput w r, False), s1))"

definition runNomadJobWithEvents ::
  "world \<Rightarrow> HangarDeployEvent \<Rightarrow> string list \<Rightarrow> daemonState \<Rightarrow> (string \<times> bool) \<times> daemonState" where
  "runNomadJobWithEvents w baseEvt0 runArgs s0 =
     (let baseEvt = baseEvt0\<lparr>he_Event := ''deploy_started'', he_Status := ''started''\<rparr>;
          s1 = purgeBatch w (he_JobName baseEvt) runArgs (DispatchDeployEvent baseEvt s0);
          ((combined, ok), s2) = runWithRetry w (he_JobName baseEvt) runArgs s1
      in ((combined, ok),
          if ok then s2
          else DispatchDeployEvent (baseEvt\<lparr>he_Event := ''deploy_failed'', he_Status := ''failed'', he_Details := combined\<rparr>) s2))"

section \<open>Applying changes\<close>

definition IsHangarJob :: "string \<Rightarrow> bool" where
  "IsHangarJob name = eqFold (trimSpace name) ''hangar''"

text \<open>A stable sort by a boolean key.\<close>

definition SortNomadChangesHangarLast :: "NomadFileChange list \<Rightarrow> NomadFileChange list" where
  "SortNomadChangesHangarLast changes =
     filter (\<lambda>ch. \<not> IsHangarJob (nc_JobName ch)) changes @ filter (\<lambda>ch. IsHangarJob (nc_JobName ch)) changes"

definition SortMatchedJobsHangarLast :: "MatchedNomadJob list \<Rightarrow> MatchedNomadJob list" where
  "SortMatchedJobsHangarLast matches =
     filter (\<lambda>m. \<not> IsHangarJob (mj_JobName m)) matches @ filter (\<lambda>m. IsHangarJob (mj_JobName m)) matches"

definition matchWorkflowPattern :: "world \<Rightarrow> string \<Rightarrow> string \<Rightarrow> bool" where
  "matchWorkflowPattern w pattern cleanFile =
     (let cleanPattern = cleanChangedFilePath pattern
      in if cleanPattern = [] then False
         else if cleanPattern = ''**'' then True
         else if hasSuffix cleanPattern ''/**'' then
           (let prefix = trimSuffix cleanPattern ''/**'' in cleanFile = prefix \<or> hasPrefix cleanFile (prefix @ ''/''))
         else w_pathMatch w cleanPattern cleanFile)"

text \<open>The result is compared as a set by its callers; the code sorts it.\<close>

definition AffectedWorkflowImages :: "world \<Rightarrow> string \<Rightarrow> string list \<Rightarrow> string list" where
  "AffectedWorkflowImages w repoPath changedFiles =
     (if trimSpace repoPath = [] \<or> changedFiles = [] then []
      else let clean = filter (\<lambda>f. f \<noteq> [] \<and> f \<noteq> ''.'') (map cleanChangedFilePath changedFiles)
           in remdups (map snd (filter (\<lambda>(svc, imageName).
                list_ex (\<lambda>f. list_ex (\<lambda>g. matchWorkflowPattern w g f) (case map_of (w_filters w repoPath) svc of Some gs \<Rightarrow> gs | None \<Rightarrow> [])) clean)
                (w_catalog w repoPath))))"

definition JobHasContainerBuildChanges :: "world \<Rightarrow> string \<Rightarrow> string \<Rightarrow> string list \<Rightarrow> bool" where
  "JobHasContainerBuildChanges w repoPath jobSpec changedFiles =
     list_ex (\<lambda>img. list_ex (ImageMatches img) (AffectedWorkflowImages w repoPath changedFiles)) (ExtractNomadJobImages jobSpec)"

fun resolveImageSourceLoop :: "world \<Rightarrow> string \<Rightarrow> string list \<Rightarrow> string" where
  "resolveImageSourceLoop w ref [] = []"
| "resolveImageSourceLoop w ref (r # rs) =
     (if trimSpace r \<noteq> [] \<and> list_ex (\<lambda>(svc, imageName). ImageMatches ref imageName) (w_catalog w r)
      then NormalizeGitHubSlug r else resolveImageSourceLoop w ref rs)"

definition ResolveImageSourceRepo :: "world \<Rightarrow> string \<Rightarrow> string list \<Rightarrow> string" where
  "ResolveImageSourceRepo w imageRef candidateRepos =
     (let ref = trimSpace imageRef in if ref = [] then [] else resolveImageSourceLoop w ref candidateRepos)"

definition shouldDeferNomadJob :: "world \<Rightarrow> daemonConf \<Rightarrow> string \<Rightarrow> bool" where
  "shouldDeferNomadJob w c jobSpec =
     list_ex (\<lambda>img. ResolveImageSourceRepo w img (candidateJobRepos c) \<noteq> [] \<and> w_digest w img = [])
       (ExtractNomadJobImages jobSpec)"

text \<open>The first loop of \<^verbatim>\<open>applyNomadChangesDirectly\<close>: deletions, applications that are ready, and deferred jobs.\<close>

fun sortChanges :: "world \<Rightarrow> daemonConf \<Rightarrow> string \<Rightarrow> bool \<Rightarrow> string list \<Rightarrow> NomadFileChange list
    \<Rightarrow> NomadFileChange list \<times> (NomadFileChange \<times> string) list \<times> string list" where
  "sortChanges w c repoPath containersBuilding changedFiles [] = ([], [], [])"
| "sortChanges w c repoPath containersBuilding changedFiles (ch # chs) =
     (let (deleteChanges, readyApplies, deferred) = sortChanges w c repoPath containersBuilding changedFiles chs
      in if isDelete ch then (ch # deleteChanges, readyApplies, deferred)
         else case resolveApplyJobPath w c repoPath ch of
                None \<Rightarrow> (deleteChanges, readyApplies, deferred)
              | Some fullPath \<Rightarrow>
                  (case w_readFile w fullPath of
                     None \<Rightarrow> (deleteChanges, readyApplies, deferred)
                   | Some jobSpec \<Rightarrow>
                       if containersBuilding \<and> JobHasContainerBuildChanges w repoPath jobSpec changedFiles \<or> shouldDeferNomadJob w c jobSpec
                       then (deleteChanges, readyApplies, nc_JobName ch # deferred)
                       else (deleteChanges, (ch, fullPath) # readyApplies, deferred)))"

definition stopAll :: "world \<Rightarrow> daemonConf \<Rightarrow> string \<Rightarrow> NomadFileChange list \<Rightarrow> daemonState \<Rightarrow> daemonState" where
  "stopAll w c repoPath chs s = fold (\<lambda>ch. stopDeletedNomadJob w c repoPath (nc_JobName ch)) chs s"

datatype deployErr = ValidationFailed string | JobRunFailed string string

fun applyLoop :: "world \<Rightarrow> daemonConf \<Rightarrow> bool \<Rightarrow> HangarDeployEvent \<Rightarrow> (NomadFileChange \<times> string) list \<Rightarrow> string list
    \<Rightarrow> daemonState \<Rightarrow> string list \<times> deployErr option \<times> daemonState" where
  "applyLoop w c failOnJobErr evt [] applied s = (applied, None, s)"
| "applyLoop w c failOnJobErr evt ((ch, fullPath) # items) applied s =
     (let (valid, s1) = ValidateNomadJob w c fullPath s
      in if \<not> valid then
           (if failOnJobErr then (applied, Some (ValidationFailed (nc_Path ch)), s1)
            else applyLoop w c failOnJobErr evt items applied s1)
         else let ((combined, ok), s2) = runNomadJobWithEvents w (evt\<lparr>he_JobName := nc_JobName ch\<rparr>)
                                           (nomadJobRunArgs w c (nc_JobName ch) fullPath) s1
              in if \<not> ok then
                   (if failOnJobErr then (applied, Some (JobRunFailed (nc_Path ch) combined), s2)
                    else applyLoop w c failOnJobErr evt items applied s2)
                 else applyLoop w c failOnJobErr evt items (applied @ [nc_JobName ch]) s2)"

definition baseEvent :: "string \<Rightarrow> string \<Rightarrow> int \<Rightarrow> string \<Rightarrow> string list \<Rightarrow> HangarDeployEvent" where
  "baseEvent repo commit prNumber targetID expectedJobs =
     \<lparr>he_Event = [], he_JobName = [], he_Repo = repo, he_CommitSHA = commit, he_PRNumber = prNumber, he_TargetID = targetID,
      he_Image = [], he_Digest = [], he_Status = [], he_Details = [], he_ExpectedJobs = expectedJobs\<rparr>"

definition applyNomadChangesDirectly ::
  "world \<Rightarrow> daemonConf \<Rightarrow> string \<Rightarrow> NomadFileChange list \<Rightarrow> bool \<Rightarrow> bool \<Rightarrow> string list \<Rightarrow> string list \<Rightarrow> string list
    \<Rightarrow> daemonState \<Rightarrow> (string list \<times> string list \<times> deployErr option) \<times> daemonState" where
  "applyNomadChangesDirectly w c repoPath changes failOnJobErr containersBuilding changedFiles expectedJobs meta s =
     (let (repo, commit, targetID, prNumber) = parseNomadMeta meta;
          (deleteChanges, readyApplies, deferred) =
            sortChanges w c repoPath containersBuilding changedFiles (SortNomadChangesHangarLast changes);
          s1 = (if deleteChanges = [] then s
                else if deferred \<noteq> [] then recordPendingNomadChanges repoPath deleteChanges [repo, commit, targetID, itoa prNumber] s
                else stopAll w c repoPath deleteChanges s);
          (applied, err, s2) = applyLoop w c failOnJobErr (baseEvent repo commit prNumber targetID expectedJobs) readyApplies [] s1
      in ((applied, deferred, err), s2))"

definition ReconcileNomadChanges ::
  "world \<Rightarrow> daemonConf \<Rightarrow> string \<Rightarrow> NomadFileChange list \<Rightarrow> string list \<Rightarrow> daemonState \<Rightarrow> deployErr option \<times> daemonState" where
  "ReconcileNomadChanges w c repoPath changes meta s =
     (if changes = [] then (None, s)
      else let (repo0, commit0, targetID, prNumber) = parseNomadMeta meta;
               repo = (if repo0 = [] \<and> repoPath \<noteq> [] then NormalizeGitHubSlug repoPath else repo0);
               commit = (if commit0 = [] \<and> repoPath \<noteq> [] then (case w_head w repoPath of Some h \<Rightarrow> trimSpace h | None \<Rightarrow> []) else commit0);
               ((applied, deferred, err), s') =
                 applyNomadChangesDirectly w c repoPath changes True False [] [] [repo, commit, targetID, itoa prNumber] s
           in (err, s'))"

fun reconcileEvents :: "world \<Rightarrow> daemonConf \<Rightarrow> NomadChangeEvent list \<Rightarrow> daemonState \<Rightarrow> deployErr list \<times> daemonState" where
  "reconcileEvents w c [] s = ([], s)"
| "reconcileEvents w c (evt # evts) s =
     (let (err, s1) = ReconcileNomadChanges w c (ne_RepoPath evt) (ne_Changes evt)
                        [ne_Repo evt, ne_CommitSHA evt, ne_TargetID evt, itoa (ne_PRNumber evt)] s;
          (errs, s2) = reconcileEvents w c evts s1
      in ((case err of Some e \<Rightarrow> [e] | None \<Rightarrow> []) @ errs, s2))"

definition ReconcilePendingNomad :: "world \<Rightarrow> daemonConf \<Rightarrow> daemonState \<Rightarrow> deployErr list \<times> daemonState" where
  "ReconcilePendingNomad w c s = (let (pending, s1) = drainPendingNomadChanges s in reconcileEvents w c pending s1)"

section \<open>Teardowns and the reconciliation cycle\<close>

definition ExecuteNomadTeardowns :: "world \<Rightarrow> daemonConf \<Rightarrow> NomadChangeEvent list \<Rightarrow> daemonState \<Rightarrow> daemonState" where
  "ExecuteNomadTeardowns w c pending s =
     fold (\<lambda>evt. stopAll w c (ne_RepoPath evt) (filter isDelete (ne_Changes evt))) pending s"

definition pendingJobNames :: "daemonState \<Rightarrow> string list" where
  "pendingJobNames s = filter (\<lambda>n. n \<noteq> []) (map nc_JobName (concat (map ne_Changes (pendingNomadChanges s))))"

definition SweepOrphanedNomadJobs :: "world \<Rightarrow> daemonConf \<Rightarrow> daemonState \<Rightarrow> daemonState" where
  "SweepOrphanedNomadJobs w c s =
     (let found = collectDefinedNomadJobs w c
      in if found = [] then s
         else let defined = found @ pendingJobNames s; (r, s1) = execNomad w [''job'', ''status''] s
              in if \<not> nr_ok r then s1
                 else fold (\<lambda>jobID s. if jobID \<in> set defined then s else stopDeletedNomadJob w c [] jobID s)
                        (ParseActiveNomadJobs (nr_out r)) s1)"

text \<open>
  \<open>proceed\<close> says that the context is alive after the cooldown, \<open>ready\<close> that the wait for the
  Nomad server after a configuration change was not cancelled.
\<close>

definition executeDebouncedReconcileCycle :: "world \<Rightarrow> daemonConf \<Rightarrow> bool \<Rightarrow> bool \<Rightarrow> daemonState \<Rightarrow> daemonState" where
  "executeDebouncedReconcileCycle w c proceed ready s =
     (if \<not> proceed then s
      else let (pendingDeletes, s1) = drainPendingNomadDeletes s;
               s2 = SweepOrphanedNomadJobs w c (ExecuteNomadTeardowns w c pendingDeletes s1);
               (restart, s3) = consumePendingNomadServerRestart s2;
               (valid, s4) = (if restart then reconcileNomadServer w (dc_composeDir c) s3 else (False, s3))
           in if restart \<and> valid \<and> \<not> ready then s4 else snd (ReconcilePendingNomad w c s4))"

section \<open>Image rollouts\<close>

fun matchJobs :: "string \<Rightarrow> MatchedNomadJob list \<Rightarrow> (string \<times> string \<times> string) list \<Rightarrow> MatchedNomadJob list" where
  "matchJobs imgRef matches [] = matches"
| "matchJobs imgRef matches ((jobPath, jobName, content) # files) =
     matchJobs imgRef
       (if list_ex (ImageMatches imgRef) (ExtractNomadJobImages content) \<and> jobName \<notin> set (map mj_JobName matches)
        then matches @ [\<lparr>mj_JobName = jobName, mj_JobPath = jobPath\<rparr>] else matches) files"

definition findAllNomadJobsByImage :: "world \<Rightarrow> daemonConf \<Rightarrow> string \<Rightarrow> MatchedNomadJob list" where
  "findAllNomadJobsByImage w c imgRef =
     matchJobs imgRef [] (walkNomadJobFiles w [] (jobDirs (candidateJobRepos c)))"

fun catalogRefLoop :: "world \<Rightarrow> string \<Rightarrow> string \<Rightarrow> string \<Rightarrow> string list \<Rightarrow> string" where
  "catalogRefLoop w trimmed stripped base [] = trimmed"
| "catalogRefLoop w trimmed stripped base (r # rs) =
     (case map_of (w_catalog w r) base of
        Some imgName \<Rightarrow> if imgName \<noteq> [] \<and> \<not> eqFold imgName base
                        then pathDir stripped @ ''/'' @ imgName @ drop (length stripped) trimmed
                        else catalogRefLoop w trimmed stripped base rs
      | None \<Rightarrow> catalogRefLoop w trimmed stripped base rs)"

definition ResolveCatalogImageRef :: "world \<Rightarrow> string \<Rightarrow> string list \<Rightarrow> string" where
  "ResolveCatalogImageRef w imgRef candidateRepos =
     (let trimmed = trimSpace imgRef; stripped = stripImageTag trimmed; base = toLower (pathBase stripped)
      in if base = [] \<or> base = ''.'' \<or> base = ''/'' then trimmed
         else catalogRefLoop w trimmed stripped base candidateRepos)"

definition resolveImageTag :: "string \<Rightarrow> string \<Rightarrow> string" where
  "resolveImageTag commitSHA digest =
     (if commitSHA \<noteq> [] then commitSHA
      else if digest = [] then ''latest''
      else let cleanDigest = trimPrefix digest ''@''
           in ''latest@'' @ (if hasPrefix cleanDigest ''sha256:'' then cleanDigest else ''sha256:'' @ cleanDigest))"

definition buildImageReadyNomadRunArgs :: "string \<Rightarrow> string \<Rightarrow> string \<Rightarrow> string \<Rightarrow> string \<Rightarrow> string list" where
  "buildImageReadyNomadRunArgs jobSpec jobPath commitSHA digest varFile =
     [''job'', ''run'', ''-detach'']
     @ (if trimSpace varFile \<noteq> [] then [''-var-file='' @ trimSpace varFile] else [])
     @ (if HasNomadJobVariable jobSpec ''image_tag'' then [''-var=image_tag='' @ resolveImageTag commitSHA digest] else [])
     @ [jobPath]"

datatype rolloutErr = ReadError string | CommitImageNotReady string string | RolloutValidation string | RolloutRun string

definition applyImageReadyToJob ::
  "world \<Rightarrow> daemonConf \<Rightarrow> MatchedNomadJob \<Rightarrow> ImageReadyEventRequest \<Rightarrow> string \<Rightarrow> string \<Rightarrow> daemonState
    \<Rightarrow> rolloutErr option \<times> daemonState" where
  "applyImageReadyToJob w c job req imgRef digest0 s =
     (case w_readFile w (mj_JobPath job) of
        None \<Rightarrow> (Some (ReadError (mj_JobName job)), s)
      | Some jobSpec \<Rightarrow>
          let pinned = HasNomadJobVariable jobSpec ''image_tag'' \<and> trimSpace (ir_CommitSHA req) \<noteq> [];
              commitImgRef = ReplaceImageTag imgRef (ir_CommitSHA req)
          in if pinned \<and> w_digest w commitImgRef = [] then (Some (CommitImageNotReady (mj_JobName job) commitImgRef), s)
             else let digest = (if pinned then w_digest w commitImgRef else digest0);
                      (valid, s1) = ValidateNomadJob w c (mj_JobPath job) s
                  in if \<not> valid then (Some (RolloutValidation (mj_JobName job)), s1)
                     else let baseEvt = (baseEvent (ir_Repo req) (ir_CommitSHA req) (ir_PRNumber req) (ir_TargetID req) [])
                                          \<lparr>he_JobName := mj_JobName job, he_Image := ir_Image req, he_Digest := digest\<rparr>;
                              vf = (if dc_configDir c \<noteq> [] then ResolveJobVarFile w (mj_JobName job) (dc_configDir c) else []);
                              ((combined, ok), s2) = runNomadJobWithEvents w baseEvt
                                (buildImageReadyNomadRunArgs jobSpec (mj_JobPath job) (ir_CommitSHA req) digest vf) s1
                          in (if ok then None else Some (RolloutRun (mj_JobName job)), s2))"

fun rolloutLoop :: "world \<Rightarrow> daemonConf \<Rightarrow> ImageReadyEventRequest \<Rightarrow> string \<Rightarrow> string \<Rightarrow> MatchedNomadJob list
    \<Rightarrow> daemonState \<Rightarrow> string list \<times> rolloutErr list \<times> daemonState" where
  "rolloutLoop w c req imgRef digest [] s = ([], [], s)"
| "rolloutLoop w c req imgRef digest (job # jobs) s =
     (let (err, s1) = applyImageReadyToJob w c job req imgRef digest s;
          (applied, errs, s2) = rolloutLoop w c req imgRef digest jobs s1
      in case err of Some e \<Rightarrow> (applied, e # errs, s2) | None \<Rightarrow> (mj_JobName job # applied, errs, s2))"

record ImageReadyEventResponse =
  re_Status :: string
  re_Image :: string
  re_MatchedJobs :: "string list"
  re_Code :: nat

definition ExecuteImageReadyEvent ::
  "world \<Rightarrow> daemonConf \<Rightarrow> ImageReadyEventRequest \<Rightarrow> daemonState \<Rightarrow> ImageReadyEventResponse \<times> daemonState" where
  "ExecuteImageReadyEvent w c req0 s =
     (let imgRef = ResolveCatalogImageRef w (ir_Image req0) (candidateJobRepos c); req = req0\<lparr>ir_Image := imgRef\<rparr>;
          matches = findAllNomadJobsByImage w c imgRef
      in if imgRef = [] then (\<lparr>re_Status = ''error'', re_Image = [], re_MatchedJobs = [], re_Code = 400\<rparr>, s)
         else if matches = [] then (\<lparr>re_Status = ''not_found'', re_Image = imgRef, re_MatchedJobs = [], re_Code = 404\<rparr>, s)
         else let (pendingTeardowns, s1) = drainPendingNomadDeletes s;
                  s2 = SweepOrphanedNomadJobs w c (ExecuteNomadTeardowns w c pendingTeardowns s1);
                  digest = (if ir_Digest req = [] then w_digest w imgRef else ir_Digest req);
                  (applied, errs, s3) = rolloutLoop w c req imgRef digest (SortMatchedJobsHangarLast matches) s2
              in (if errs \<noteq> [] then \<lparr>re_Status = ''error'', re_Image = imgRef, re_MatchedJobs = applied, re_Code = 500\<rparr>
                  else \<lparr>re_Status = ''accepted'', re_Image = imgRef, re_MatchedJobs = applied, re_Code = 200\<rparr>, s3))"

definition putRollout :: "PendingImageRollout \<Rightarrow> (string \<times> PendingImageRollout) list \<Rightarrow> (string \<times> PendingImageRollout) list" where
  "putRollout r rs = filter (\<lambda>(k, v). k \<noteq> pr_JobName r) rs @ [(pr_JobName r, r)]"

definition EnqueueImageReadyEvent ::
  "world \<Rightarrow> daemonConf \<Rightarrow> ImageReadyEventRequest \<Rightarrow> daemonState \<Rightarrow> ImageReadyEventResponse \<times> daemonState" where
  "EnqueueImageReadyEvent w c req0 s =
     (let imgRef = ResolveCatalogImageRef w (ir_Image req0) (candidateJobRepos c); req = req0\<lparr>ir_Image := imgRef\<rparr>;
          matches = findAllNomadJobsByImage w c imgRef
      in if imgRef = [] then (\<lparr>re_Status = ''error'', re_Image = [], re_MatchedJobs = [], re_Code = 400\<rparr>, s)
         else if matches = [] then (\<lparr>re_Status = ''not_found'', re_Image = imgRef, re_MatchedJobs = [], re_Code = 404\<rparr>, s)
         else (\<lparr>re_Status = ''accepted'', re_Image = imgRef, re_MatchedJobs = map mj_JobName matches, re_Code = 202\<rparr>,
               s\<lparr>pendingImageRollouts :=
                   fold (\<lambda>m. putRollout \<lparr>pr_JobName = mj_JobName m, pr_JobPath = mj_JobPath m, pr_Request = req\<rparr>)
                     matches (pendingImageRollouts s)\<rparr>))"

definition IsHangarImage :: "string \<Rightarrow> bool" where
  "IsHangarImage img = contains (toLower (trimSpace img)) ''hangar''"

definition isHangarRequest :: "world \<Rightarrow> daemonConf \<Rightarrow> ImageReadyEventRequest \<Rightarrow> bool" where
  "isHangarRequest w c req =
     (IsHangarImage (ir_Image req) \<or> list_ex (\<lambda>m. IsHangarJob (mj_JobName m)) (findAllNomadJobsByImage w c (ir_Image req)))"

text \<open>One request per image, the last of the iteration order winning.\<close>

fun uniqueRequests :: "(string \<times> PendingImageRollout) list \<Rightarrow> (string \<times> ImageReadyEventRequest) list \<Rightarrow> (string \<times> ImageReadyEventRequest) list" where
  "uniqueRequests [] acc = acc"
| "uniqueRequests ((k, v) # vs) acc =
     uniqueRequests vs (filter (\<lambda>(img, r). img \<noteq> ir_Image (pr_Request v)) acc @ [(ir_Image (pr_Request v), pr_Request v)])"

text \<open>\<open>alive\<close> is the number of requests after which the context is cancelled.\<close>

definition executePendingImageRollouts :: "world \<Rightarrow> daemonConf \<Rightarrow> nat \<Rightarrow> daemonState \<Rightarrow> daemonState" where
  "executePendingImageRollouts w c alive s =
     (if pendingImageRollouts s = [] then s
      else let reqs = map snd (uniqueRequests (pendingImageRollouts s) []);
               ordered = filter (\<lambda>r. \<not> isHangarRequest w c r) reqs @ filter (isHangarRequest w c) reqs
           in fold (\<lambda>req s. snd (ExecuteImageReadyEvent w c req s)) (take alive ordered) (s\<lparr>pendingImageRollouts := []\<rparr>))"

section \<open>Git changes and push events\<close>

definition isAllZeros :: "string \<Rightarrow> bool" where
  "isAllZeros s = (s \<noteq> [] \<and> list_all (\<lambda>c. c = CHR ''0'') s)"

definition stripClean :: "string \<Rightarrow> string" where
  "stripClean f = trimPrefix (pathClean f) ''/''"

definition fileInChangedList :: "string \<Rightarrow> string list \<Rightarrow> bool" where
  "fileInChangedList target changed = list_ex (\<lambda>f. stripClean f = stripClean target) changed"

definition splitLines :: "string \<Rightarrow> string list" where
  "splitLines s = filter (\<lambda>l. l \<noteq> []) (map trimSpace (splitOn (CHR 0x0A) s))"

text \<open>The git executor, on a live context: the output of a command in a directory, \<^const>\<open>None\<close> for a failure.\<close>

type_synonym gitExecutor = "string \<Rightarrow> string list \<Rightarrow> string option"

definition withPaths :: "string list \<Rightarrow> string list \<Rightarrow> string list" where
  "withPaths args pathArgs = (if pathArgs \<noteq> [] then args @ [''--''] @ pathArgs else args)"

definition runGitDiffWithFallback ::
  "gitExecutor \<Rightarrow> string \<Rightarrow> string \<Rightarrow> string \<Rightarrow> string \<Rightarrow> string \<Rightarrow> string list \<Rightarrow> string option" where
  "runGitDiffWithFallback git repoPath diffFlag prevHead currHead fallbackRef pathArgs =
     (let treeArgs = withPaths [''diff-tree'', ''--no-commit-id'', diffFlag, ''-r'', fallbackRef] pathArgs
      in if isAllZeros prevHead then git repoPath treeArgs
         else case git repoPath (withPaths [''diff'', diffFlag, prevHead, currHead] pathArgs) of
                Some out \<Rightarrow> Some out
              | None \<Rightarrow> git repoPath treeArgs)"

definition getChangedFiles :: "gitExecutor \<Rightarrow> string \<Rightarrow> string \<Rightarrow> string \<Rightarrow> string list option" where
  "getChangedFiles git repoPath prevHead currHead =
     (if prevHead = [] \<or> currHead = [] \<or> prevHead = currHead then Some []
      else map_option splitLines (runGitDiffWithFallback git repoPath ''--name-only'' prevHead currHead currHead []))"

definition diffNomadCommitRange ::
  "gitExecutor \<Rightarrow> string \<Rightarrow> string \<Rightarrow> string \<Rightarrow> string \<Rightarrow> string list \<Rightarrow> string option" where
  "diffNomadCommitRange git repoPath diffFlag prevHead currHead pathArgs =
     (if prevHead = [] \<or> currHead = [] \<or> prevHead = currHead \<or> repoPath = [] then None
      else runGitDiffWithFallback git repoPath diffFlag prevHead currHead ''HEAD'' pathArgs)"

definition HasNomadConfigChanges :: "gitExecutor \<Rightarrow> string \<Rightarrow> string \<Rightarrow> string \<Rightarrow> bool" where
  "HasNomadConfigChanges git repoPath prevHead currHead =
     (case diffNomadCommitRange git repoPath ''--name-only'' prevHead currHead [''nomad''] of
        None \<Rightarrow> False
      | Some out \<Rightarrow> FilterNomadConfigFiles (splitOn (CHR 0x0A) (trimSpace out)) \<noteq> [])"

definition HasNomadChanges :: "gitExecutor \<Rightarrow> string \<Rightarrow> string \<Rightarrow> string \<Rightarrow> NomadFileChange list" where
  "HasNomadChanges git repoPath prevHead currHead =
     (case diffNomadCommitRange git repoPath ''--name-status'' prevHead currHead [] of
        None \<Rightarrow> []
      | Some out \<Rightarrow> ParseNomadGitStatus out)"

text \<open>The context of a sync: repository, commit, target and pull request, and whether changes are left to the caller.\<close>

definition enqueuePostSyncReconciliation ::
  "gitExecutor \<Rightarrow> string \<Rightarrow> string \<Rightarrow> string \<Rightarrow> (string list \<times> bool) option \<Rightarrow> daemonState \<Rightarrow> daemonState" where
  "enqueuePostSyncReconciliation git repoPath prevHead currHead syncCtx s =
     (let s1 = (if HasNomadConfigChanges git repoPath prevHead currHead then recordPendingNomadServerRestart s else s);
          nomadChanges = HasNomadChanges git repoPath prevHead currHead
      in case syncCtx of
           Some (meta, skipPendingNomad) \<Rightarrow>
             if skipPendingNomad \<or> nomadChanges = [] then s1 else recordPendingNomadChanges repoPath nomadChanges meta s1
         | None \<Rightarrow>
             if nomadChanges = [] then s1
             else recordPendingNomadChanges repoPath nomadChanges [NormalizeGitHubSlug repoPath, currHead, [], ''0''] s1)"

record GitPushEventRequest =
  gp_Repo :: string
  gp_Ref :: string
  gp_Commit :: string
  gp_TargetID :: string
  gp_PRNumber :: int

datatype pushReject = MissingRepo | NonMainRef | UnmanagedRepo

definition validateGitPushRequest :: "GitPushEventRequest \<Rightarrow> string list \<Rightarrow> (pushReject, string) result" where
  "validateGitPushRequest req repos =
     (let ref = trimSpace (gp_Ref req); repoPath = ResolveRepoPath (gp_Repo req) repos in
      guardErr (gp_Repo req = []) MissingRepo (
      guardErr (ref \<noteq> [] \<and> ref \<noteq> ''refs/heads/main'' \<and> ref \<noteq> ''main'' \<and> \<not> hasSuffix ref ''/main'') NonMainRef (
      guardErr (repoPath = []) UnmanagedRepo (Inr repoPath))))"

record pushOutcome =
  po_Applied :: "string list"
  po_Deferred :: bool
  po_Code :: nat

definition applyGitPushNomadChanges ::
  "world \<Rightarrow> daemonConf \<Rightarrow> string \<Rightarrow> NomadFileChange list \<Rightarrow> bool \<Rightarrow> bool \<Rightarrow> string list \<Rightarrow> string list \<Rightarrow> GitPushEventRequest
    \<Rightarrow> daemonState \<Rightarrow> pushOutcome \<times> daemonState" where
  "applyGitPushNomadChanges w c repoPath nomadChanges isConfigRepo containersBuilding changedFiles expectedJobs req s =
     (let failOnJobErr = (\<not> isConfigRepo);
          ((applied, deferred, err), s') =
            applyNomadChangesDirectly w c repoPath nomadChanges failOnJobErr containersBuilding changedFiles expectedJobs
              [gp_Repo req, gp_Commit req, gp_TargetID req, itoa (gp_PRNumber req)] s
      in (\<lparr>po_Applied = applied, po_Deferred = (containersBuilding \<or> deferred \<noteq> []),
           po_Code = (if err \<noteq> None \<and> failOnJobErr then 500 else 200)\<rparr>, s'))"

section \<open>The pending queue refines a flat buffer\<close>

text \<open>
  The specification of a buffer of changes: recording appends, draining everything returns it in
  order, and draining the deletions returns them in order and keeps the rest.
\<close>

datatype 'c bufferOp = AbsRecord "'c list" | AbsDrainAll | AbsDrainDeletes

fun absStep :: "('c \<Rightarrow> bool) \<Rightarrow> 'c bufferOp \<Rightarrow> 'c list \<Rightarrow> 'c list \<times> 'c list" where
  "absStep del (AbsRecord cs) q = ([], q @ cs)"
| "absStep del AbsDrainAll q = (q, [])"
| "absStep del AbsDrainDeletes q = (filter del q, filter (\<lambda>c. \<not> del c) q)"

fun absRun :: "('c \<Rightarrow> bool) \<Rightarrow> 'c bufferOp list \<Rightarrow> 'c list \<Rightarrow> 'c list \<times> 'c list" where
  "absRun del [] q = ([], q)"
| "absRun del (op # ops) q =
     (let (out, q1) = absStep del op q; (outs, q2) = absRun del ops q1 in (out @ outs, q2))"

fun recordedBy :: "'c bufferOp list \<Rightarrow> 'c list" where
  "recordedBy [] = []"
| "recordedBy (AbsRecord cs # ops) = cs @ recordedBy ops"
| "recordedBy (op # ops) = recordedBy ops"

text \<open>Deletions and other changes each leave the buffer in the order they came, none lost or repeated.\<close>

lemma absRun_fifo:
  assumes "absRun del ops q = (outs, q')"
  shows "filter del (outs @ q') = filter del (q @ recordedBy ops)"
    "filter (\<lambda>c. \<not> del c) (outs @ q') = filter (\<lambda>c. \<not> del c) (q @ recordedBy ops)"
proof -
  have "filter del (fst (absRun del ops q) @ snd (absRun del ops q)) = filter del (q @ recordedBy ops) \<and>
    filter (\<lambda>c. \<not> del c) (fst (absRun del ops q) @ snd (absRun del ops q)) = filter (\<lambda>c. \<not> del c) (q @ recordedBy ops)"
  proof (induction ops arbitrary: q)
    case (Cons op ops)
    obtain o1 q1 where s: "absStep del op q = (o1, q1)" by fastforce
    have "filter del (o1 @ q1 @ recordedBy ops) = filter del (q @ recordedBy (op # ops))"
      "filter (\<lambda>c. \<not> del c) (o1 @ q1 @ recordedBy ops) = filter (\<lambda>c. \<not> del c) (q @ recordedBy (op # ops))"
      using s by (cases op; auto)+
    then show ?case using Cons.IH [of q1] by (auto simp: s case_prod_beta)
  qed simp
  then show "filter del (outs @ q') = filter del (q @ recordedBy ops)"
    "filter (\<lambda>c. \<not> del c) (outs @ q') = filter (\<lambda>c. \<not> del c) (q @ recordedBy ops)" using assms by simp_all
qed

locale change_buffer =
  fixes step :: "'op \<Rightarrow> 's \<Rightarrow> 'o \<times> 's" and opAbs :: "'op \<Rightarrow> 'c bufferOp"
    and contents :: "'s \<Rightarrow> 'c list" and got :: "'o \<Rightarrow> 'c list" and del :: "'c \<Rightarrow> bool"
  assumes simulates: "absStep del (opAbs op) (contents s) = (got (fst (step op s)), contents (snd (step op s)))"
begin

fun run :: "'op list \<Rightarrow> 's \<Rightarrow> 'o list \<times> 's" where
  "run [] s = ([], s)"
| "run (op # ops) s = (let (out, s1) = step op s; (outs, s2) = run ops s1 in (out # outs, s2))"

lemma run_simulates:
  "absRun del (map opAbs ops) (contents s) = (concat (map got (fst (run ops s))), contents (snd (run ops s)))"
  by (induction ops arbitrary: s) (auto simp: simulates case_prod_beta)

lemma run_fifo:
  "filter del (concat (map got (fst (run ops s))) @ contents (snd (run ops s))) = filter del (contents s @ recordedBy (map opAbs ops))"
  "filter (\<lambda>c. \<not> del c) (concat (map got (fst (run ops s))) @ contents (snd (run ops s)))
     = filter (\<lambda>c. \<not> del c) (contents s @ recordedBy (map opAbs ops))"
  using absRun_fifo [OF run_simulates [of ops s]] by blast+

end

datatype pendingOp =
    RecordChanges string "NomadFileChange list" "string list"
  | DrainChanges
  | DrainDeletes

fun pendingStep :: "pendingOp \<Rightarrow> daemonState \<Rightarrow> NomadChangeEvent list \<times> daemonState" where
  "pendingStep (RecordChanges repoPath changes meta) s = ([], recordPendingNomadChanges repoPath changes meta s)"
| "pendingStep DrainChanges s = drainPendingNomadChanges s"
| "pendingStep DrainDeletes s = drainPendingNomadDeletes s"

fun pendingRun :: "pendingOp list \<Rightarrow> daemonState \<Rightarrow> NomadChangeEvent list list \<times> daemonState" where
  "pendingRun [] s = ([], s)"
| "pendingRun (op # ops) s = (let (out, s1) = pendingStep op s; (outs, s2) = pendingRun ops s1 in (out # outs, s2))"

text \<open>A change with the metadata of its event.\<close>

definition flatChanges :: "NomadChangeEvent list \<Rightarrow> (NomadChangeEvent \<times> NomadFileChange) list" where
  "flatChanges evts = concat (map (\<lambda>e. map (Pair (e\<lparr>ne_Changes := []\<rparr>)) (ne_Changes e)) evts)"

fun pendingAbs :: "pendingOp \<Rightarrow> (NomadChangeEvent \<times> NomadFileChange) bufferOp" where
  "pendingAbs (RecordChanges repoPath changes meta) = AbsRecord (flatChanges [changeEvent repoPath changes meta])"
| "pendingAbs DrainChanges = AbsDrainAll"
| "pendingAbs DrainDeletes = AbsDrainDeletes"

definition isDeletePair :: "NomadChangeEvent \<times> NomadFileChange \<Rightarrow> bool" where
  "isDeletePair p = isDelete (snd p)"

lemma flatChanges_simps [simp]:
  "flatChanges [] = []" "flatChanges (e # es) = map (Pair (e\<lparr>ne_Changes := []\<rparr>)) (ne_Changes e) @ flatChanges es"
  "flatChanges (xs @ ys) = flatChanges xs @ flatChanges ys"
  by (simp_all add: flatChanges_def)

lemma splitDeletes_flat:
  "flatChanges (fst (splitDeletes evts)) = filter isDeletePair (flatChanges evts)
   \<and> flatChanges (snd (splitDeletes evts)) = filter (\<lambda>p. \<not> isDeletePair p) (flatChanges evts)"
  by (induction evts) (auto simp: isDeletePair_def filter_map comp_def case_prod_beta Let_def)

interpretation pending: change_buffer pendingStep pendingAbs "\<lambda>s. flatChanges (pendingNomadChanges s)" flatChanges isDeletePair
proof
  fix op s
  show "absStep isDeletePair (pendingAbs op) (flatChanges (pendingNomadChanges s)) =
    (flatChanges (fst (pendingStep op s)), flatChanges (pendingNomadChanges (snd (pendingStep op s))))"
    using splitDeletes_flat [of "pendingNomadChanges s"]
    by (cases op) (auto simp: recordPendingNomadChanges_def drainPendingNomadChanges_def drainPendingNomadDeletes_def case_prod_beta Let_def)
qed

lemma pendingRun_run: "pendingRun ops s = pending.run ops s"
  by (induction ops arbitrary: s) auto

text \<open>
  C32. The queue of pending changes refines a flat buffer: for every sequence of recording, draining
  all and draining the deletions, what the daemon's operations return and keep is what the
  specification returns and keeps, with the metadata of each change; so deletions, and likewise the
  other changes, leave the queue in the order they were recorded and none is lost or repeated.
\<close>

theorem pending_changes_refine:
  "absRun isDeletePair (map pendingAbs ops) (flatChanges (pendingNomadChanges s)) =
     (flatChanges (concat (fst (pendingRun ops s))), flatChanges (pendingNomadChanges (snd (pendingRun ops s))))
   \<and> filter isDeletePair (flatChanges (concat (fst (pendingRun ops s))) @ flatChanges (pendingNomadChanges (snd (pendingRun ops s))))
     = filter isDeletePair (flatChanges (pendingNomadChanges s) @ recordedBy (map pendingAbs ops))
   \<and> filter (\<lambda>p. \<not> isDeletePair p) (flatChanges (concat (fst (pendingRun ops s))) @ flatChanges (pendingNomadChanges (snd (pendingRun ops s))))
     = filter (\<lambda>p. \<not> isDeletePair p) (flatChanges (pendingNomadChanges s) @ recordedBy (map pendingAbs ops))"
proof -
  have "concat (map flatChanges es) = flatChanges (concat es)" for es by (induction es) auto
  then show ?thesis using pending.run_simulates [of ops s] pending.run_fifo [of ops s] unfolding pendingRun_run by simp
qed

section \<open>What is done to the cluster\<close>

definition isQuery :: "string list \<Rightarrow> bool" where
  "isQuery args = (take 2 args \<in> {[''job'', ''status''], [''job'', ''validate''], [''config'', ''validate'']})"

definition validateCmd :: "world \<Rightarrow> daemonConf \<Rightarrow> string \<Rightarrow> string list" where
  "validateCmd w c p = [''job'', ''validate''] @ validateExtra w c p @ [p]"

definition isRunOf :: "string \<Rightarrow> string list \<Rightarrow> bool" where
  "isRunOf p r = (take 2 r = [''job'', ''run''] \<and> last r = p)"

text \<open>The commands of one application: the run, with a purge of the same job before it (batch jobs) or after a failed run (change of type), which is then repeated.\<close>

definition applyBlocks :: "string \<Rightarrow> string list \<Rightarrow> string list list list" where
  "applyBlocks j r =
     [[r], [stopCmd j, r], [r, stopCmd j], [r, stopCmd j, r], [stopCmd j, r, stopCmd j], [stopCmd j, r, stopCmd j, r]]"

text \<open>
  The histories a safe deployment can reach: queries; stops of a job that no candidate repository
  defines, where the repository that asked for the deletion does not count; and applications of an
  existing file that Nomad accepted in the validation just before. \<open>D\<close> are the requested deletions.
\<close>

inductive deployTrace :: "world \<Rightarrow> daemonConf \<Rightarrow> (string \<times> string) set \<Rightarrow> string list list \<Rightarrow> string list list \<Rightarrow> bool" for w c D where
  dt_refl: "deployTrace w c D h h"
| dt_query: "deployTrace w c D h h' \<Longrightarrow> isQuery args \<Longrightarrow> deployTrace w c D h (h' @ [args])"
| dt_stop: "deployTrace w c D h h' \<Longrightarrow> FindJobDefinitionInRepos w j skip (candidateJobRepos c) = None \<Longrightarrow>
    skip = [] \<or> (skip, j) \<in> D \<Longrightarrow> deployTrace w c D h (h' @ [stopCmd j])"
| dt_apply: "deployTrace w c D h h' \<Longrightarrow> w_readFile w p \<noteq> None \<Longrightarrow> nr_ok (w_nomad w h' (validateCmd w c p)) \<Longrightarrow>
    isRunOf p r \<Longrightarrow> blk \<in> set (applyBlocks j r) \<Longrightarrow> deployTrace w c D h (h' @ [validateCmd w c p] @ blk)"

lemma deployTrace_trans:
  assumes "deployTrace w c D h1 h2" "deployTrace w c D h2 h3"
  shows "deployTrace w c D h1 h3"
  using assms(2,1) by (induction rule: deployTrace.induct) (blast intro: deployTrace.intros)+

lemma deployTrace_mono:
  assumes "deployTrace w c D h h'" "D \<subseteq> D'" shows "deployTrace w c D' h h'"
  using assms(1)
proof (induction rule: deployTrace.induct)
  case (dt_stop h h' j skip)
  then show ?case using assms(2) by (intro deployTrace.dt_stop [of w c D' h h' j skip]) auto
qed (blast intro: deployTrace.intros)+

lemma execNomad_sel [simp]:
  "fst (execNomad w args s) = w_nomad w (issued s) args" "issued (snd (execNomad w args s)) = issued s @ [args]"
  "pendingNomadChanges (snd (execNomad w args s)) = pendingNomadChanges s"
  by (simp_all add: execNomad_def)

lemma DispatchDeployEvent_sel [simp]:
  "issued (DispatchDeployEvent e s) = issued s" "pendingNomadChanges (DispatchDeployEvent e s) = pendingNomadChanges s"
  by (simp_all add: DispatchDeployEvent_def)

lemma handleType_sel:
  assumes "handleNomadJobTypeChange w j combined runArgs s = (res, s')"
  shows "pendingNomadChanges s' = pendingNomadChanges s"
    "issued s' = issued s @ (if res = None then [stopCmd j] else [stopCmd j, runArgs])"
  using assms by (auto simp: handleNomadJobTypeChange_def Let_def case_prod_beta split: if_splits)

lemma purgeBatch_sel:
  "pendingNomadChanges (purgeBatch w j r s) = pendingNomadChanges s"
  "issued (purgeBatch w j r s) = issued s \<or> issued (purgeBatch w j r s) = issued s @ [stopCmd j]"
  by (auto simp: purgeBatch_def)

lemma runWithRetry_sel:
  assumes "runWithRetry w j r s = (res, s')"
  shows "pendingNomadChanges s' = pendingNomadChanges s"
    "issued s' = issued s @ [r] \<or> issued s' = issued s @ [r, stopCmd j] \<or> issued s' = issued s @ [r, stopCmd j, r]"
proof -
  let ?s1 = "snd (execNomad w r s)" and ?out = "combinedOutput w (w_nomad w (issued s) r)"
  have "s' = ?s1 \<or> s' = snd (handleNomadJobTypeChange w j ?out r ?s1)"
    using assms by (auto simp: runWithRetry_def Let_def case_prod_beta split: if_splits option.splits prod.splits)
  then have "s' = ?s1 \<or> (\<exists>x. handleNomadJobTypeChange w j ?out r ?s1 = (x, s'))" by (metis prod.collapse)
  then show "pendingNomadChanges s' = pendingNomadChanges s"
    "issued s' = issued s @ [r] \<or> issued s' = issued s @ [r, stopCmd j] \<or> issued s' = issued s @ [r, stopCmd j, r]"
    using handleType_sel [of w j ?out r ?s1 _ s'] by (auto split: if_splits)
qed

lemma runNomadJobWithEvents_sel:
  assumes "runNomadJobWithEvents w evt runArgs s = (res, s')"
  shows "pendingNomadChanges s' = pendingNomadChanges s"
    "\<exists>blk\<in>set (applyBlocks (he_JobName evt) runArgs). issued s' = issued s @ blk"
proof -
  let ?j = "he_JobName evt"
  let ?s1 = "purgeBatch w ?j runArgs (DispatchDeployEvent (evt\<lparr>he_Event := ''deploy_started'', he_Status := ''started''\<rparr>) s)"
  obtain res' s2 where r: "runWithRetry w ?j runArgs ?s1 = (res', s2)" by fastforce
  have s': "pendingNomadChanges s' = pendingNomadChanges s2" "issued s' = issued s2"
    using assms r by (auto simp: runNomadJobWithEvents_def Let_def split: prod.splits)
  note p = purgeBatch_sel [of w ?j runArgs "DispatchDeployEvent (evt\<lparr>he_Event := ''deploy_started'', he_Status := ''started''\<rparr>) s"]
  show "pendingNomadChanges s' = pendingNomadChanges s" using runWithRetry_sel(1) [OF r] p(1) s' by simp
  show "\<exists>blk\<in>set (applyBlocks ?j runArgs). issued s' = issued s @ blk"
    using runWithRetry_sel(2) [OF r] p(2) s'(2) by (auto simp: applyBlocks_def)
qed

lemma ValidateNomadJob_eq: "ValidateNomadJob w c p s = (nr_ok (w_nomad w (issued s) (validateCmd w c p)), snd (execNomad w (validateCmd w c p) s))"
  by (simp add: ValidateNomadJob_def runNomadValidate_def validateCmd_def case_prod_beta Let_def)

lemma validateCmd_query: "isQuery (validateCmd w c p)"
  by (simp add: isQuery_def validateCmd_def)

lemma isRunOf_args: "isRunOf p (nomadJobRunArgs w c j p)" "isRunOf p (buildImageReadyNomadRunArgs spec p commit digest vf)"
  by (simp_all add: isRunOf_def nomadJobRunArgs_def buildImageReadyNomadRunArgs_def)

text \<open>One validated application is a step of the trace.\<close>

lemma validated_run:
  assumes "ValidateNomadJob w c p s = (True, s1)" "runNomadJobWithEvents w evt r s1 = (res, s2)"
    "w_readFile w p \<noteq> None" "isRunOf p r"
  shows "deployTrace w c D (issued s) (issued s2)" "pendingNomadChanges s2 = pendingNomadChanges s"
proof -
  have v: "nr_ok (w_nomad w (issued s) (validateCmd w c p))" "s1 = snd (execNomad w (validateCmd w c p) s)"
    using assms(1) by (simp_all add: ValidateNomadJob_eq)
  obtain blk where blk: "blk \<in> set (applyBlocks (he_JobName evt) r)" "issued s2 = issued s1 @ blk"
    using runNomadJobWithEvents_sel(2) [OF assms(2)] by blast
  then have "issued s2 = issued s @ [validateCmd w c p] @ blk" by (simp add: v(2))
  then show "deployTrace w c D (issued s) (issued s2)"
    using deployTrace.dt_apply [OF deployTrace.dt_refl assms(3) v(1) assms(4) blk(1)] by simp
  show "pendingNomadChanges s2 = pendingNomadChanges s" using runNomadJobWithEvents_sel(1) [OF assms(2)] by (simp add: v(2))
qed

lemma validate_step: "ValidateNomadJob w c p s = (b, s1) \<Longrightarrow> deployTrace w c D (issued s) (issued s1)
   \<and> pendingNomadChanges s1 = pendingNomadChanges s"
  using deployTrace.dt_query [OF deployTrace.dt_refl validateCmd_query] by (auto simp: ValidateNomadJob_eq)

lemma applyLoop_trace:
  assumes "\<forall>(ch, p)\<in>set items. w_readFile w p \<noteq> None"
  shows "deployTrace w c D (issued s) (issued (snd (snd (applyLoop w c f evt items applied s))))
    \<and> pendingNomadChanges (snd (snd (applyLoop w c f evt items applied s))) = pendingNomadChanges s"
  using assms
proof (induction items arbitrary: applied s)
  case Nil
  then show ?case by (simp add: deployTrace.dt_refl)
next
  case (Cons item items)
  obtain ch p where item: "item = (ch, p)" by fastforce
  have p: "w_readFile w p \<noteq> None" and rest: "\<forall>(ch, p)\<in>set items. w_readFile w p \<noteq> None" using Cons.prems by (auto simp: item)
  note IH = Cons.IH [OF rest]
  obtain valid s1 where v: "ValidateNomadJob w c p s = (valid, s1)" by fastforce
  obtain combined ok s2 where r: "runNomadJobWithEvents w (evt\<lparr>he_JobName := nc_JobName ch\<rparr>) (nomadJobRunArgs w c (nc_JobName ch) p) s1 = ((combined, ok), s2)"
    by (metis surj_pair)
  show ?case
  proof (cases valid)
    case False
    then show ?thesis using validate_step [OF v, of D] IH [of s1 applied] deployTrace_trans
      by (auto simp: item v)
  next
    case True
    then have v': "ValidateNomadJob w c p s = (True, s1)" using v by simp
    note run = validated_run(1) [OF v' r p isRunOf_args(1), of D] validated_run(2) [OF v' r p isRunOf_args(1)]
    have "snd (snd (applyLoop w c f evt (item # items) applied s)) = s2
      \<or> (\<exists>a. snd (snd (applyLoop w c f evt (item # items) applied s)) = snd (snd (applyLoop w c f evt items a s2)))"
      using True by (auto simp: item v r)
    then show ?thesis
    proof
      assume "\<exists>a. snd (snd (applyLoop w c f evt (item # items) applied s)) = snd (snd (applyLoop w c f evt items a s2))"
      then obtain a where a: "snd (snd (applyLoop w c f evt (item # items) applied s)) = snd (snd (applyLoop w c f evt items a s2))" by blast
      show ?thesis unfolding a using IH [of s2 a] deployTrace_trans [OF run(1)] run(2) by simp
    qed (simp add: run)
  qed
qed

lemma stopDeleted_pending [simp]: "pendingNomadChanges (stopDeletedNomadJob w c skip j s) = pendingNomadChanges s"
  by (simp add: stopDeletedNomadJob_def split: option.splits)

lemma stopDeleted_trace:
  assumes "skip = [] \<or> (skip, j) \<in> D"
  shows "deployTrace w c D (issued s) (issued (stopDeletedNomadJob w c skip j s))"
  using deployTrace.dt_stop [OF deployTrace.dt_refl _ assms]
  by (auto simp: stopDeletedNomadJob_def deployTrace.dt_refl split: option.splits)

lemma fold_trace:
  assumes "\<And>x s. x \<in> set xs \<Longrightarrow> deployTrace w c D (issued s) (issued (f x s)) \<and> pendingNomadChanges (f x s) = pendingNomadChanges s"
  shows "deployTrace w c D (issued s) (issued (fold f xs s)) \<and> pendingNomadChanges (fold f xs s) = pendingNomadChanges s"
  using assms
proof (induction xs arbitrary: s)
  case (Cons x xs)
  then show ?case using deployTrace_trans by (simp, metis (no_types, lifting))
qed (simp add: deployTrace.dt_refl)

lemma stopAll_trace:
  assumes "\<forall>ch\<in>set chs. (repoPath, nc_JobName ch) \<in> D"
  shows "deployTrace w c D (issued s) (issued (stopAll w c repoPath chs s))
    \<and> pendingNomadChanges (stopAll w c repoPath chs s) = pendingNomadChanges s"
  unfolding stopAll_def by (rule fold_trace) (use assms stopDeleted_trace in auto)

definition deletesIn :: "string \<Rightarrow> NomadFileChange list \<Rightarrow> (string \<times> string) set" where
  "deletesIn repoPath chs = (\<lambda>ch. (repoPath, nc_JobName ch)) ` {ch \<in> set chs. isDelete ch}"

definition deletesOf :: "NomadChangeEvent list \<Rightarrow> (string \<times> string) set" where
  "deletesOf evts = (\<Union>e\<in>set evts. deletesIn (ne_RepoPath e) (ne_Changes e))"

lemma sortChanges_props:
  assumes "sortChanges w c repoPath b cf chs = (dels, ready, deferred)"
  shows "set dels \<subseteq> {ch \<in> set chs. isDelete ch}" "\<forall>(ch, p)\<in>set ready. w_readFile w p \<noteq> None"
proof -
  have "set (fst (sortChanges w c repoPath b cf chs)) \<subseteq> {ch \<in> set chs. isDelete ch} \<and>
    (\<forall>(ch, p)\<in>set (fst (snd (sortChanges w c repoPath b cf chs))). w_readFile w p \<noteq> None)"
  proof (induction chs)
    case (Cons ch chs)
    obtain d r e where "sortChanges w c repoPath b cf chs = (d, r, e)" using prod_cases3 by blast
    then show ?case using Cons by (auto split: option.splits)
  qed simp
  then show "set dels \<subseteq> {ch \<in> set chs. isDelete ch}" "\<forall>(ch, p)\<in>set ready. w_readFile w p \<noteq> None" using assms by auto
qed

lemma applyDirectly_trace:
  assumes "applyNomadChangesDirectly w c repoPath changes f b cf ej meta s = (res, s')" "deletesIn repoPath changes \<subseteq> D"
  shows "deployTrace w c D (issued s) (issued s')"
    "deletesIn repoPath changes = {} \<Longrightarrow> pendingNomadChanges s' = pendingNomadChanges s"
proof -
  obtain repo commit targetID pr where meta: "parseNomadMeta meta = (repo, commit, targetID, pr)" using prod_cases4 by blast
  obtain dels ready deferred where sc: "sortChanges w c repoPath b cf (SortNomadChangesHangarLast changes) = (dels, ready, deferred)"
    using prod_cases3 by blast
  note props = sortChanges_props [OF sc]
  have sub: "set dels \<subseteq> {ch \<in> set changes. isDelete ch}" using props(1) by (auto simp: SortNomadChangesHangarLast_def)
  define s1 where "s1 = (if dels = [] then s
      else if deferred \<noteq> [] then recordPendingNomadChanges repoPath dels [repo, commit, targetID, itoa pr] s
      else stopAll w c repoPath dels s)"
  have "s' = snd (snd (applyLoop w c f (baseEvent repo commit pr targetID ej) ready [] s1))"
    using assms(1) unfolding applyNomadChangesDirectly_def meta sc prod.case Let_def s1_def [symmetric]
    by (auto split: prod.splits)
  then have s': "deployTrace w c D (issued s1) (issued s')" "pendingNomadChanges s' = pendingNomadChanges s1"
    using applyLoop_trace [OF props(2)] by simp_all
  have "\<forall>ch\<in>set dels. (repoPath, nc_JobName ch) \<in> D" using sub assms(2) by (auto simp: deletesIn_def)
  then have "deployTrace w c D (issued s) (issued s1)"
    using stopAll_trace [of dels repoPath D w c s] by (auto simp: s1_def recordPendingNomadChanges_def deployTrace.dt_refl)
  then show "deployTrace w c D (issued s) (issued s')" using s'(1) deployTrace_trans by blast
  assume "deletesIn repoPath changes = {}"
  then have "{ch \<in> set changes. isDelete ch} = {}" by (simp add: deletesIn_def)
  then have "dels = []" using sub by (metis set_empty subset_empty)
  then show "pendingNomadChanges s' = pendingNomadChanges s" using s'(2) by (simp add: s1_def)
qed

lemma reconcileNomadChanges_trace:
  assumes "deletesIn repoPath changes \<subseteq> D"
  shows "deployTrace w c D (issued s) (issued (snd (ReconcileNomadChanges w c repoPath changes meta s)))"
proof (cases "changes = []")
  case False
  obtain repo commit targetID pr where meta: "parseNomadMeta meta = (repo, commit, targetID, pr)" using prod_cases4 by blast
  obtain meta' where eq: "snd (ReconcileNomadChanges w c repoPath changes meta s) =
      snd (applyNomadChangesDirectly w c repoPath changes True False [] [] meta' s)"
    using False by (simp add: ReconcileNomadChanges_def meta case_prod_beta Let_def)
  show ?thesis unfolding eq using applyDirectly_trace(1) [OF _ assms] by (metis prod.collapse)
qed (simp add: ReconcileNomadChanges_def deployTrace.dt_refl)

lemma reconcileEvents_trace:
  "deletesOf evts \<subseteq> D \<Longrightarrow> deployTrace w c D (issued s) (issued (snd (reconcileEvents w c evts s)))"
proof (induction evts arbitrary: s)
  case (Cons e evts)
  let ?s1 = "snd (ReconcileNomadChanges w c (ne_RepoPath e) (ne_Changes e) [ne_Repo e, ne_CommitSHA e, ne_TargetID e, itoa (ne_PRNumber e)] s)"
  have "snd (reconcileEvents w c (e # evts) s) = snd (reconcileEvents w c evts ?s1)" by (simp add: case_prod_beta Let_def)
  moreover have "deployTrace w c D (issued s) (issued ?s1)"
    using Cons.prems by (intro reconcileNomadChanges_trace) (auto simp: deletesOf_def)
  moreover have "deployTrace w c D (issued ?s1) (issued (snd (reconcileEvents w c evts ?s1)))"
    using Cons by (auto simp: deletesOf_def)
  ultimately show ?case using deployTrace_trans by metis
qed (simp add: deployTrace.dt_refl)

lemma reconcilePending_trace:
  "deletesOf (pendingNomadChanges s) \<subseteq> D \<Longrightarrow> deployTrace w c D (issued s) (issued (snd (ReconcilePendingNomad w c s)))"
  using reconcileEvents_trace [of "pendingNomadChanges s" D w c "s\<lparr>pendingNomadChanges := []\<rparr>"]
  by (simp add: ReconcilePendingNomad_def drainPendingNomadChanges_def)

lemma splitDeletes_deletes:
  "deletesOf (fst (splitDeletes evts)) = deletesOf evts" "deletesOf (snd (splitDeletes evts)) = {}"
proof (induction evts)
  case (Cons e evts)
  { case 1 then show ?case using Cons by (auto simp: deletesOf_def deletesIn_def case_prod_beta Let_def filter_empty_conv) }
  { case 2 then show ?case using Cons by (auto simp: deletesOf_def deletesIn_def case_prod_beta Let_def filter_empty_conv) }
qed (simp_all add: deletesOf_def)

lemma teardown_trace:
  assumes "deletesOf evts \<subseteq> D"
  shows "deployTrace w c D (issued s) (issued (ExecuteNomadTeardowns w c evts s))
    \<and> pendingNomadChanges (ExecuteNomadTeardowns w c evts s) = pendingNomadChanges s"
  unfolding ExecuteNomadTeardowns_def
proof (rule fold_trace)
  fix e s assume "e \<in> set evts"
  then have "\<forall>ch\<in>set (filter isDelete (ne_Changes e)). (ne_RepoPath e, nc_JobName ch) \<in> D"
    using assms by (auto simp: deletesOf_def deletesIn_def)
  then show "deployTrace w c D (issued s) (issued (stopAll w c (ne_RepoPath e) (filter isDelete (ne_Changes e)) s))
    \<and> pendingNomadChanges (stopAll w c (ne_RepoPath e) (filter isDelete (ne_Changes e)) s) = pendingNomadChanges s"
    by (rule stopAll_trace)
qed

lemma sweep_trace:
  "deployTrace w c D (issued s) (issued (SweepOrphanedNomadJobs w c s))
   \<and> pendingNomadChanges (SweepOrphanedNomadJobs w c s) = pendingNomadChanges s"
proof -
  let ?s1 = "snd (execNomad w [''job'', ''status''] s)"
  let ?f = "\<lambda>jobID t. if jobID \<in> set (collectDefinedNomadJobs w c @ pendingJobNames s) then t else stopDeletedNomadJob w c [] jobID t"
  have status: "deployTrace w c D (issued s) (issued ?s1)"
    using deployTrace.dt_query [OF deployTrace.dt_refl] by (simp add: isQuery_def)
  have "deployTrace w c D (issued t) (issued (fold ?f js t)) \<and> pendingNomadChanges (fold ?f js t) = pendingNomadChanges t" for js t
    by (rule fold_trace) (use stopDeleted_trace [of "[]"] deployTrace.dt_refl in auto)
  note sweep = this [of ?s1 "ParseActiveNomadJobs (nr_out (w_nomad w (issued s) [''job'', ''status'']))"]
  show ?thesis using status sweep deployTrace_trans [OF status] deployTrace.dt_refl
    by (auto simp: SweepOrphanedNomadJobs_def Let_def case_prod_beta)
qed

lemma teardown_sweep_trace:
  assumes "drainPendingNomadDeletes s = (dels, s1)" "D = deletesOf (pendingNomadChanges s)"
  shows "deployTrace w c D (issued s) (issued (SweepOrphanedNomadJobs w c (ExecuteNomadTeardowns w c dels s1)))"
    "deletesOf (pendingNomadChanges (SweepOrphanedNomadJobs w c (ExecuteNomadTeardowns w c dels s1))) = {}"
proof -
  have d: "deletesOf dels = D" "deletesOf (pendingNomadChanges s1) = {}" "issued s1 = issued s"
    using assms splitDeletes_deletes [of "pendingNomadChanges s"] by (auto simp: drainPendingNomadDeletes_def case_prod_beta Let_def)
  note t = teardown_trace [of dels D w c s1] and sw = sweep_trace [of w c D "ExecuteNomadTeardowns w c dels s1"]
  show "deployTrace w c D (issued s) (issued (SweepOrphanedNomadJobs w c (ExecuteNomadTeardowns w c dels s1)))"
    using t sw d deployTrace_trans by (metis order_refl)
  show "deletesOf (pendingNomadChanges (SweepOrphanedNomadJobs w c (ExecuteNomadTeardowns w c dels s1))) = {}"
    using t sw d by simp
qed

lemma cycle_trace:
  "deployTrace w c (deletesOf (pendingNomadChanges s)) (issued s) (issued (executeDebouncedReconcileCycle w c proceed ready s))"
proof (cases proceed)
  case True
  let ?D = "deletesOf (pendingNomadChanges s)"
  obtain dels s1 where d: "drainPendingNomadDeletes s = (dels, s1)" by fastforce
  define s2 where "s2 = SweepOrphanedNomadJobs w c (ExecuteNomadTeardowns w c dels s1)"
  note t = teardown_sweep_trace [OF d refl, of w c, folded s2_def]
  define s3 where "s3 = s2\<lparr>pendingNomadServerRestart := False\<rparr>"
  obtain valid s4 where s4: "(if pendingNomadServerRestart s2 then reconcileNomadServer w (dc_composeDir c) s3 else (False, s3)) = (valid, s4)"
    by fastforce
  have "deployTrace w c ?D (issued s3) (issued s4) \<and> pendingNomadChanges s4 = pendingNomadChanges s3"
    using s4 deployTrace.dt_query [OF deployTrace.dt_refl] deployTrace.dt_refl
    by (auto simp: reconcileNomadServer_def runNomadValidate_def isQuery_def Let_def case_prod_beta split: if_splits)
  then have u: "deployTrace w c ?D (issued s) (issued s4)" "deletesOf (pendingNomadChanges s4) = {}"
    using t deployTrace_trans by (auto simp: s3_def)
  have "deployTrace w c ?D (issued s4) (issued (snd (ReconcilePendingNomad w c s4)))"
    by (rule reconcilePending_trace) (simp add: u(2))
  then have "deployTrace w c ?D (issued s) (issued (snd (ReconcilePendingNomad w c s4)))"
    using u(1) deployTrace_trans by blast
  then show ?thesis using u(1) True
    unfolding executeDebouncedReconcileCycle_def d Let_def prod.case s2_def [symmetric] consumePendingNomadServerRestart_def s3_def [symmetric] s4
    by simp
qed (simp add: executeDebouncedReconcileCycle_def deployTrace.dt_refl)

lemma applyImageReady_trace:
  "deployTrace w c D (issued s) (issued (snd (applyImageReadyToJob w c job req imgRef digest s)))
   \<and> pendingNomadChanges (snd (applyImageReadyToJob w c job req imgRef digest s)) = pendingNomadChanges s"
proof (cases "w_readFile w (mj_JobPath job)")
  case None
  then show ?thesis by (simp add: applyImageReadyToJob_def deployTrace.dt_refl)
next
  case (Some jobSpec)
  let ?s' = "snd (applyImageReadyToJob w c job req imgRef digest s)"
  obtain valid s1 where v: "ValidateNomadJob w c (mj_JobPath job) s = (valid, s1)" by fastforce
  have "?s' = s \<or> (\<not> valid \<and> ?s' = s1) \<or> (valid \<and> (\<exists>evt args res. isRunOf (mj_JobPath job) args \<and> runNomadJobWithEvents w evt args s1 = (res, ?s')))"
    using Some isRunOf_args(2) by (auto simp: applyImageReadyToJob_def v Let_def split: prod.splits)
  then show ?thesis
    using validate_step [OF v, of D] validated_run [of w c "mj_JobPath job" s s1] v Some
    by (auto simp: deployTrace.dt_refl)
qed

lemma rolloutLoop_trace:
  "deployTrace w c D (issued s) (issued (snd (snd (rolloutLoop w c req imgRef digest jobs s))))
   \<and> pendingNomadChanges (snd (snd (rolloutLoop w c req imgRef digest jobs s))) = pendingNomadChanges s"
proof (induction jobs arbitrary: s)
  case (Cons job jobs)
  let ?s1 = "snd (applyImageReadyToJob w c job req imgRef digest s)"
  have "snd (snd (rolloutLoop w c req imgRef digest (job # jobs) s)) = snd (snd (rolloutLoop w c req imgRef digest jobs ?s1))"
    by (auto simp: case_prod_beta Let_def split: option.splits)
  then show ?case using Cons.IH [of ?s1] applyImageReady_trace [of w c D s job req imgRef digest] deployTrace_trans by metis
qed (simp add: deployTrace.dt_refl)

lemma imageReady_trace:
  "deployTrace w c (deletesOf (pendingNomadChanges s)) (issued s) (issued (snd (ExecuteImageReadyEvent w c req s)))
   \<and> deletesOf (pendingNomadChanges (snd (ExecuteImageReadyEvent w c req s))) \<subseteq> deletesOf (pendingNomadChanges s)"
proof -
  let ?D = "deletesOf (pendingNomadChanges s)" and ?s' = "snd (ExecuteImageReadyEvent w c req s)"
  obtain dels s1 where d: "drainPendingNomadDeletes s = (dels, s1)" by fastforce
  define s2 where "s2 = SweepOrphanedNomadJobs w c (ExecuteNomadTeardowns w c dels s1)"
  note t = teardown_sweep_trace [OF d refl, of w c, folded s2_def]
  have "?s' = s \<or> (\<exists>req imgRef digest jobs. ?s' = snd (snd (rolloutLoop w c req imgRef digest jobs s2)))"
    by (auto simp: ExecuteImageReadyEvent_def Let_def d s2_def [symmetric] split: prod.splits) (metis snd_conv)+
  then show ?thesis
  proof
    assume "\<exists>req imgRef digest jobs. ?s' = snd (snd (rolloutLoop w c req imgRef digest jobs s2))"
    then obtain r i g js where eq: "?s' = snd (snd (rolloutLoop w c r i g js s2))" by blast
    show ?thesis unfolding eq using rolloutLoop_trace [of w c ?D s2 r i g js] t deployTrace_trans by auto
  qed (simp add: deployTrace.dt_refl)
qed

lemma rollouts_trace:
  "deletesOf (pendingNomadChanges s) \<subseteq> D \<Longrightarrow>
   deployTrace w c D (issued s) (issued (fold (\<lambda>req s. snd (ExecuteImageReadyEvent w c req s)) reqs s))"
proof (induction reqs arbitrary: s)
  case (Cons req reqs)
  let ?s1 = "snd (ExecuteImageReadyEvent w c req s)"
  have "deployTrace w c D (issued s) (issued ?s1)" using imageReady_trace [of w c s req] Cons.prems deployTrace_mono by blast
  moreover have "deletesOf (pendingNomadChanges ?s1) \<subseteq> D" using imageReady_trace [of w c s req] Cons.prems by blast
  ultimately show ?case using Cons.IH [of ?s1] deployTrace_trans [of w c D] by (simp add: fold_simps)
qed (simp add: deployTrace.dt_refl)


end
