(* ===== verification/HaroStore.thy ===== *)
theory HaroStore
  imports GoText
begin

text \<open>
  The store of the scheduler (\<^verbatim>\<open>services/haro/db.go\<close>) and its pure helpers
  (\<^verbatim>\<open>services/haro/pure.go\<close>): recurring, one-shot and heartbeat schedules, event triggers and the
  record of runs. A table is the list of its rows in insertion order with \<open>id\<close> as primary key; an
  operation is one SQL statement, and \<^verbatim>\<open>ORDER BY\<close> is a stable sort. Times are integers (Unix
  nanoseconds). Connection failures are not modelled, nor are the summary metrics (floating point).
\<close>

section \<open>Rows\<close>

record CronSchedule =
  cr_ID :: string
  cr_TargetID :: string
  cr_TitlePrefix :: string
  cr_CronExpr :: string
  cr_Prompt :: string
  cr_Timezone :: string
  cr_NextRunAt :: int
  cr_Enabled :: bool
  cr_CreatedAt :: int
  cr_Effort :: string

type_synonym HeartbeatSchedule = CronSchedule

record OneShotSchedule =
  os_ID :: string
  os_ThreadID :: string
  os_Prompt :: string
  os_RunAt :: int
  os_CreatedAt :: int
  os_Effort :: string

record EventTrigger =
  et_ID :: string
  et_ChannelID :: string
  et_Source :: string
  et_Target :: string
  et_EventType :: string
  et_Prompt :: string
  et_Effort :: string
  et_CreatedAt :: int
  et_Persistent :: bool

record ScheduleRun =
  sr_ID :: string
  sr_ScheduleID :: string
  sr_ScheduleType :: string
  sr_MessageID :: string
  sr_TargetID :: string
  sr_ThreadID :: string
  sr_Title :: string
  sr_Prompt :: string
  sr_Status :: string
  sr_StartedAt :: int
  sr_CompletedAt :: "int option"
  sr_DurationMs :: int
  sr_Error :: string
  sr_Effort :: string
  sr_Model :: string

record haroDB =
  cron_schedules :: "CronSchedule list"
  one_shot_schedules :: "OneShotSchedule list"
  heartbeat_schedules :: "HeartbeatSchedule list"
  event_triggers :: "EventTrigger list"
  schedule_runs :: "ScheduleRun list"

datatype haroErr =
    DuplicateKey
  | EmptyID
  | NotFound
  | InvalidEffort
  | InvalidSource
  | InvalidEventType
  | InvalidTarget
  | EmptyTarget
  | MissingField string
  | BadSchedule
  | BadTimezone
  | BadTime
  | TargetNotLive

text \<open>Go's zero time, the first of January of year 1.\<close>

definition zeroTime :: int where
  "zeroTime = - 62135596800000000000"

definition hourNs :: int where
  "hourNs = 3600000000000"

section \<open>Normalisation\<close>

definition isEffort :: "string \<Rightarrow> bool" where
  "isEffort e = (e = ''low'' \<or> e = ''medium'' \<or> e = ''high'')"

definition NormalizeEffort :: "string \<Rightarrow> (haroErr, string) result" where
  "NormalizeEffort effort =
     (let eff = toLower (trimSpace effort)
      in if eff = [] then Inr ''low'' else if isEffort eff then Inr eff else Inl InvalidEffort)"

definition normalizeScheduleEffort :: "string \<Rightarrow> string" where
  "normalizeScheduleEffort effort = (let eff = toLower (trimSpace effort) in if isEffort eff then eff else ''medium'')"

definition IsNumericSnowflake :: "string \<Rightarrow> bool" where
  "IsNumericSnowflake id0 = (let i = trimSpace id0 in i \<noteq> [] \<and> list_all isDigit i)"

definition IsScheduleStale :: "int \<Rightarrow> int \<Rightarrow> int \<Rightarrow> bool" where
  "IsScheduleStale scheduledAt now maxOverdue = (maxOverdue > 0 \<and> now - scheduledAt > maxOverdue)"

definition ShouldPruneRuns :: "int \<Rightarrow> int \<Rightarrow> int \<Rightarrow> bool" where
  "ShouldPruneRuns now lastPrune interval = (interval > 0 \<and> (lastPrune = zeroTime \<or> now - lastPrune \<ge> interval))"

definition FormatEventTriggerPrompt :: "string \<Rightarrow> string \<Rightarrow> string" where
  "FormatEventTriggerPrompt contextHeader prompt =
     (let header = trimSpace contextHeader; body = trimSpace prompt
      in if header = [] then body else if body = [] then header else header @ [CHR 0x0A, CHR 0x0A] @ body)"

section \<open>Event watch specifications\<close>

definition isLowerAlnum :: "char \<Rightarrow> bool" where
  "isLowerAlnum c = (let n = of_char c :: nat in 97 \<le> n \<and> n \<le> 122 \<or> isDigit c)"

definition isHexDigit :: "char \<Rightarrow> bool" where
  "isHexDigit c = (let n = of_char c :: nat in isDigit c \<or> 97 \<le> n \<and> n \<le> 102 \<or> 65 \<le> n \<and> n \<le> 70)"

text \<open>The regular expressions, as predicates on the whole text.\<close>

definition reVanadisBuild :: "string \<Rightarrow> bool" where
  "reVanadisBuild t = (hasPrefix t ''build-'' \<and> length t > 6 \<and> list_all (\<lambda>c. isLowerAlnum c \<or> c = CHR ''-'') (drop 6 t))"

definition reVanadisChunk :: "string \<Rightarrow> bool" where
  "reVanadisChunk t =
     (let digits = takeWhile isDigit (rev t); before = rev (dropWhile isDigit (rev t))
      in digits \<noteq> [] \<and> hasSuffix before ''-chunk-'' \<and> length before > 7 \<and> CHR 0x0A \<notin> set before)"

definition reAllDigits :: "string \<Rightarrow> bool" where
  "reAllDigits t = (t \<noteq> [] \<and> list_all isDigit t)"

definition reHexSHA :: "string \<Rightarrow> bool" where
  "reHexSHA t = (length t = 40 \<and> list_all isHexDigit t)"

definition reNomadJob :: "string \<Rightarrow> bool" where
  "reNomadJob t = (t \<noteq> [] \<and> isLowerAlnum (hd t) \<and> list_all (\<lambda>c. isLowerAlnum c \<or> c = CHR ''-'') (tl t))"

definition managedEventRepos :: "string list" where
  "managedEventRepos = [''azylman/aerial'', ''azylman/aerial-config'', ''azylman/aerial-sidecars'', ''azylman/mirrormere'']"

definition validateVanadisBuild :: "string \<Rightarrow> string \<Rightarrow> (haroErr, string) result" where
  "validateVanadisBuild target normEventType =
     guardErr (normEventType \<noteq> ''completed'' \<and> normEventType \<noteq> ''failed'') InvalidEventType (
     guardErr (\<not> reVanadisBuild target \<or> contains target ''-chunk-'') InvalidTarget (Inr target))"

definition validateVanadisChunk :: "string \<Rightarrow> string \<Rightarrow> (haroErr, string) result" where
  "validateVanadisChunk target normEventType =
     guardErr (normEventType \<noteq> ''merged'' \<and> normEventType \<noteq> ''failed'') InvalidEventType (
     guardErr (\<not> reVanadisChunk target) InvalidTarget (Inr target))"

definition withOwner :: "string \<Rightarrow> string" where
  "withOwner repo = (if \<not> contains repo ''/'' then ''azylman/'' @ repo else repo)"

definition validateHangar :: "string \<Rightarrow> string \<Rightarrow> (haroErr, string) result" where
  "validateHangar target normEventType =
     guardErr (normEventType \<noteq> ''sync_success'' \<and> normEventType \<noteq> ''sync_failed'') InvalidEventType (
     guardErr (withOwner target \<notin> set managedEventRepos) InvalidTarget (Inr (withOwner target)))"

definition cleanBranch :: "string \<Rightarrow> string" where
  "cleanBranch b = trimSpace (trimPrefix b ''refs/heads/'')"

definition validateGithub :: "string \<Rightarrow> string \<Rightarrow> (haroErr, string) result" where
  "validateGithub target normEventType =
     guardErr (normEventType \<noteq> ''pr_merged'' \<and> normEventType \<noteq> ''ci_passed'' \<and> normEventType \<noteq> ''ci_failed'') InvalidEventType (
     let repoPart = withOwner (case strCut target '':'' of Some (r, _) \<Rightarrow> r | None \<Rightarrow> target) in
     guardErr (repoPart \<notin> set managedEventRepos) InvalidTarget (
     case strCut target '':'' of
       None \<Rightarrow> Inr repoPart
     | Some (_, branch0) \<Rightarrow>
         let branchPart = cleanBranch branch0 in
         guardErr (branchPart = []) InvalidTarget (
         guardErr (hasPrefix branchPart ''#'' \<or> reAllDigits branchPart) InvalidTarget (
         guardErr (reHexSHA branchPart) InvalidTarget (Inr (repoPart @ '':'' @ branchPart))))))"

definition validateNomad :: "string \<Rightarrow> string \<Rightarrow> (haroErr, string) result" where
  "validateNomad target normEventType =
     guardErr (normEventType \<noteq> ''deploy_success'' \<and> normEventType \<noteq> ''deploy_failed'') InvalidEventType (
     guardErr (\<not> reNomadJob (toLower target)) InvalidTarget (Inr (toLower target)))"

definition ValidateEventWatchSpec :: "string \<Rightarrow> string \<Rightarrow> string \<Rightarrow> string list \<Rightarrow> (haroErr, string \<times> string \<times> string) result" where
  "ValidateEventWatchSpec source target eventType extraSources =
     (let normSource = toLower (trimSpace source); normEventType = toLower (trimSpace eventType); normTarget = trimSpace target in
      guardErr (normTarget = []) EmptyTarget (
      rbind (if normSource = ''vanadis_build'' then validateVanadisBuild normTarget normEventType
             else if normSource = ''vanadis_chunk'' then validateVanadisChunk normTarget normEventType
             else if normSource = ''hangar'' then validateHangar normTarget normEventType
             else if normSource = ''github'' then validateGithub normTarget normEventType
             else if normSource = ''nomad'' then validateNomad normTarget normEventType
             else guardErr (\<not> (normSource \<noteq> [] \<and> normSource \<in> set (map (\<lambda>e. toLower (trimSpace e)) extraSources))) InvalidSource (
                  guardErr (normEventType = []) InvalidEventType (Inr normTarget)))
        (\<lambda>t. Inr (normSource, t, normEventType))))"

section \<open>Statements on the tables\<close>

definition insertRow :: "('r \<Rightarrow> string) \<Rightarrow> 'r \<Rightarrow> 'r list \<Rightarrow> (haroErr, 'r list) result" where
  "insertRow key row rows = (if key row \<in> set (map key rows) then Inl DuplicateKey else Inr (rows @ [row]))"

text \<open>\<^verbatim>\<open>COALESCE(NULLIF(effort, ''), d)\<close>.\<close>

definition effortOr :: "string \<Rightarrow> string \<Rightarrow> string" where
  "effortOr d e = (if e = [] then d else e)"

definition InsertCronSchedule :: "int \<Rightarrow> CronSchedule \<Rightarrow> haroDB \<Rightarrow> (haroErr, haroDB) result" where
  "InsertCronSchedule now c db =
     (let c1 = c\<lparr>cr_CreatedAt := (if cr_CreatedAt c = zeroTime then now else cr_CreatedAt c),
                 cr_Timezone := (if cr_Timezone c = [] then ''America/Los_Angeles'' else cr_Timezone c),
                 cr_Effort := normalizeScheduleEffort (cr_Effort c)\<rparr>
      in rbind (insertRow cr_ID c1 (cron_schedules db)) (\<lambda>rows. Inr (db\<lparr>cron_schedules := rows\<rparr>)))"

definition InsertOneShotSchedule :: "int \<Rightarrow> OneShotSchedule \<Rightarrow> haroDB \<Rightarrow> (haroErr, haroDB) result" where
  "InsertOneShotSchedule now s db =
     (let s1 = s\<lparr>os_CreatedAt := (if os_CreatedAt s = zeroTime then now else os_CreatedAt s),
                 os_Effort := normalizeScheduleEffort (os_Effort s)\<rparr>
      in rbind (insertRow os_ID s1 (one_shot_schedules db)) (\<lambda>rows. Inr (db\<lparr>one_shot_schedules := rows\<rparr>)))"

definition InsertHeartbeatSchedule :: "int \<Rightarrow> HeartbeatSchedule \<Rightarrow> haroDB \<Rightarrow> (haroErr, haroDB) result" where
  "InsertHeartbeatSchedule now h db =
     (let h1 = h\<lparr>cr_CreatedAt := (if cr_CreatedAt h = zeroTime then now else cr_CreatedAt h),
                 cr_Timezone := (if cr_Timezone h = [] then ''UTC'' else cr_Timezone h),
                 cr_Effort := (case NormalizeEffort (cr_Effort h) of Inr e \<Rightarrow> e | Inl _ \<Rightarrow> ''low'')\<rparr>
      in rbind (insertRow cr_ID h1 (heartbeat_schedules db)) (\<lambda>rows. Inr (db\<lparr>heartbeat_schedules := rows\<rparr>)))"

definition ListCronSchedules :: "string \<Rightarrow> haroDB \<Rightarrow> CronSchedule list" where
  "ListCronSchedules targetID db =
     sort_key cr_CreatedAt (map (\<lambda>c. c\<lparr>cr_Effort := effortOr ''medium'' (cr_Effort c)\<rparr>)
       (filter (\<lambda>c. cr_Enabled c \<and> (targetID \<noteq> [] \<longrightarrow> cr_TargetID c = targetID)) (cron_schedules db)))"

definition ListOneShotSchedules :: "string \<Rightarrow> haroDB \<Rightarrow> OneShotSchedule list" where
  "ListOneShotSchedules targetID db =
     sort_key os_RunAt (map (\<lambda>s. s\<lparr>os_Effort := effortOr ''medium'' (os_Effort s)\<rparr>)
       (filter (\<lambda>s. targetID \<noteq> [] \<longrightarrow> os_ThreadID s = targetID) (one_shot_schedules db)))"

definition ListHeartbeatSchedules :: "string \<Rightarrow> haroDB \<Rightarrow> HeartbeatSchedule list" where
  "ListHeartbeatSchedules targetID db =
     sort_key cr_CreatedAt (map (\<lambda>c. c\<lparr>cr_Effort := effortOr ''low'' (cr_Effort c)\<rparr>)
       (filter (\<lambda>c. cr_Enabled c \<and> (targetID \<noteq> [] \<longrightarrow> cr_TargetID c = targetID)) (heartbeat_schedules db)))"

definition getScheduleByID :: "('r \<Rightarrow> string) \<Rightarrow> string \<Rightarrow> 'r list \<Rightarrow> (haroErr, 'r) result" where
  "getScheduleByID key id0 rows =
     (let i = trimSpace id0 in
      guardErr (i = []) EmptyID (case List.find (\<lambda>r. key r = i) rows of None \<Rightarrow> Inl NotFound | Some r \<Rightarrow> Inr r))"

definition GetCronSchedule :: "string \<Rightarrow> haroDB \<Rightarrow> (haroErr, CronSchedule) result" where
  "GetCronSchedule i db = rbind (getScheduleByID cr_ID i (cron_schedules db)) (\<lambda>c. Inr (c\<lparr>cr_Effort := effortOr ''medium'' (cr_Effort c)\<rparr>))"

definition GetOneShotSchedule :: "string \<Rightarrow> haroDB \<Rightarrow> (haroErr, OneShotSchedule) result" where
  "GetOneShotSchedule i db = rbind (getScheduleByID os_ID i (one_shot_schedules db)) (\<lambda>s. Inr (s\<lparr>os_Effort := effortOr ''medium'' (os_Effort s)\<rparr>))"

definition GetHeartbeatSchedule :: "string \<Rightarrow> haroDB \<Rightarrow> (haroErr, HeartbeatSchedule) result" where
  "GetHeartbeatSchedule i db = rbind (getScheduleByID cr_ID i (heartbeat_schedules db)) (\<lambda>c. Inr (c\<lparr>cr_Effort := effortOr ''low'' (cr_Effort c)\<rparr>))"

text \<open>An update of the rows with an id, which fails where there is none.\<close>

definition execScheduleUpdate :: "('r \<Rightarrow> string) \<Rightarrow> string \<Rightarrow> ('r \<Rightarrow> 'r) \<Rightarrow> 'r list \<Rightarrow> (haroErr, 'r list) result" where
  "execScheduleUpdate key id0 f rows =
     (let i = trimSpace id0 in
      guardErr (i = []) EmptyID (
      guardErr (i \<notin> set (map key rows)) NotFound (Inr (map (\<lambda>r. if key r = i then f r else r) rows))))"

definition UpdateHeartbeatSchedule :: "HeartbeatSchedule \<Rightarrow> haroDB \<Rightarrow> (haroErr, haroDB) result" where
  "UpdateHeartbeatSchedule h db =
     rbind (NormalizeEffort (cr_Effort h)) (\<lambda>effort.
     rbind (execScheduleUpdate cr_ID (cr_ID h)
              (\<lambda>r. r\<lparr>cr_TargetID := cr_TargetID h, cr_TitlePrefix := cr_TitlePrefix h, cr_CronExpr := cr_CronExpr h,
                     cr_Prompt := cr_Prompt h, cr_Timezone := cr_Timezone h, cr_Effort := effort,
                     cr_NextRunAt := cr_NextRunAt h, cr_Enabled := cr_Enabled h\<rparr>) (heartbeat_schedules db))
       (\<lambda>rows. Inr (db\<lparr>heartbeat_schedules := rows\<rparr>)))"

text \<open>An optional text field is set when it is given and not blank.\<close>

definition setField :: "string option \<Rightarrow> string \<Rightarrow> string" where
  "setField v old = (case v of Some s \<Rightarrow> if trimSpace s \<noteq> [] then trimSpace s else old | None \<Rightarrow> old)"

definition hasField :: "string option \<Rightarrow> bool" where
  "hasField v = (case v of Some s \<Rightarrow> trimSpace s \<noteq> [] | None \<Rightarrow> False)"

definition hasTime :: "int option \<Rightarrow> bool" where
  "hasTime v = (case v of Some t \<Rightarrow> t \<noteq> zeroTime | None \<Rightarrow> False)"

definition cronUpdate ::
  "string option \<Rightarrow> string option \<Rightarrow> string option \<Rightarrow> string option \<Rightarrow> string option \<Rightarrow> int option \<Rightarrow> CronSchedule \<Rightarrow> CronSchedule" where
  "cronUpdate effort cronExpr prompt titlePrefix timezone nextRunAt c =
     c\<lparr>cr_Effort := (case effort of Some e \<Rightarrow> normalizeScheduleEffort e | None \<Rightarrow> cr_Effort c),
       cr_CronExpr := setField cronExpr (cr_CronExpr c), cr_Prompt := setField prompt (cr_Prompt c),
       cr_TitlePrefix := (case titlePrefix of Some t \<Rightarrow> trimSpace t | None \<Rightarrow> cr_TitlePrefix c),
       cr_Timezone := setField timezone (cr_Timezone c),
       cr_NextRunAt := (case nextRunAt of Some t \<Rightarrow> if t \<noteq> zeroTime then t else cr_NextRunAt c | None \<Rightarrow> cr_NextRunAt c)\<rparr>"

definition UpdateCronSchedule ::
  "string \<Rightarrow> string option \<Rightarrow> string option \<Rightarrow> string option \<Rightarrow> string option \<Rightarrow> string option \<Rightarrow> int option \<Rightarrow> haroDB \<Rightarrow> (haroErr, haroDB) result" where
  "UpdateCronSchedule id0 effort cronExpr prompt titlePrefix timezone nextRunAt db =
     (let i = trimSpace id0 in
      guardErr (i = []) EmptyID (
      if effort = None \<and> \<not> hasField cronExpr \<and> \<not> hasField prompt \<and> titlePrefix = None \<and> \<not> hasField timezone \<and> \<not> hasTime nextRunAt
      then Inr db
      else guardErr (i \<notin> set (map cr_ID (cron_schedules db))) NotFound
             (Inr (db\<lparr>cron_schedules := map (\<lambda>c. if cr_ID c = i then cronUpdate effort cronExpr prompt titlePrefix timezone nextRunAt c else c)
                                       (cron_schedules db)\<rparr>))))"

definition DeleteSchedule :: "string \<Rightarrow> haroDB \<Rightarrow> bool \<times> haroDB" where
  "DeleteSchedule i db =
     (i \<in> set (map cr_ID (cron_schedules db)) \<or> i \<in> set (map os_ID (one_shot_schedules db))
        \<or> i \<in> set (map cr_ID (heartbeat_schedules db)) \<or> i \<in> set (map et_ID (event_triggers db)),
      db\<lparr>cron_schedules := filter (\<lambda>r. cr_ID r \<noteq> i) (cron_schedules db),
         one_shot_schedules := filter (\<lambda>r. os_ID r \<noteq> i) (one_shot_schedules db),
         heartbeat_schedules := filter (\<lambda>r. cr_ID r \<noteq> i) (heartbeat_schedules db),
         event_triggers := filter (\<lambda>r. et_ID r \<noteq> i) (event_triggers db)\<rparr>)"

definition isDueCron :: "int \<Rightarrow> CronSchedule \<Rightarrow> bool" where
  "isDueCron now c = (cr_Enabled c \<and> cr_NextRunAt c \<le> now)"

definition GetDueCronSchedules :: "int \<Rightarrow> haroDB \<Rightarrow> CronSchedule list" where
  "GetDueCronSchedules now db =
     sort_key cr_NextRunAt (map (\<lambda>c. c\<lparr>cr_Effort := effortOr ''medium'' (cr_Effort c)\<rparr>) (filter (isDueCron now) (cron_schedules db)))"

definition GetDueHeartbeatSchedules :: "int \<Rightarrow> haroDB \<Rightarrow> HeartbeatSchedule list" where
  "GetDueHeartbeatSchedules now db =
     sort_key cr_NextRunAt (map (\<lambda>c. c\<lparr>cr_Effort := effortOr ''low'' (cr_Effort c)\<rparr>) (filter (isDueCron now) (heartbeat_schedules db)))"

definition GetDueOneShotSchedules :: "int \<Rightarrow> haroDB \<Rightarrow> OneShotSchedule list" where
  "GetDueOneShotSchedules now db =
     sort_key os_RunAt (map (\<lambda>s. s\<lparr>os_Effort := effortOr ''medium'' (os_Effort s)\<rparr>) (filter (\<lambda>s. os_RunAt s \<le> now) (one_shot_schedules db)))"

definition AdvanceCronNextRun :: "string \<Rightarrow> int \<Rightarrow> haroDB \<Rightarrow> (haroErr, haroDB) result" where
  "AdvanceCronNextRun i nextRun db =
     rbind (execScheduleUpdate cr_ID i (\<lambda>r. r\<lparr>cr_NextRunAt := nextRun\<rparr>) (cron_schedules db)) (\<lambda>rows. Inr (db\<lparr>cron_schedules := rows\<rparr>))"

definition AdvanceHeartbeatNextRun :: "string \<Rightarrow> int \<Rightarrow> haroDB \<Rightarrow> (haroErr, haroDB) result" where
  "AdvanceHeartbeatNextRun i nextRun db =
     rbind (execScheduleUpdate cr_ID i (\<lambda>r. r\<lparr>cr_NextRunAt := nextRun\<rparr>) (heartbeat_schedules db)) (\<lambda>rows. Inr (db\<lparr>heartbeat_schedules := rows\<rparr>))"

definition deleteByID :: "('r \<Rightarrow> string) \<Rightarrow> string \<Rightarrow> 'r list \<Rightarrow> (haroErr, bool \<times> 'r list) result" where
  "deleteByID key id0 rows =
     (let i = trimSpace id0 in guardErr (i = []) EmptyID (Inr (i \<in> set (map key rows), filter (\<lambda>r. key r \<noteq> i) rows)))"

definition DeleteOneShotSchedule :: "string \<Rightarrow> haroDB \<Rightarrow> (haroErr, bool \<times> haroDB) result" where
  "DeleteOneShotSchedule i db =
     rbind (deleteByID os_ID i (one_shot_schedules db)) (\<lambda>(deleted, rows). Inr (deleted, db\<lparr>one_shot_schedules := rows\<rparr>))"

definition CreateScheduleRun :: "int \<Rightarrow> ScheduleRun \<Rightarrow> haroDB \<Rightarrow> (haroErr, haroDB) result" where
  "CreateScheduleRun now r db =
     guardErr (trimSpace (sr_ID r) = []) EmptyID (
     let r1 = r\<lparr>sr_StartedAt := (if sr_StartedAt r = zeroTime then now else sr_StartedAt r),
                sr_Effort := normalizeScheduleEffort (sr_Effort r)\<rparr>
     in rbind (insertRow sr_ID r1 (schedule_runs db)) (\<lambda>rows. Inr (db\<lparr>schedule_runs := rows\<rparr>)))"

text \<open>Whether a run comes before another in \<^verbatim>\<open>ORDER BY started_at DESC, id DESC\<close>; the order of ids is the database's.\<close>

definition runBefore :: "(string \<Rightarrow> string \<Rightarrow> bool) \<Rightarrow> ScheduleRun \<Rightarrow> ScheduleRun \<Rightarrow> bool" where
  "runBefore idLess q r = (sr_StartedAt q > sr_StartedAt r \<or> sr_StartedAt q = sr_StartedAt r \<and> idLess (sr_ID r) (sr_ID q))"

definition PruneScheduleRuns :: "(string \<Rightarrow> string \<Rightarrow> bool) \<Rightarrow> nat \<Rightarrow> int \<Rightarrow> int \<Rightarrow> haroDB \<Rightarrow> haroDB" where
  "PruneScheduleRuns idLess maxCount maxAge now db =
     (let runs = schedule_runs db; cutoff = now - maxAge
      in db\<lparr>schedule_runs := filter (\<lambda>r. \<not> (sr_StartedAt r < cutoff) \<and> length (filter (\<lambda>q. runBefore idLess q r) runs) < maxCount) runs\<rparr>)"

definition InsertEventTrigger :: "int \<Rightarrow> EventTrigger \<Rightarrow> haroDB \<Rightarrow> (haroErr, haroDB) result" where
  "InsertEventTrigger now t db =
     (let t1 = t\<lparr>et_CreatedAt := (if et_CreatedAt t = zeroTime then now else et_CreatedAt t),
                 et_Effort := (case NormalizeEffort (et_Effort t) of Inr e \<Rightarrow> e | Inl _ \<Rightarrow> ''medium'')\<rparr>
      in rbind (insertRow et_ID t1 (event_triggers db)) (\<lambda>rows. Inr (db\<lparr>event_triggers := rows\<rparr>)))"

definition readTrigger :: "EventTrigger \<Rightarrow> EventTrigger" where
  "readTrigger t = t\<lparr>et_Effort := effortOr ''medium'' (et_Effort t)\<rparr>"

definition ListEventTriggers :: "string \<Rightarrow> haroDB \<Rightarrow> EventTrigger list" where
  "ListEventTriggers channelID0 db =
     (let channelID = trimSpace channelID0
      in sort_key et_CreatedAt (map readTrigger (filter (\<lambda>t. channelID \<noteq> [] \<longrightarrow> et_ChannelID t = channelID) (event_triggers db))))"

definition buildEventTriggerFilterArgs :: "string \<Rightarrow> string list \<Rightarrow> string \<Rightarrow> (string \<times> string \<times> string list) option" where
  "buildEventTriggerFilterArgs source0 targets eventType0 =
     (let source = toLower (trimSpace source0); eventType = toLower (trimSpace eventType0);
          cleanTargets = rev (remdups (rev (filter (\<lambda>t. t \<noteq> []) (map trimSpace targets))))
      in if source = [] \<or> eventType = [] \<or> cleanTargets = [] then None else Some (source, eventType, cleanTargets))"

definition triggerMatches :: "string \<times> string \<times> string list \<Rightarrow> EventTrigger \<Rightarrow> bool" where
  "triggerMatches a t = (et_Source t = fst a \<and> et_EventType t = fst (snd a) \<and> et_Target t \<in> set (snd (snd a)))"

definition CheckEventTriggers :: "string \<Rightarrow> string list \<Rightarrow> string \<Rightarrow> haroDB \<Rightarrow> bool" where
  "CheckEventTriggers source targets eventType db =
     (case buildEventTriggerFilterArgs source targets eventType of
        None \<Rightarrow> False
      | Some a \<Rightarrow> list_ex (triggerMatches a) (event_triggers db))"

definition ClaimEventTriggers :: "string \<Rightarrow> string list \<Rightarrow> string \<Rightarrow> haroDB \<Rightarrow> EventTrigger list \<times> haroDB" where
  "ClaimEventTriggers source targets eventType db =
     (case buildEventTriggerFilterArgs source targets eventType of
        None \<Rightarrow> ([], db)
      | Some a \<Rightarrow>
          let deleted = filter (\<lambda>t. triggerMatches a t \<and> \<not> et_Persistent t) (event_triggers db);
              kept = filter (\<lambda>t. triggerMatches a t \<and> et_Persistent t) (event_triggers db)
          in (sort_key et_CreatedAt (map readTrigger (deleted @ kept)),
              db\<lparr>event_triggers := filter (\<lambda>t. \<not> (triggerMatches a t \<and> \<not> et_Persistent t)) (event_triggers db)\<rparr>))"

definition DeleteEventTrigger :: "string \<Rightarrow> haroDB \<Rightarrow> (haroErr, bool \<times> haroDB) result" where
  "DeleteEventTrigger i db =
     rbind (deleteByID et_ID i (event_triggers db)) (\<lambda>(deleted, rows). Inr (deleted, db\<lparr>event_triggers := rows\<rparr>))"

fun earliest :: "int list \<Rightarrow> int option \<Rightarrow> int option" where
  "earliest [] acc = acc"
| "earliest (t # ts) acc =
     earliest ts (if t \<noteq> zeroTime \<and> (case acc of None \<Rightarrow> True | Some a \<Rightarrow> t < a) then Some t else acc)"

definition findEarliestNextRun :: "CronSchedule list \<Rightarrow> HeartbeatSchedule list \<Rightarrow> OneShotSchedule list \<Rightarrow> int option" where
  "findEarliestNextRun crons heartbeats oneshots =
     earliest (map os_RunAt oneshots) (earliest (map cr_NextRunAt heartbeats) (earliest (map cr_NextRunAt crons) None))"

definition clampPage :: "int \<Rightarrow> int \<Rightarrow> int \<times> int" where
  "clampPage limit offset = (if limit \<le> 0 then 50 else if limit > 100 then 100 else limit, if offset < 0 then 0 else offset)"

text \<open>A page of runs; the effort and the model are not among the columns it reads.\<close>

definition GetScheduleRunsPaginated :: "int \<Rightarrow> int \<Rightarrow> string \<Rightarrow> string \<Rightarrow> haroDB \<Rightarrow> ScheduleRun list \<times> nat" where
  "GetScheduleRunsPaginated limit0 offset0 scheduleID0 status0 db =
     (let (limit, offset) = clampPage limit0 offset0; scheduleID = trimSpace scheduleID0; status = trimSpace status0;
          rows = filter (\<lambda>r. (scheduleID \<noteq> [] \<longrightarrow> sr_ScheduleID r = scheduleID)
                              \<and> (status \<noteq> [] \<longrightarrow> toLower (sr_Status r) = toLower status)) (schedule_runs db)
      in (map (\<lambda>r. r\<lparr>sr_Effort := [], sr_Model := []\<rparr>) (take (nat limit) (drop (nat offset) (sort_key (\<lambda>r. - sr_StartedAt r) rows))), length rows))"

end
