(* ===== verification/HaroTicker.thy ===== *)
theory HaroTicker
  imports HaroStore "HOL-Library.Word" "HOL-Library.Multiset"
begin

text \<open>
  The scheduler itself: the ticker that fires due schedules (\<^verbatim>\<open>services/haro/ticker.go\<close>), the tools
  that create, change and cancel them (\<^verbatim>\<open>services/haro/tools.go\<close>) and the HTTP handlers that create
  reminders and fire event watches (\<^verbatim>\<open>services/haro/server.go\<close>).

  What the code calls outside the repository is the record \<open>haroEnv\<close>: the cron library, the time zone
  database, the parser of absolute times, the id generator, the clock, the brain's answers and the
  state of Vanadis. Requests sent to the brain are appended to a log, each with the schedule it
  comes from and whether it succeeded. Requests arrive decoded; a body that does not decode is \<open>None\<close>.
\<close>

unbundle bit_operations_syntax

section \<open>Requests\<close>

record PromptDispatchRequest =
  pq_Prompt :: string
  pq_ChannelID :: string
  pq_SessionID :: string
  pq_Title :: string
  pq_MessageID :: string
  pq_Effort :: string
  pq_Silent :: bool
  pq_Ephemeral :: "bool option"
  pq_SkipIfActive :: bool

record PromptDispatchResponse =
  ps_Status :: string
  ps_ChannelID :: string
  ps_SessionID :: string
  ps_MessageID :: string

record DispatchRequest =
  dq_ID :: string
  dq_Source :: string
  dq_SessionID :: string
  dq_Prompt :: string
  dq_Effort :: string
  dq_SkipIfActive :: bool

record DispatchResponse =
  ds_Status :: string
  ds_DispatchID :: string
  ds_MessageID :: string
  ds_SessionID :: string

datatype brainRequest = BrainPrompt PromptDispatchRequest | BrainDispatch DispatchRequest

record dispatchLog =
  dl_Kind :: string
  dl_Schedule :: string
  dl_Request :: brainRequest
  dl_OK :: bool

record haroEnv =
  he_cronOk :: "string \<Rightarrow> bool"
  he_zoneOk :: "string \<Rightarrow> bool"
  he_next :: "string \<Rightarrow> string \<Rightarrow> int \<Rightarrow> int"
  he_parseDuration :: "string \<Rightarrow> int option"
  he_parseTime :: "string \<Rightarrow> string \<Rightarrow> int option"
  he_uuid :: "nat \<Rightarrow> string"
  he_idLess :: "string \<Rightarrow> string \<Rightarrow> bool"
  he_clock :: "dispatchLog list \<Rightarrow> int"
  he_prompt :: "dispatchLog list \<Rightarrow> PromptDispatchRequest \<Rightarrow> PromptDispatchResponse \<times> string option"
  he_dispatch :: "dispatchLog list \<Rightarrow> DispatchRequest \<Rightarrow> DispatchResponse \<times> string option"
  he_heartbeatPrompt :: "HeartbeatSchedule \<Rightarrow> string"
  he_vanadis :: "nat \<Rightarrow> string \<Rightarrow> string \<Rightarrow> string option"
  he_timezone :: string
  he_extraSources :: "string list"

record haroState =
  hs_db :: haroDB
  hs_sent :: "dispatchLog list"
  hs_lastPrune :: int
  hs_uuids :: nat

definition dayNs :: int where
  "dayNs = 24 * hourNs"

definition newUUID :: "haroEnv \<Rightarrow> haroState \<Rightarrow> string \<times> haroState" where
  "newUUID env s = (he_uuid env (hs_uuids s), s\<lparr>hs_uuids := hs_uuids s + 1\<rparr>)"

definition DispatchPrompt :: "haroEnv \<Rightarrow> string \<Rightarrow> string \<Rightarrow> PromptDispatchRequest \<Rightarrow> haroState
    \<Rightarrow> PromptDispatchResponse \<times> string option \<times> haroState" where
  "DispatchPrompt env kind schedule req s =
     (let (resp, dispErr) = he_prompt env (hs_sent s) req
      in (resp, dispErr, s\<lparr>hs_sent := hs_sent s @ [\<lparr>dl_Kind = kind, dl_Schedule = schedule, dl_Request = BrainPrompt req, dl_OK = (dispErr = None)\<rparr>]\<rparr>))"

definition Dispatch :: "haroEnv \<Rightarrow> string \<Rightarrow> string \<Rightarrow> DispatchRequest \<Rightarrow> haroState
    \<Rightarrow> DispatchResponse \<times> string option \<times> haroState" where
  "Dispatch env kind schedule req s =
     (let (resp, dispErr) = he_dispatch env (hs_sent s) req
      in (resp, dispErr, s\<lparr>hs_sent := hs_sent s @ [\<lparr>dl_Kind = kind, dl_Schedule = schedule, dl_Request = BrainDispatch req, dl_OK = (dispErr = None)\<rparr>]\<rparr>))"

section \<open>Times\<close>

definition CalculateNextCronRun :: "haroEnv \<Rightarrow> string \<Rightarrow> string \<Rightarrow> int \<Rightarrow> (haroErr, int) result" where
  "CalculateNextCronRun env cronExpr timezone from =
     guardErr (\<not> he_cronOk env cronExpr) BadSchedule (
     let tz = trimSpace timezone in
     guardErr (tz = []) BadTimezone (
     guardErr (\<not> he_zoneOk env tz) BadTimezone (Inr (he_next env cronExpr tz from))))"

definition CalculateNextRun :: "haroEnv \<Rightarrow> string \<Rightarrow> string \<Rightarrow> int \<Rightarrow> (haroErr, int) result" where
  "CalculateNextRun env cronExpr timezone from = CalculateNextCronRun env cronExpr timezone from"

definition resolveTimezone :: "string \<Rightarrow> string \<Rightarrow> string" where
  "resolveTimezone tz fallback =
     (if trimSpace tz \<noteq> [] then trimSpace tz
      else if trimSpace fallback \<noteq> [] then trimSpace fallback else ''America/Los_Angeles'')"

text \<open>The white space class of regular expressions.\<close>

definition reSpace :: "char \<Rightarrow> bool" where
  "reSpace c = (c \<in> {CHR 0x09, CHR 0x0A, CHR 0x0C, CHR 0x0D, CHR 0x20})"

definition relativeUnits :: "string list" where
  "relativeUnits = [''s'', ''sec'', ''secs'', ''second'', ''seconds'', ''m'', ''min'', ''mins'', ''minute'', ''minutes'',
     ''h'', ''hr'', ''hrs'', ''hour'', ''hours'', ''d'', ''day'', ''days'', ''w'', ''week'', ''weeks'']"

definition reRelative :: "string \<Rightarrow> (string \<times> string) option" where
  "reRelative t =
     (let digits = takeWhile isDigit t; unit = dropWhile reSpace (dropWhile isDigit t)
      in if digits \<noteq> [] \<and> unit \<in> set relativeUnits then Some (digits, unit) else None)"

text \<open>A \<^verbatim>\<open>time.Duration\<close> is a 64 bit integer, and the multiplications wrap around.\<close>

definition relativeDuration :: "64 word \<Rightarrow> string \<Rightarrow> 64 word" where
  "relativeDuration val unit =
     (if hasPrefix unit ''s'' then val * 1000000000
      else if hasPrefix unit ''m'' then val * 60000000000
      else if hasPrefix unit ''h'' then val * 3600000000000
      else if hasPrefix unit ''d'' then val * 24 * 3600000000000
      else if hasPrefix unit ''w'' then val * 7 * 24 * 3600000000000 else 0)"

definition ParseRunAtWithTimezone :: "haroEnv \<Rightarrow> string \<Rightarrow> string \<Rightarrow> int \<Rightarrow> (haroErr, int) result" where
  "ParseRunAtWithTimezone env input timezone now =
     (let raw = trimSpace input; tz = trimSpace timezone in
      guardErr (raw = []) BadTime (
      guardErr (tz = []) BadTimezone (
      guardErr (\<not> he_zoneOk env tz) BadTimezone (
      let lower = toLower raw in
      case reRelative lower of
        Some (digits, unit) \<Rightarrow>
          (case atoi digits of None \<Rightarrow> Inl BadTime | Some val \<Rightarrow> Inr (now + sint (relativeDuration (word_of_int val) unit)))
      | None \<Rightarrow>
          (case he_parseDuration env lower of
             Some d \<Rightarrow> Inr (now + d)
           | None \<Rightarrow> (case he_parseTime env raw tz of Some t \<Rightarrow> Inr t | None \<Rightarrow> Inl BadTime))))))"

section \<open>The ticker\<close>

text \<open>A run row is written on a best effort basis.\<close>

definition recordRun :: "int \<Rightarrow> ScheduleRun \<Rightarrow> haroState \<Rightarrow> haroState" where
  "recordRun now r s = (case CreateScheduleRun now r (hs_db s) of Inl _ \<Rightarrow> s | Inr db \<Rightarrow> s\<lparr>hs_db := db\<rparr>)"

text \<open>The run row of a stale schedule, and of a schedule whose prompt was sent.\<close>

definition staleRun :: "string \<Rightarrow> string \<Rightarrow> string \<Rightarrow> string \<Rightarrow> string \<Rightarrow> string \<Rightarrow> string \<Rightarrow> string \<Rightarrow> string \<Rightarrow> int \<Rightarrow> ScheduleRun" where
  "staleRun runID sid stype target thread title prompt errText effort now =
     \<lparr>sr_ID = runID, sr_ScheduleID = sid, sr_ScheduleType = stype, sr_MessageID = runID, sr_TargetID = target,
      sr_ThreadID = thread, sr_Title = title, sr_Prompt = prompt, sr_Status = ''failed'', sr_StartedAt = now,
      sr_CompletedAt = Some now, sr_DurationMs = 0, sr_Error = errText, sr_Effort = effort, sr_Model = []\<rparr>"

text \<open>\<^verbatim>\<open>Duration.Milliseconds\<close> truncates towards zero.\<close>

definition milliseconds :: "int \<Rightarrow> int" where
  "milliseconds d = (if d < 0 then - (- d div 1000000) else d div 1000000)"

definition sentRun :: "string \<Rightarrow> string \<Rightarrow> string \<Rightarrow> string \<Rightarrow> string \<Rightarrow> string \<Rightarrow> string \<Rightarrow> string \<Rightarrow> string option \<Rightarrow> string \<Rightarrow> int \<Rightarrow> int \<Rightarrow> ScheduleRun" where
  "sentRun runID sid stype msgID target thread title prompt dispErr effort now completedAt =
     \<lparr>sr_ID = runID, sr_ScheduleID = sid, sr_ScheduleType = stype, sr_MessageID = msgID, sr_TargetID = target,
      sr_ThreadID = thread, sr_Title = title, sr_Prompt = prompt,
      sr_Status = (case dispErr of None \<Rightarrow> ''completed'' | Some _ \<Rightarrow> ''failed''), sr_StartedAt = now,
      sr_CompletedAt = Some completedAt, sr_DurationMs = milliseconds (completedAt - now),
      sr_Error = (case dispErr of None \<Rightarrow> [] | Some e \<Rightarrow> e), sr_Effort = effort, sr_Model = []\<rparr>"

definition orElse :: "string \<Rightarrow> string \<Rightarrow> string" where
  "orElse a b = (if a = [] then b else a)"

definition promptRequest :: "string \<Rightarrow> string \<Rightarrow> string \<Rightarrow> string \<Rightarrow> string \<Rightarrow> PromptDispatchRequest" where
  "promptRequest prompt channel title messageID effort =
     \<lparr>pq_Prompt = prompt, pq_ChannelID = channel, pq_SessionID = [], pq_Title = title, pq_MessageID = messageID,
      pq_Effort = effort, pq_Silent = False, pq_Ephemeral = None, pq_SkipIfActive = False\<rparr>"

definition nextRunOrDay :: "haroEnv \<Rightarrow> CronSchedule \<Rightarrow> int \<Rightarrow> int" where
  "nextRunOrDay env c now =
     (case CalculateNextRun env (cr_CronExpr c) (cr_Timezone c) now of Inl _ \<Rightarrow> now + dayNs | Inr t \<Rightarrow> t)"

definition processDueCron :: "haroEnv \<Rightarrow> int \<Rightarrow> CronSchedule \<Rightarrow> haroState \<Rightarrow> haroState" where
  "processDueCron env now c s =
     (let nextRun = nextRunOrDay env c now; adv = AdvanceCronNextRun (cr_ID c) nextRun (hs_db s) in
      if IsScheduleStale (cr_NextRunAt c) now dayNs
      then let s1 = (case adv of Inl _ \<Rightarrow> s | Inr db \<Rightarrow> s\<lparr>hs_db := db\<rparr>); (runID, s2) = newUUID env s1
           in recordRun now (staleRun runID (cr_ID c) ''cron'' (cr_TargetID c) (cr_TargetID c) (cr_TitlePrefix c) (cr_Prompt c)
                ''stale schedule (>24h overdue)'' (cr_Effort c) now) s2
      else case adv of
        Inl _ \<Rightarrow> s
      | Inr db \<Rightarrow>
          let (runID, s1) = newUUID env (s\<lparr>hs_db := db\<rparr>);
              req = promptRequest (cr_Prompt c) (cr_TargetID c) (cr_TitlePrefix c) runID (cr_Effort c);
              (resp, dispErr, s2) = DispatchPrompt env ''cron'' (cr_ID c) req s1
          in recordRun now (sentRun runID (cr_ID c) ''cron'' (orElse (ps_MessageID resp) runID) (cr_TargetID c)
               (orElse (ps_ChannelID resp) (cr_TargetID c)) (cr_TitlePrefix c) (cr_Prompt c) dispErr (cr_Effort c) now
               (he_clock env (hs_sent s2))) s2)"

text \<open>A one-shot is claimed by deleting its row; the ticker whose statement deleted it goes on.\<close>

definition claimOneShot :: "string \<Rightarrow> haroState \<Rightarrow> haroState option" where
  "claimOneShot i s =
     (case DeleteOneShotSchedule i (hs_db s) of
        Inl _ \<Rightarrow> None
      | Inr (deleted, db) \<Rightarrow> if deleted then Some (s\<lparr>hs_db := db\<rparr>) else None)"

definition finishOneShot :: "haroEnv \<Rightarrow> int \<Rightarrow> OneShotSchedule \<Rightarrow> haroState \<Rightarrow> haroState" where
  "finishOneShot env now sc s =
     (let (runID, s1) = newUUID env s in
      if IsScheduleStale (os_RunAt sc) now dayNs
      then recordRun now (staleRun runID (os_ID sc) ''one_shot'' (os_ThreadID sc) (os_ThreadID sc) [] (os_Prompt sc)
             ''stale schedule (>24h overdue)'' (os_Effort sc) now) s1
      else let req = promptRequest (os_Prompt sc) (os_ThreadID sc) [] runID (os_Effort sc);
               (resp, dispErr, s2) = DispatchPrompt env ''one_shot'' (os_ID sc) req s1
           in recordRun now (sentRun runID (os_ID sc) ''one_shot'' (orElse (ps_MessageID resp) runID) (os_ThreadID sc)
                (orElse (ps_ChannelID resp) (os_ThreadID sc)) [] (os_Prompt sc) dispErr (os_Effort sc) now
                (he_clock env (hs_sent s2))) s2)"

definition processDueOneShot :: "haroEnv \<Rightarrow> int \<Rightarrow> OneShotSchedule \<Rightarrow> haroState \<Rightarrow> haroState" where
  "processDueOneShot env now sc s = (case claimOneShot (os_ID sc) s of None \<Rightarrow> s | Some s1 \<Rightarrow> finishOneShot env now sc s1)"

definition heartbeatSession :: "HeartbeatSchedule \<Rightarrow> string" where
  "heartbeatSession h = ''heartbeat-'' @ cr_ID h"

fun firstNonEmpty :: "string list \<Rightarrow> string" where
  "firstNonEmpty [] = []"
| "firstNonEmpty (v # vs) = (if trimSpace v \<noteq> [] then trimSpace v else firstNonEmpty vs)"

definition processDueHeartbeat :: "haroEnv \<Rightarrow> int \<Rightarrow> HeartbeatSchedule \<Rightarrow> haroState \<Rightarrow> haroState" where
  "processDueHeartbeat env now h s =
     (let nextRun = nextRunOrDay env h now; adv = AdvanceHeartbeatNextRun (cr_ID h) nextRun (hs_db s) in
      if IsScheduleStale (cr_NextRunAt h) now dayNs
      then let s1 = (case adv of Inl _ \<Rightarrow> s | Inr db \<Rightarrow> s\<lparr>hs_db := db\<rparr>); (runID, s2) = newUUID env s1
           in recordRun now (staleRun runID (cr_ID h) ''heartbeat'' (cr_TargetID h) (heartbeatSession h) (cr_TitlePrefix h) (cr_Prompt h)
                ''stale heartbeat (>24h overdue)'' (cr_Effort h) now) s2
      else case adv of
        Inl _ \<Rightarrow> s
      | Inr db \<Rightarrow>
          let (runID, s1) = newUUID env (s\<lparr>hs_db := db\<rparr>);
              req = \<lparr>dq_ID = runID, dq_Source = ''heartbeat'', dq_SessionID = heartbeatSession h, dq_Prompt = he_heartbeatPrompt env h,
                     dq_Effort = cr_Effort h, dq_SkipIfActive = True\<rparr>;
              (resp, dispErr, s2) = Dispatch env ''heartbeat'' (cr_ID h) req s1
          in if dispErr = None \<and> ds_Status resp = ''skipped_active'' then s2
             else recordRun now (sentRun runID (cr_ID h) ''heartbeat'' (firstNonEmpty [ds_DispatchID resp, ds_MessageID resp, runID])
                    (cr_TargetID h) (heartbeatSession h) (cr_TitlePrefix h) (cr_Prompt h) dispErr (cr_Effort h) now
                    (he_clock env (hs_sent s2))) s2)"

definition evaluateDueCronSchedules :: "haroEnv \<Rightarrow> int \<Rightarrow> haroState \<Rightarrow> haroState" where
  "evaluateDueCronSchedules env now s = fold (processDueCron env now) (GetDueCronSchedules now (hs_db s)) s"

definition evaluateDueOneShotSchedules :: "haroEnv \<Rightarrow> int \<Rightarrow> haroState \<Rightarrow> haroState" where
  "evaluateDueOneShotSchedules env now s = fold (processDueOneShot env now) (GetDueOneShotSchedules now (hs_db s)) s"

definition evaluateDueHeartbeatSchedules :: "haroEnv \<Rightarrow> int \<Rightarrow> haroState \<Rightarrow> haroState" where
  "evaluateDueHeartbeatSchedules env now s = fold (processDueHeartbeat env now) (GetDueHeartbeatSchedules now (hs_db s)) s"

definition EvaluateDueSchedules :: "haroEnv \<Rightarrow> int \<Rightarrow> haroState \<Rightarrow> haroState" where
  "EvaluateDueSchedules env now s =
     (let s1 = evaluateDueHeartbeatSchedules env now (evaluateDueOneShotSchedules env now (evaluateDueCronSchedules env now s))
      in if ShouldPruneRuns now (hs_lastPrune s1) dayNs
         then s1\<lparr>hs_lastPrune := now, hs_db := PruneScheduleRuns (he_idLess env) 1000 (30 * dayNs) now (hs_db s1)\<rparr>
         else s1)"

section \<open>Frame lemmas\<close>

text \<open>Everything of the database but the run rows.\<close>

definition scheduleTables :: "haroDB \<Rightarrow> CronSchedule list \<times> OneShotSchedule list \<times> HeartbeatSchedule list \<times> EventTrigger list" where
  "scheduleTables db = (cron_schedules db, one_shot_schedules db, heartbeat_schedules db, event_triggers db)"

definition goodID :: "string \<Rightarrow> bool" where
  "goodID i = (trimSpace i = i \<and> i \<noteq> [])"

text \<open>Primary keys, none blank or padded.\<close>

definition haroWf :: "haroDB \<Rightarrow> bool" where
  "haroWf db = (list_all goodID (map cr_ID (cron_schedules db) @ map os_ID (one_shot_schedules db) @ map cr_ID (heartbeat_schedules db))
     \<and> distinct (map cr_ID (cron_schedules db)) \<and> distinct (map os_ID (one_shot_schedules db))
     \<and> distinct (map cr_ID (heartbeat_schedules db)))"

fun requestCore :: "brainRequest \<Rightarrow> string \<times> string \<times> string" where
  "requestCore (BrainPrompt q) = (pq_ChannelID q, pq_Prompt q, pq_Effort q)"
| "requestCore (BrainDispatch q) = (dq_SessionID q, dq_Prompt q, dq_Effort q)"

text \<open>A log entry without its message id: the schedule, the addressee, the prompt and the effort.\<close>

definition logCore :: "dispatchLog \<Rightarrow> string \<times> string \<times> string \<times> string \<times> string" where
  "logCore l = (dl_Kind l, dl_Schedule l, requestCore (dl_Request l))"

definition cronLog :: "CronSchedule \<Rightarrow> string \<times> string \<times> string \<times> string \<times> string" where
  "cronLog c = (''cron'', cr_ID c, cr_TargetID c, cr_Prompt c, cr_Effort c)"

definition oneShotLog :: "OneShotSchedule \<Rightarrow> string \<times> string \<times> string \<times> string \<times> string" where
  "oneShotLog sc = (''one_shot'', os_ID sc, os_ThreadID sc, os_Prompt sc, os_Effort sc)"

definition heartbeatLog :: "haroEnv \<Rightarrow> HeartbeatSchedule \<Rightarrow> string \<times> string \<times> string \<times> string \<times> string" where
  "heartbeatLog env h = (''heartbeat'', cr_ID h, heartbeatSession h, he_heartbeatPrompt env h, cr_Effort h)"

abbreviation staleAt :: "int \<Rightarrow> int \<Rightarrow> bool" where
  "staleAt now t \<equiv> IsScheduleStale t now dayNs"

definition setNext :: "string \<Rightarrow> int \<Rightarrow> CronSchedule \<Rightarrow> CronSchedule" where
  "setNext i t r = (if cr_ID r = i then r\<lparr>cr_NextRunAt := t\<rparr> else r)"

lemma CreateScheduleRun_tables: "CreateScheduleRun now r db = Inr db' \<Longrightarrow> scheduleTables db' = scheduleTables db"
  by (auto simp: CreateScheduleRun_def insertRow_def guardErr_Inr rbind_Inr scheduleTables_def Let_def split: if_splits)

lemma recordRun_frame [simp]:
  "scheduleTables (hs_db (recordRun now r s)) = scheduleTables (hs_db s)" "hs_sent (recordRun now r s) = hs_sent s"
  "hs_lastPrune (recordRun now r s) = hs_lastPrune s" "hs_uuids (recordRun now r s) = hs_uuids s"
  by (auto simp: recordRun_def CreateScheduleRun_tables split: sum.split)

lemma newUUID_frame [simp]:
  "hs_db (snd (newUUID env s)) = hs_db s" "hs_sent (snd (newUUID env s)) = hs_sent s" "hs_lastPrune (snd (newUUID env s)) = hs_lastPrune s"
  by (simp_all add: newUUID_def)

lemma execScheduleUpdate_ok:
  "goodID i \<Longrightarrow> i \<in> set (map key rows) \<Longrightarrow> execScheduleUpdate key i f rows = Inr (map (\<lambda>r. if key r = i then f r else r) rows)"
  by (simp add: execScheduleUpdate_def goodID_def guardErr_def)

lemma AdvanceCron_ok:
  "goodID i \<Longrightarrow> i \<in> cr_ID ` set (cron_schedules db) \<Longrightarrow>
   AdvanceCronNextRun i t db = Inr (db\<lparr>cron_schedules := map (setNext i t) (cron_schedules db)\<rparr>)"
  by (simp add: AdvanceCronNextRun_def execScheduleUpdate_ok setNext_def [abs_def])

lemma AdvanceHeartbeat_ok:
  "goodID i \<Longrightarrow> i \<in> cr_ID ` set (heartbeat_schedules db) \<Longrightarrow>
   AdvanceHeartbeatNextRun i t db = Inr (db\<lparr>heartbeat_schedules := map (setNext i t) (heartbeat_schedules db)\<rparr>)"
  by (simp add: AdvanceHeartbeatNextRun_def execScheduleUpdate_ok setNext_def [abs_def])

section \<open>One due schedule\<close>

type_synonym scheduleRows = "CronSchedule list \<times> OneShotSchedule list \<times> HeartbeatSchedule list \<times> EventTrigger list"
type_synonym logEntry = "string \<times> string \<times> string \<times> string \<times> string"

abbreviation tablesOf :: "haroState \<Rightarrow> scheduleRows" where
  "tablesOf s \<equiv> scheduleTables (hs_db s)"

definition onCrons :: "(CronSchedule list \<Rightarrow> CronSchedule list) \<Rightarrow> scheduleRows \<Rightarrow> scheduleRows" where
  "onCrons f t = (f (fst t), snd t)"

definition onOneShots :: "(OneShotSchedule list \<Rightarrow> OneShotSchedule list) \<Rightarrow> scheduleRows \<Rightarrow> scheduleRows" where
  "onOneShots f t = (fst t, f (fst (snd t)), snd (snd t))"

definition onHeartbeats :: "(HeartbeatSchedule list \<Rightarrow> HeartbeatSchedule list) \<Rightarrow> scheduleRows \<Rightarrow> scheduleRows" where
  "onHeartbeats f t = (fst t, fst (snd t), f (fst (snd (snd t))), snd (snd (snd t)))"

lemmas on_tables = onCrons_def onOneShots_def onHeartbeats_def scheduleTables_def

lemma tables_sel [simp]:
  "fst (scheduleTables db) = cron_schedules db" "fst (snd (scheduleTables db)) = one_shot_schedules db"
  "fst (snd (snd (scheduleTables db))) = heartbeat_schedules db" "snd (snd (snd (scheduleTables db))) = event_triggers db"
  by (simp_all add: scheduleTables_def)

lemma tables_upd:
  "scheduleTables (db\<lparr>cron_schedules := f (cron_schedules db)\<rparr>) = onCrons f (scheduleTables db)"
  "scheduleTables (db\<lparr>one_shot_schedules := g (one_shot_schedules db)\<rparr>) = onOneShots g (scheduleTables db)"
  "scheduleTables (db\<lparr>heartbeat_schedules := f (heartbeat_schedules db)\<rparr>) = onHeartbeats f (scheduleTables db)"
  by (simp_all add: on_tables)

lemma on_sel [simp]:
  "fst (onCrons f t) = f (fst t)" "snd (onCrons f t) = snd t"
  "fst (onOneShots g t) = fst t" "fst (snd (onOneShots g t)) = g (fst (snd t))" "snd (snd (onOneShots g t)) = snd (snd t)"
  "fst (onHeartbeats f t) = fst t" "fst (snd (onHeartbeats f t)) = fst (snd t)"
  "fst (snd (snd (onHeartbeats f t))) = f (fst (snd (snd t)))" "snd (snd (snd (onHeartbeats f t))) = snd (snd (snd t))"
  by (simp_all add: on_tables)

lemma cron_step:
  fixes env :: haroEnv and now :: int
  assumes "goodID (cr_ID c)" "cr_ID c \<in> cr_ID ` set (cron_schedules (hs_db s))"
  defines "s' \<equiv> processDueCron env now c s"
  shows "tablesOf s' = onCrons (map (setNext (cr_ID c) (nextRunOrDay env c now))) (tablesOf s)"
    and "map logCore (hs_sent s') = map logCore (hs_sent s) @ (if staleAt now (cr_NextRunAt c) then [] else [cronLog c])"
    and "hs_lastPrune s' = hs_lastPrune s"
  unfolding s'_def processDueCron_def AdvanceCron_ok [OF assms(1,2)]
  by (simp_all add: Let_def newUUID_def DispatchPrompt_def promptRequest_def logCore_def cronLog_def tables_upd split: prod.splits)

lemma heartbeat_step:
  fixes env :: haroEnv and now :: int
  assumes "goodID (cr_ID h)" "cr_ID h \<in> cr_ID ` set (heartbeat_schedules (hs_db s))"
  defines "s' \<equiv> processDueHeartbeat env now h s"
  shows "tablesOf s' = onHeartbeats (map (setNext (cr_ID h) (nextRunOrDay env h now))) (tablesOf s)"
    and "map logCore (hs_sent s') = map logCore (hs_sent s) @ (if staleAt now (cr_NextRunAt h) then [] else [heartbeatLog env h])"
    and "hs_lastPrune s' = hs_lastPrune s"
  unfolding s'_def processDueHeartbeat_def AdvanceHeartbeat_ok [OF assms(1,2)]
  by (auto simp: Let_def newUUID_def Dispatch_def logCore_def heartbeatLog_def tables_upd split: prod.splits)

lemma claimOneShot_eq:
  "goodID i \<Longrightarrow> claimOneShot i s =
     (if i \<in> set (map os_ID (one_shot_schedules (hs_db s)))
      then Some (s\<lparr>hs_db := (hs_db s)\<lparr>one_shot_schedules := filter (\<lambda>r. os_ID r \<noteq> i) (one_shot_schedules (hs_db s))\<rparr>\<rparr>) else None)"
  by (simp add: claimOneShot_def DeleteOneShotSchedule_def deleteByID_def goodID_def guardErr_def)

lemma finishOneShot_effect:
  "scheduleTables (hs_db (finishOneShot env now sc s)) = scheduleTables (hs_db s)"
  "map logCore (hs_sent (finishOneShot env now sc s)) = map logCore (hs_sent s) @ (if staleAt now (os_RunAt sc) then [] else [oneShotLog sc])"
  "hs_lastPrune (finishOneShot env now sc s) = hs_lastPrune s"
  by (simp_all add: finishOneShot_def Let_def newUUID_def DispatchPrompt_def promptRequest_def logCore_def oneShotLog_def split: prod.splits)

lemma one_shot_step:
  fixes env :: haroEnv and now :: int
  assumes "goodID (os_ID sc)" "os_ID sc \<in> os_ID ` set (one_shot_schedules (hs_db s))"
  defines "s' \<equiv> processDueOneShot env now sc s"
  shows "tablesOf s' = onOneShots (filter (\<lambda>r. os_ID r \<noteq> os_ID sc)) (tablesOf s)"
    and "map logCore (hs_sent s') = map logCore (hs_sent s) @ (if staleAt now (os_RunAt sc) then [] else [oneShotLog sc])"
    and "hs_lastPrune s' = hs_lastPrune s"
  unfolding s'_def processDueOneShot_def claimOneShot_eq [OF assms(1)] using assms(2) by (simp_all add: finishOneShot_effect tables_upd)

section \<open>The loops of a tick\<close>

text \<open>
  What the loop over the due schedules of one kind relies on: processing a schedule that is still
  present changes the tables by its effect, logs its entry if there is one, and leaves the
  schedules with other keys present.
\<close>

locale due_loop =
  fixes key :: "'r \<Rightarrow> string" and process :: "'r \<Rightarrow> haroState \<Rightarrow> haroState" and present :: "'r \<Rightarrow> scheduleRows \<Rightarrow> bool"
    and effect :: "'r \<Rightarrow> scheduleRows \<Rightarrow> scheduleRows" and entry :: "'r \<Rightarrow> logEntry list"
  assumes process_tables: "present c (tablesOf s) \<Longrightarrow> tablesOf (process c s) = effect c (tablesOf s)"
    and process_log: "present c (tablesOf s) \<Longrightarrow> map logCore (hs_sent (process c s)) = map logCore (hs_sent s) @ entry c"
    and process_prune: "present c (tablesOf s) \<Longrightarrow> hs_lastPrune (process c s) = hs_lastPrune s"
    and effect_present: "present d t \<Longrightarrow> key d \<noteq> key c \<Longrightarrow> present d (effect c t)"
begin

lemma loop_effect:
  "distinct (map key cs) \<Longrightarrow> \<forall>c\<in>set cs. present c (tablesOf s) \<Longrightarrow>
   tablesOf (fold process cs s) = fold effect cs (tablesOf s)
   \<and> map logCore (hs_sent (fold process cs s)) = map logCore (hs_sent s) @ concat (map entry cs)
   \<and> hs_lastPrune (fold process cs s) = hs_lastPrune s"
proof (induction cs arbitrary: s)
  case (Cons c cs)
  have c: "present c (tablesOf s)" using Cons.prems by simp
  have "\<forall>d\<in>set cs. present d (tablesOf (process c s))"
    unfolding process_tables [OF c] using Cons.prems by (auto intro!: effect_present simp: image_iff)
  with Cons.IH [of "process c s"] Cons.prems(1) show ?case
    by (simp add: process_tables [OF c] process_log [OF c] process_prune [OF c])
qed simp

end

definition entryIf :: "bool \<Rightarrow> 'a \<Rightarrow> 'a list" where
  "entryIf stale x = (if stale then [] else [x])"

lemma concat_entryIf: "concat (map (\<lambda>c. entryIf (p c) (f c)) cs) = map f (filter (\<lambda>c. \<not> p c) cs)"
  by (induction cs) (auto simp: entryIf_def)

lemma fold_on_tables:
  "fold (\<lambda>c. onCrons (f c)) cs t = onCrons (fold f cs) t"
  "fold (\<lambda>c. onOneShots (g c)) xs t = onOneShots (fold g xs) t"
  "fold (\<lambda>c. onHeartbeats (f c)) cs t = onHeartbeats (fold f cs) t"
proof -
  show "fold (\<lambda>c. onCrons (f c)) cs t = onCrons (fold f cs) t" by (induction cs arbitrary: t) (simp_all add: on_tables)
  show "fold (\<lambda>c. onOneShots (g c)) xs t = onOneShots (fold g xs) t" by (induction xs arbitrary: t) (simp_all add: on_tables)
  show "fold (\<lambda>c. onHeartbeats (f c)) cs t = onHeartbeats (fold f cs) t" by (induction cs arbitrary: t) (simp_all add: on_tables)
qed

lemma setNext_id [simp]: "cr_ID (setNext i t r) = cr_ID r"
  by (simp add: setNext_def)

interpretation cron_due: due_loop cr_ID "processDueCron env now" "\<lambda>c t. goodID (cr_ID c) \<and> cr_ID c \<in> cr_ID ` set (fst t)"
  "\<lambda>c. onCrons (map (setNext (cr_ID c) (nextRunOrDay env c now)))" "\<lambda>c. entryIf (staleAt now (cr_NextRunAt c)) (cronLog c)" for env now
  by unfold_locales (simp_all add: cron_step entryIf_def image_image)

interpretation heartbeat_due: due_loop cr_ID "processDueHeartbeat env now" "\<lambda>c t. goodID (cr_ID c) \<and> cr_ID c \<in> cr_ID ` set (fst (snd (snd t)))"
  "\<lambda>c. onHeartbeats (map (setNext (cr_ID c) (nextRunOrDay env c now)))" "\<lambda>c. entryIf (staleAt now (cr_NextRunAt c)) (heartbeatLog env c)" for env now
  by unfold_locales (simp_all add: heartbeat_step entryIf_def image_image)

interpretation one_shot_due: due_loop os_ID "processDueOneShot env now" "\<lambda>c t. goodID (os_ID c) \<and> os_ID c \<in> os_ID ` set (fst (snd t))"
  "\<lambda>c. onOneShots (filter (\<lambda>r. os_ID r \<noteq> os_ID c))" "\<lambda>c. entryIf (staleAt now (os_RunAt c)) (oneShotLog c)" for env now
  by unfold_locales (use one_shot_step in \<open>auto simp: entryIf_def\<close>)

text \<open>What the folds of the effects come to.\<close>

lemma setNext_fold:
  "\<forall>c\<in>set cs. N (cr_ID c) = t c \<Longrightarrow>
   fold (\<lambda>c. map (setNext (cr_ID c) (t c))) cs rows = map (\<lambda>r. if cr_ID r \<in> cr_ID ` set cs then r\<lparr>cr_NextRunAt := N (cr_ID r)\<rparr> else r) rows"
proof (induction cs arbitrary: rows)
  case (Cons c cs)
  then show ?case by (auto simp: setNext_def)
qed simp

lemma delete_fold: "fold (\<lambda>c. filter (\<lambda>r. key r \<noteq> key c)) cs rows = filter (\<lambda>r. key r \<notin> key ` set cs) rows"
  by (induction cs arbitrary: rows) (auto intro: filter_cong)

section \<open>A tick\<close>

definition dueLog :: "haroEnv \<Rightarrow> int \<Rightarrow> haroDB \<Rightarrow> logEntry list" where
  "dueLog env now db =
     map cronLog (filter (\<lambda>c. \<not> staleAt now (cr_NextRunAt c)) (GetDueCronSchedules now db))
     @ map oneShotLog (filter (\<lambda>c. \<not> staleAt now (os_RunAt c)) (GetDueOneShotSchedules now db))
     @ map (heartbeatLog env) (filter (\<lambda>c. \<not> staleAt now (cr_NextRunAt c)) (GetDueHeartbeatSchedules now db))"

definition advanceDue :: "haroEnv \<Rightarrow> int \<Rightarrow> CronSchedule \<Rightarrow> CronSchedule" where
  "advanceDue env now c = (if isDueCron now c then c\<lparr>cr_NextRunAt := nextRunOrDay env c now\<rparr> else c)"

lemma nextRunOrDay_effort [simp]: "nextRunOrDay env (c\<lparr>cr_Effort := e\<rparr>) now = nextRunOrDay env c now"
  by (simp add: nextRunOrDay_def)

lemma distinct_sort_filter:
  assumes "distinct (map key rows)" "\<And>r. key (g r) = key r"
  shows "distinct (map key (sort_key f (map g (filter P rows))))"
proof -
  have "distinct (map key (map g (filter P rows)))" using assms by (simp add: comp_def distinct_map_filter)
  moreover have "distinct (map key xs) \<Longrightarrow> distinct (map key (sort_key f xs))" for xs by (simp add: distinct_map)
  ultimately show ?thesis by blast
qed

lemma find_key: "distinct (map key rows) \<Longrightarrow> r \<in> set rows \<Longrightarrow> List.find (\<lambda>q. key q = key r) rows = Some r"
  by (induction rows) (auto simp: rev_image_eqI)

text \<open>Folding the advances of the due rows over a table with distinct keys advances exactly them.\<close>

lemma advance_fold:
  assumes "distinct (map cr_ID rows)"
  shows "fold (\<lambda>c. map (setNext (cr_ID c) (nextRunOrDay env c now)))
           (sort_key f (map (\<lambda>c. c\<lparr>cr_Effort := e c\<rparr>) (filter (isDueCron now) rows))) rows = map (advanceDue env now) rows"
    (is "fold _ ?due _ = _")
proof -
  let ?N = "\<lambda>i. case List.find (\<lambda>q. cr_ID q = i) rows of Some q \<Rightarrow> nextRunOrDay env q now | None \<Rightarrow> 0"
  have N: "?N (cr_ID r) = nextRunOrDay env r now" if "r \<in> set rows" for r
    using find_key [OF assms that] by simp
  then have "\<forall>c\<in>set ?due. ?N (cr_ID c) = nextRunOrDay env c now" by auto
  note setNext_fold [OF this, of rows]
  moreover have "cr_ID r \<in> cr_ID ` set ?due \<longleftrightarrow> isDueCron now r" if "r \<in> set rows" for r
    using that assms by (auto simp: image_image image_iff distinct_map dest: inj_onD)
  ultimately show ?thesis using N by (auto simp: advanceDue_def)
qed

lemma delete_due:
  assumes "distinct (map os_ID rows)"
  shows "fold (\<lambda>c. filter (\<lambda>r. os_ID r \<noteq> os_ID c)) (sort_key f (map (\<lambda>c. c\<lparr>os_Effort := e c\<rparr>) (filter P rows))) rows = filter (\<lambda>r. \<not> P r) rows"
  unfolding delete_fold [of os_ID] using assms
  by (intro filter_cong) (auto simp: image_image image_iff distinct_map dest: inj_onD)

lemma PruneScheduleRuns_tables [simp]: "scheduleTables (PruneScheduleRuns l n a now db) = scheduleTables db"
  by (simp add: PruneScheduleRuns_def Let_def scheduleTables_def)

lemma due_tables:
  "scheduleTables db = scheduleTables db' \<Longrightarrow> GetDueCronSchedules now db = GetDueCronSchedules now db'"
  "scheduleTables db = scheduleTables db' \<Longrightarrow> GetDueOneShotSchedules now db = GetDueOneShotSchedules now db'"
  "scheduleTables db = scheduleTables db' \<Longrightarrow> GetDueHeartbeatSchedules now db = GetDueHeartbeatSchedules now db'"
  by (simp_all add: scheduleTables_def GetDueCronSchedules_def GetDueOneShotSchedules_def GetDueHeartbeatSchedules_def)

lemma tick_crons:
  assumes "haroWf (hs_db s)"
  shows "tablesOf (evaluateDueCronSchedules env now s) = onCrons (map (advanceDue env now)) (tablesOf s)"
    and "map logCore (hs_sent (evaluateDueCronSchedules env now s)) = map logCore (hs_sent s)
           @ map cronLog (filter (\<lambda>c. \<not> staleAt now (cr_NextRunAt c)) (GetDueCronSchedules now (hs_db s)))"
proof -
  let ?due = "GetDueCronSchedules now (hs_db s)"
  have d: "distinct (map cr_ID (cron_schedules (hs_db s)))" "\<forall>c\<in>set (cron_schedules (hs_db s)). goodID (cr_ID c)"
    using assms by (auto simp: haroWf_def list_all_iff)
  have "distinct (map cr_ID ?due)" unfolding GetDueCronSchedules_def by (rule distinct_sort_filter [OF d(1)]) simp
  moreover have "\<forall>c\<in>set ?due. goodID (cr_ID c) \<and> cr_ID c \<in> cr_ID ` set (fst (tablesOf s))"
    using d(2) by (auto simp: GetDueCronSchedules_def)
  ultimately have "tablesOf (evaluateDueCronSchedules env now s) =
        onCrons (fold (\<lambda>c. map (setNext (cr_ID c) (nextRunOrDay env c now))) ?due) (tablesOf s)"
      "map logCore (hs_sent (evaluateDueCronSchedules env now s)) = map logCore (hs_sent s)
         @ map cronLog (filter (\<lambda>c. \<not> staleAt now (cr_NextRunAt c)) ?due)"
    using cron_due.loop_effect [of ?due s env now] by (simp_all add: evaluateDueCronSchedules_def fold_on_tables concat_entryIf)
  then show "tablesOf (evaluateDueCronSchedules env now s) = onCrons (map (advanceDue env now)) (tablesOf s)"
    "map logCore (hs_sent (evaluateDueCronSchedules env now s)) = map logCore (hs_sent s)
       @ map cronLog (filter (\<lambda>c. \<not> staleAt now (cr_NextRunAt c)) ?due)"
    unfolding GetDueCronSchedules_def by (simp_all add: on_tables advance_fold [OF d(1)])
qed

lemma tick_heartbeats:
  assumes "haroWf (hs_db s)"
  shows "tablesOf (evaluateDueHeartbeatSchedules env now s) = onHeartbeats (map (advanceDue env now)) (tablesOf s)"
    and "map logCore (hs_sent (evaluateDueHeartbeatSchedules env now s)) = map logCore (hs_sent s)
           @ map (heartbeatLog env) (filter (\<lambda>c. \<not> staleAt now (cr_NextRunAt c)) (GetDueHeartbeatSchedules now (hs_db s)))"
proof -
  let ?due = "GetDueHeartbeatSchedules now (hs_db s)"
  have d: "distinct (map cr_ID (heartbeat_schedules (hs_db s)))" "\<forall>c\<in>set (heartbeat_schedules (hs_db s)). goodID (cr_ID c)"
    using assms by (auto simp: haroWf_def list_all_iff)
  have "distinct (map cr_ID ?due)" unfolding GetDueHeartbeatSchedules_def by (rule distinct_sort_filter [OF d(1)]) simp
  moreover have "\<forall>c\<in>set ?due. goodID (cr_ID c) \<and> cr_ID c \<in> cr_ID ` set (fst (snd (snd (tablesOf s))))"
    using d(2) by (auto simp: GetDueHeartbeatSchedules_def)
  ultimately have "tablesOf (evaluateDueHeartbeatSchedules env now s) =
        onHeartbeats (fold (\<lambda>c. map (setNext (cr_ID c) (nextRunOrDay env c now))) ?due) (tablesOf s)"
      "map logCore (hs_sent (evaluateDueHeartbeatSchedules env now s)) = map logCore (hs_sent s)
         @ map (heartbeatLog env) (filter (\<lambda>c. \<not> staleAt now (cr_NextRunAt c)) ?due)"
    using heartbeat_due.loop_effect [of ?due s env now] by (simp_all add: evaluateDueHeartbeatSchedules_def fold_on_tables concat_entryIf)
  then show "tablesOf (evaluateDueHeartbeatSchedules env now s) = onHeartbeats (map (advanceDue env now)) (tablesOf s)"
    "map logCore (hs_sent (evaluateDueHeartbeatSchedules env now s)) = map logCore (hs_sent s)
       @ map (heartbeatLog env) (filter (\<lambda>c. \<not> staleAt now (cr_NextRunAt c)) ?due)"
    unfolding GetDueHeartbeatSchedules_def by (simp_all add: on_tables advance_fold [OF d(1)])
qed

lemma tick_one_shots:
  assumes "haroWf (hs_db s)"
  shows "tablesOf (evaluateDueOneShotSchedules env now s) = onOneShots (filter (\<lambda>r. \<not> os_RunAt r \<le> now)) (tablesOf s)"
    and "map logCore (hs_sent (evaluateDueOneShotSchedules env now s)) = map logCore (hs_sent s)
           @ map oneShotLog (filter (\<lambda>c. \<not> staleAt now (os_RunAt c)) (GetDueOneShotSchedules now (hs_db s)))"
proof -
  let ?due = "GetDueOneShotSchedules now (hs_db s)"
  have d: "distinct (map os_ID (one_shot_schedules (hs_db s)))" "\<forall>c\<in>set (one_shot_schedules (hs_db s)). goodID (os_ID c)"
    using assms by (auto simp: haroWf_def list_all_iff)
  have "distinct (map os_ID ?due)" unfolding GetDueOneShotSchedules_def by (rule distinct_sort_filter [OF d(1)]) simp
  moreover have "\<forall>c\<in>set ?due. goodID (os_ID c) \<and> os_ID c \<in> os_ID ` set (fst (snd (tablesOf s)))"
    using d(2) by (auto simp: GetDueOneShotSchedules_def)
  ultimately have "tablesOf (evaluateDueOneShotSchedules env now s) =
        onOneShots (fold (\<lambda>c. filter (\<lambda>r. os_ID r \<noteq> os_ID c)) ?due) (tablesOf s)"
      "map logCore (hs_sent (evaluateDueOneShotSchedules env now s)) = map logCore (hs_sent s)
         @ map oneShotLog (filter (\<lambda>c. \<not> staleAt now (os_RunAt c)) ?due)"
    using one_shot_due.loop_effect [of ?due s env now] by (simp_all add: evaluateDueOneShotSchedules_def fold_on_tables concat_entryIf)
  then show "tablesOf (evaluateDueOneShotSchedules env now s) = onOneShots (filter (\<lambda>r. \<not> os_RunAt r \<le> now)) (tablesOf s)"
    "map logCore (hs_sent (evaluateDueOneShotSchedules env now s)) = map logCore (hs_sent s)
       @ map oneShotLog (filter (\<lambda>c. \<not> staleAt now (os_RunAt c)) ?due)"
    unfolding GetDueOneShotSchedules_def by (simp_all add: on_tables delete_due [OF d(1)])
qed

text \<open>The passes keep the tables well formed, and the rows the next pass looks at.\<close>

lemma advanceDue_id [simp]: "cr_ID (advanceDue env now c) = cr_ID c"
  by (simp add: advanceDue_def)

lemma haroWf_tables: "haroWf db \<Longrightarrow> scheduleTables db' = onCrons (map (advanceDue env now)) (scheduleTables db) \<Longrightarrow> haroWf db'"
  "haroWf db \<Longrightarrow> scheduleTables db' = onOneShots (filter P) (scheduleTables db) \<Longrightarrow> haroWf db'"
  by (auto simp: haroWf_def on_tables comp_def list_all_iff distinct_map_filter)

lemma advanceDue_later: "nextRunOrDay env c now > now \<Longrightarrow> \<not> isDueCron now (advanceDue env now c)"
  by (simp add: advanceDue_def isDueCron_def)

lemma tick_effect:
  assumes "haroWf (hs_db s)"
  shows "tablesOf (EvaluateDueSchedules env now s) =
           (map (advanceDue env now) (cron_schedules (hs_db s)), filter (\<lambda>r. os_RunAt r > now) (one_shot_schedules (hs_db s)),
            map (advanceDue env now) (heartbeat_schedules (hs_db s)), event_triggers (hs_db s))"
    and "map logCore (hs_sent (EvaluateDueSchedules env now s)) = map logCore (hs_sent s) @ dueLog env now (hs_db s)"
proof -
  define s1 where "s1 = evaluateDueCronSchedules env now s"
  define s2 where "s2 = evaluateDueOneShotSchedules env now s1"
  define s3 where "s3 = evaluateDueHeartbeatSchedules env now s2"
  note t1 = tick_crons [OF assms, of env now, folded s1_def]
  have w1: "haroWf (hs_db s1)" by (rule haroWf_tables(1) [OF assms t1(1)])
  note t2 = tick_one_shots [OF w1, of env now, folded s2_def]
  have w2: "haroWf (hs_db s2)" by (rule haroWf_tables(2) [OF w1 t2(1)])
  note t3 = tick_heartbeats [OF w2, of env now, folded s3_def]
  have one: "GetDueOneShotSchedules now (hs_db s1) = GetDueOneShotSchedules now (hs_db s)"
    and hb: "GetDueHeartbeatSchedules now (hs_db s2) = GetDueHeartbeatSchedules now (hs_db s)"
    using t1(1) t2(1) by (simp_all add: GetDueOneShotSchedules_def GetDueHeartbeatSchedules_def on_tables)
  have end_eq: "tablesOf (EvaluateDueSchedules env now s) = tablesOf s3" "hs_sent (EvaluateDueSchedules env now s) = hs_sent s3"
    by (simp_all add: EvaluateDueSchedules_def Let_def s1_def [symmetric] s2_def [symmetric] s3_def [symmetric])
  show "tablesOf (EvaluateDueSchedules env now s) =
           (map (advanceDue env now) (cron_schedules (hs_db s)), filter (\<lambda>r. os_RunAt r > now) (one_shot_schedules (hs_db s)),
            map (advanceDue env now) (heartbeat_schedules (hs_db s)), event_triggers (hs_db s))"
    unfolding end_eq t3(1) t2(1) t1(1) by (simp add: on_tables not_le)
  show "map logCore (hs_sent (EvaluateDueSchedules env now s)) = map logCore (hs_sent s) @ dueLog env now (hs_db s)"
    unfolding end_eq t3(2) t2(2) t1(2) one hb by (simp add: dueLog_def)
qed

definition laterRuns :: "haroEnv \<Rightarrow> int \<Rightarrow> haroDB \<Rightarrow> bool" where
  "laterRuns env now db = list_all (\<lambda>c. nextRunOrDay env c now > now) (cron_schedules db @ heartbeat_schedules db)"

lemma tick_nothing_due:
  assumes "haroWf (hs_db s)" "laterRuns env now (hs_db s)"
  shows "dueLog env' now (hs_db (EvaluateDueSchedules env now s)) = []"
proof -
  let ?s = "EvaluateDueSchedules env now s"
  have "filter (isDueCron now) (map (advanceDue env now) rows) = []" if "list_all (\<lambda>c. nextRunOrDay env c now > now) rows" for rows
    using that by (auto simp: filter_empty_conv list_all_iff advanceDue_later)
  moreover have "filter (\<lambda>x. os_RunAt x \<le> now \<and> now < os_RunAt x) rows = []" for rows by (simp add: filter_empty_conv)
  moreover have "cron_schedules (hs_db ?s) = map (advanceDue env now) (cron_schedules (hs_db s))"
    "heartbeat_schedules (hs_db ?s) = map (advanceDue env now) (heartbeat_schedules (hs_db s))"
    "one_shot_schedules (hs_db ?s) = filter (\<lambda>r. os_RunAt r > now) (one_shot_schedules (hs_db s))"
    using tick_effect(1) [OF assms(1), of env now] by (simp_all add: scheduleTables_def)
  ultimately show ?thesis using assms(2)
    by (simp add: dueLog_def GetDueCronSchedules_def GetDueOneShotSchedules_def GetDueHeartbeatSchedules_def laterRuns_def)
qed

text \<open>
  C27. A tick of the scheduler sends, in this order and once each, the prompts of the recurring
  schedules, the reminders and the heartbeats that are due and at most a day late, advances every due
  recurring schedule and heartbeat to its next run, removes the due reminders, and leaves every other
  row and the event watches as they are. When the cron library gives later times, nothing is due
  afterwards, and a second tick at the same time sends nothing.
\<close>

theorem haro_tick:
  assumes "haroWf (hs_db s)" "laterRuns env now (hs_db s)"
  shows "map logCore (hs_sent (EvaluateDueSchedules env now s)) = map logCore (hs_sent s) @ dueLog env now (hs_db s)
    \<and> tablesOf (EvaluateDueSchedules env now s) =
           (map (advanceDue env now) (cron_schedules (hs_db s)), filter (\<lambda>r. os_RunAt r > now) (one_shot_schedules (hs_db s)),
            map (advanceDue env now) (heartbeat_schedules (hs_db s)), event_triggers (hs_db s))
    \<and> map logCore (hs_sent (EvaluateDueSchedules env now (EvaluateDueSchedules env now s))) = map logCore (hs_sent (EvaluateDueSchedules env now s))"
proof -
  let ?s = "EvaluateDueSchedules env now s"
  have "haroWf (hs_db ?s)"
    using assms(1) tick_effect(1) [OF assms(1), of env now] by (auto simp: haroWf_def scheduleTables_def comp_def list_all_iff distinct_map_filter)
  from tick_effect(2) [OF this, of env now] tick_nothing_due [OF assms] tick_effect [OF assms(1)]
  show ?thesis by simp
qed

definition demoHaro :: haroEnv where
  "demoHaro = \<lparr>he_cronOk = (\<lambda>_. True), he_zoneOk = (\<lambda>_. True), he_next = (\<lambda>_ _ t. t + hourNs), he_parseDuration = (\<lambda>_. None),
     he_parseTime = (\<lambda>_ _. None), he_uuid = (\<lambda>n. ''run-'' @ natStr n), he_idLess = (\<lambda>_ _. False), he_clock = (\<lambda>_. 0),
     he_prompt = (\<lambda>_ _. (\<lparr>ps_Status = ''accepted'', ps_ChannelID = [], ps_SessionID = [], ps_MessageID = []\<rparr>, None)),
     he_dispatch = (\<lambda>_ _. (\<lparr>ds_Status = ''accepted'', ds_DispatchID = [], ds_MessageID = [], ds_SessionID = []\<rparr>, None)),
     he_heartbeatPrompt = cr_Prompt, he_vanadis = (\<lambda>_ _ _. Some ''running''), he_timezone = ''UTC'', he_extraSources = []\<rparr>"

definition demoSchedule :: "string \<Rightarrow> string \<Rightarrow> int \<Rightarrow> CronSchedule" where
  "demoSchedule i prompt t = \<lparr>cr_ID = i, cr_TargetID = ''42'', cr_TitlePrefix = [], cr_CronExpr = ''@hourly'', cr_Prompt = prompt,
     cr_Timezone = ''UTC'', cr_NextRunAt = t, cr_Enabled = True, cr_CreatedAt = 0, cr_Effort = []\<rparr>"

definition demoReminder :: "string \<Rightarrow> string \<Rightarrow> int \<Rightarrow> OneShotSchedule" where
  "demoReminder i prompt t = \<lparr>os_ID = i, os_ThreadID = ''7'', os_Prompt = prompt, os_RunAt = t, os_CreatedAt = 0, os_Effort = ''high''\<rparr>"

definition demoState :: haroState where
  "demoState = \<lparr>hs_db = \<lparr>cron_schedules = [demoSchedule ''late'' ''report'' 90, demoSchedule ''early'' ''digest'' 40],
     one_shot_schedules = [demoReminder ''r1'' ''call'' 100, demoReminder ''r2'' ''pay'' 101],
     heartbeat_schedules = [demoSchedule ''h'' ''check'' (100 - 2 * dayNs)], event_triggers = [], schedule_runs = []\<rparr>,
     hs_sent = [], hs_lastPrune = zeroTime, hs_uuids = 0\<rparr>"

theorem haro_tick_witness:
  "map logCore (hs_sent (EvaluateDueSchedules demoHaro 100 demoState)) =
     [(''cron'', ''early'', ''42'', ''digest'', ''medium''), (''cron'', ''late'', ''42'', ''report'', ''medium''), (''one_shot'', ''r1'', ''7'', ''call'', ''high'')]
   \<and> map logCore (hs_sent (EvaluateDueSchedules demoHaro 100 (EvaluateDueSchedules demoHaro 100 demoState)))
       = map logCore (hs_sent (EvaluateDueSchedules demoHaro 100 demoState))"
proof -
  have "haroWf (hs_db demoState)" "laterRuns demoHaro 100 (hs_db demoState)" by code_simp+
  note tick = haro_tick [OF this]
  have "map logCore (hs_sent demoState) @ dueLog demoHaro 100 (hs_db demoState) =
     [(''cron'', ''early'', ''42'', ''digest'', ''medium''), (''cron'', ''late'', ''42'', ''report'', ''medium''), (''one_shot'', ''r1'', ''7'', ''call'', ''high'')]"
    by code_simp
  with tick show ?thesis by metis
qed

end
