(* ===== verification/HaroServer.thy ===== *)
theory HaroServer
  imports HaroTicker
begin

text \<open>
  The tools of the scheduler (\<^verbatim>\<open>services/haro/tools.go\<close>) and its HTTP handlers
  (\<^verbatim>\<open>services/haro/server.go\<close>). A tool takes its arguments and the state and returns its error or the id
  it answers with, and the state; a handler returns the status code. The rendering of an
  answer as JSON and the cache of the schedule listing are not modelled.
\<close>

section \<open>Arguments\<close>

datatype argVal = ArgStr string | ArgBool bool | ArgOther

type_synonym argMap = "string \<Rightarrow> argVal option"

fun getMapString :: "argMap \<Rightarrow> string list \<Rightarrow> string" where
  "getMapString args [] = []"
| "getMapString args (k # ks) =
     (case args k of
        Some (ArgStr v) \<Rightarrow> if trimSpace v \<noteq> [] then trimSpace v else getMapString args ks
      | _ \<Rightarrow> getMapString args ks)"

definition parseBoolArg :: "argVal option \<Rightarrow> bool option" where
  "parseBoolArg v =
     (case v of
        Some (ArgBool b) \<Rightarrow> Some b
      | Some (ArgStr t) \<Rightarrow> (let lower = toLower (trimSpace t) in
           if lower = ''true'' \<or> lower = ''1'' then Some True else if lower = ''false'' \<or> lower = ''0'' then Some False else None)
      | _ \<Rightarrow> None)"

fun getMapBool :: "argMap \<Rightarrow> string list \<Rightarrow> bool option" where
  "getMapBool args [] = None"
| "getMapBool args (k # ks) = (case parseBoolArg (args k) of Some b \<Rightarrow> Some b | None \<Rightarrow> getMapBool args ks)"

definition strEntry :: "string \<Rightarrow> string \<Rightarrow> (string \<times> argVal) list" where
  "strEntry k v = (if v \<noteq> [] then [(k, ArgStr v)] else [])"

definition boolEntry :: "string \<Rightarrow> bool option \<Rightarrow> (string \<times> argVal) list" where
  "boolEntry k v = (case v of Some b \<Rightarrow> [(k, ArgBool b)] | None \<Rightarrow> [])"

record ScheduleRecurringArgs =
  ra_ChannelID :: string
  ra_CronExpression :: string
  ra_Prompt :: string
  ra_TitlePrefix :: string
  ra_Timezone :: string
  ra_Effort :: string

record ScheduleOnceArgs =
  oa_TargetID :: string
  oa_ThreadID :: string
  oa_RunAt :: string
  oa_Prompt :: string
  oa_Timezone :: string
  oa_Effort :: string

record UpdateCronScheduleArgs =
  uc_ScheduleID :: string
  uc_Effort :: "string option"
  uc_CronExpression :: "string option"
  uc_Prompt :: "string option"
  uc_TitlePrefix :: "string option"
  uc_Timezone :: "string option"

record ScheduleHeartbeatArgs =
  sh_ChannelID :: string
  sh_TargetID :: string
  sh_TitlePrefix :: string
  sh_CronExpression :: string
  sh_CronExpr :: string
  sh_Prompt :: string
  sh_Timezone :: string
  sh_Effort :: string

definition heartbeatArgsMap :: "ScheduleHeartbeatArgs \<Rightarrow> argMap" where
  "heartbeatArgsMap a = map_of (concat [strEntry ''channel_id'' (sh_ChannelID a), strEntry ''target_id'' (sh_TargetID a),
     strEntry ''title_prefix'' (sh_TitlePrefix a), strEntry ''cron_expression'' (sh_CronExpression a), strEntry ''cron_expr'' (sh_CronExpr a),
     strEntry ''prompt'' (sh_Prompt a), strEntry ''timezone'' (sh_Timezone a), strEntry ''effort'' (sh_Effort a)])"

record UpdateHeartbeatArgs =
  uh_ScheduleID :: string
  uh_ID :: string
  uh_ChannelID :: string
  uh_TargetID :: string
  uh_CronExpression :: string
  uh_CronExpr :: string
  uh_Prompt :: string
  uh_TitlePrefix :: string
  uh_Timezone :: string
  uh_Effort :: string
  uh_Enabled :: "bool option"

definition updateHeartbeatArgsMap :: "UpdateHeartbeatArgs \<Rightarrow> argMap" where
  "updateHeartbeatArgsMap a = map_of (concat [strEntry ''schedule_id'' (uh_ScheduleID a), strEntry ''id'' (uh_ID a),
     strEntry ''channel_id'' (uh_ChannelID a), strEntry ''target_id'' (uh_TargetID a), strEntry ''cron_expression'' (uh_CronExpression a),
     strEntry ''cron_expr'' (uh_CronExpr a), strEntry ''prompt'' (uh_Prompt a), strEntry ''title_prefix'' (uh_TitlePrefix a),
     strEntry ''timezone'' (uh_Timezone a), strEntry ''effort'' (uh_Effort a), boolEntry ''enabled'' (uh_Enabled a)])"

record WatchEventArgs =
  we_ChannelID :: string
  we_TargetID :: string
  we_ThreadID :: string
  we_Source :: string
  we_Target :: string
  we_EventType :: string
  we_Prompt :: string
  we_Effort :: string
  we_Persistent :: "bool option"

definition watchEventArgsMap :: "WatchEventArgs \<Rightarrow> argMap" where
  "watchEventArgsMap a = map_of (concat [strEntry ''channel_id'' (we_ChannelID a), strEntry ''target_id'' (we_TargetID a),
     strEntry ''thread_id'' (we_ThreadID a), strEntry ''source'' (we_Source a), strEntry ''target'' (we_Target a),
     strEntry ''event_type'' (we_EventType a), strEntry ''prompt'' (we_Prompt a), strEntry ''effort'' (we_Effort a),
     boolEntry ''persistent'' (we_Persistent a)])"

record CancelEventWatchArgs =
  ce_WatchID :: string
  ce_ID :: string
  ce_ScheduleID :: string

definition cancelEventArgsMap :: "CancelEventWatchArgs \<Rightarrow> argMap" where
  "cancelEventArgsMap a = map_of (concat [strEntry ''watch_id'' (ce_WatchID a), strEntry ''id'' (ce_ID a), strEntry ''schedule_id'' (ce_ScheduleID a)])"

section \<open>Tools\<close>

text \<open>The state with a statement applied to its database.\<close>

definition applyDB :: "(haroDB \<Rightarrow> (haroErr, haroDB) result) \<Rightarrow> haroState \<Rightarrow> (haroErr, haroState) result" where
  "applyDB f s = rbind (f (hs_db s)) (\<lambda>db. Inr (s\<lparr>hs_db := db\<rparr>))"

text \<open>Insert a row made for a fresh id, and answer the id.\<close>

definition insertFresh :: "haroEnv \<Rightarrow> (string \<Rightarrow> haroDB \<Rightarrow> (haroErr, haroDB) result) \<Rightarrow> haroState \<Rightarrow> (haroErr, string) result \<times> haroState" where
  "insertFresh env ins s =
     (let (i, s1) = newUUID env s
      in case applyDB (ins i) s1 of Inl e \<Rightarrow> (Inl e, s1) | Inr s2 \<Rightarrow> (Inr i, s2))"

type_synonym toolResult = "(haroErr, string) result \<times> haroState"

definition nowOf :: "haroEnv \<Rightarrow> haroState \<Rightarrow> int" where
  "nowOf env s = he_clock env (hs_sent s)"

definition recurringSchedule :: "haroEnv \<Rightarrow> int \<Rightarrow> string \<Rightarrow> ScheduleRecurringArgs \<Rightarrow> (haroErr, string \<Rightarrow> CronSchedule) result" where
  "recurringSchedule env now defaultTZ args =
     (let channel = trimSpace (ra_ChannelID args); cronExpr = trimSpace (ra_CronExpression args); prompt = trimSpace (ra_Prompt args);
          title = trimSpace (ra_TitlePrefix args); tz = resolveTimezone (ra_Timezone args) defaultTZ;
          effort = normalizeScheduleEffort (ra_Effort args) in
      guardErr (channel = []) (MissingField ''channel_id'') (
      guardErr (cronExpr = []) (MissingField ''cron_expression'') (
      guardErr (prompt = []) (MissingField ''prompt'') (
      rbind (CalculateNextCronRun env cronExpr tz now) (\<lambda>nextRun. Inr (\<lambda>i.
        \<lparr>cr_ID = i, cr_TargetID = channel, cr_TitlePrefix = title, cr_CronExpr = cronExpr, cr_Prompt = prompt, cr_Timezone = tz,
         cr_NextRunAt = nextRun, cr_Enabled = True, cr_CreatedAt = now, cr_Effort = effort\<rparr>))))))"

definition handleScheduleRecurring :: "haroEnv \<Rightarrow> ScheduleRecurringArgs \<Rightarrow> haroState \<Rightarrow> toolResult" where
  "handleScheduleRecurring env args s =
     (case recurringSchedule env (nowOf env s) (he_timezone env) args of
        Inl e \<Rightarrow> (Inl e, s)
      | Inr mk \<Rightarrow> insertFresh env (\<lambda>i. InsertCronSchedule (nowOf env s) (mk i)) s)"

definition onceSchedule :: "haroEnv \<Rightarrow> int \<Rightarrow> ScheduleOnceArgs \<Rightarrow> (haroErr, string \<Rightarrow> OneShotSchedule) result" where
  "onceSchedule env now args =
     (let target = (if trimSpace (oa_TargetID args) = [] then trimSpace (oa_ThreadID args) else trimSpace (oa_TargetID args));
          runAt = trimSpace (oa_RunAt args); prompt = trimSpace (oa_Prompt args); tz = resolveTimezone (oa_Timezone args) [] in
      guardErr (target = []) (MissingField ''target_id'') (
      guardErr (runAt = []) (MissingField ''run_at'') (
      guardErr (prompt = []) (MissingField ''prompt'') (
      rbind (ParseRunAtWithTimezone env runAt tz now) (\<lambda>targetTime. Inr (\<lambda>i.
        \<lparr>os_ID = i, os_ThreadID = target, os_Prompt = prompt, os_RunAt = targetTime, os_CreatedAt = now,
         os_Effort = normalizeScheduleEffort (oa_Effort args)\<rparr>))))))"

definition handleScheduleOnce :: "haroEnv \<Rightarrow> ScheduleOnceArgs \<Rightarrow> haroState \<Rightarrow> toolResult" where
  "handleScheduleOnce env args s =
     (case onceSchedule env (nowOf env s) args of
        Inl e \<Rightarrow> (Inl e, s)
      | Inr mk \<Rightarrow> insertFresh env (\<lambda>i. InsertOneShotSchedule (nowOf env s) (mk i)) s)"

definition ScheduleOnce :: "haroEnv \<Rightarrow> ScheduleOnceArgs \<Rightarrow> haroState \<Rightarrow> toolResult" where
  "ScheduleOnce env args s = handleScheduleOnce env (args\<lparr>oa_Timezone := resolveTimezone (oa_Timezone args) (he_timezone env)\<rparr>) s"

definition ListSchedules :: "string \<Rightarrow> haroState \<Rightarrow> CronSchedule list \<times> OneShotSchedule list \<times> HeartbeatSchedule list" where
  "ListSchedules targetID0 s =
     (let targetID = trimSpace targetID0
      in (map (\<lambda>c. c\<lparr>cr_Prompt := []\<rparr>) (ListCronSchedules targetID (hs_db s)),
          map (\<lambda>c. c\<lparr>os_Prompt := []\<rparr>) (ListOneShotSchedules targetID (hs_db s)),
          map (\<lambda>c. c\<lparr>cr_Prompt := []\<rparr>) (ListHeartbeatSchedules targetID (hs_db s))))"

datatype scheduleOutput = GotRecurring CronSchedule | GotOneShot OneShotSchedule | GotHeartbeat HeartbeatSchedule

definition GetSchedule :: "string \<Rightarrow> haroState \<Rightarrow> (haroErr, scheduleOutput) result" where
  "GetSchedule id0 s =
     (let i = trimSpace id0 in
      guardErr (i = []) (MissingField ''schedule_id'') (
      case GetCronSchedule i (hs_db s) of
        Inr c \<Rightarrow> Inr (GotRecurring c)
      | Inl e \<Rightarrow> guardErr (e \<noteq> NotFound) e (
          case GetOneShotSchedule i (hs_db s) of
            Inr sc \<Rightarrow> Inr (GotOneShot sc)
          | Inl e \<Rightarrow> guardErr (e \<noteq> NotFound) e (
              case GetHeartbeatSchedule i (hs_db s) of Inr h \<Rightarrow> Inr (GotHeartbeat h) | Inl e \<Rightarrow> Inl e))))"

definition CancelSchedule :: "string \<Rightarrow> haroState \<Rightarrow> toolResult" where
  "CancelSchedule id0 s =
     (let i = trimSpace id0 in
      if i = [] then (Inl (MissingField ''schedule_id''), s)
      else let (deleted, db) = DeleteSchedule i (hs_db s) in (if deleted then Inr i else Inl NotFound, s\<lparr>hs_db := db\<rparr>))"

definition cronNextOf :: "haroEnv \<Rightarrow> int \<Rightarrow> UpdateCronScheduleArgs \<Rightarrow> (haroErr, int option) result" where
  "cronNextOf env now args =
     (case uc_CronExpression args of
        Some e \<Rightarrow>
          if trimSpace e \<noteq> []
          then let tzArg = (case uc_Timezone args of Some z \<Rightarrow> z | None \<Rightarrow> [])
               in rbind (CalculateNextCronRun env e (resolveTimezone tzArg (he_timezone env)) now) (\<lambda>t. Inr (Some t))
          else Inr None
      | None \<Rightarrow> Inr None)"

definition UpdateCronScheduleTool :: "haroEnv \<Rightarrow> UpdateCronScheduleArgs \<Rightarrow> haroState \<Rightarrow> toolResult" where
  "UpdateCronScheduleTool env args s =
     (let i = trimSpace (uc_ScheduleID args) in
      if i = [] then (Inl (MissingField ''schedule_id''), s)
      else case rbind (cronNextOf env (nowOf env s) args) (\<lambda>nextRun.
               applyDB (UpdateCronSchedule i (uc_Effort args) (uc_CronExpression args) (uc_Prompt args) (uc_TitlePrefix args)
                          (uc_Timezone args) nextRun) s) of
             Inl e \<Rightarrow> (Inl e, s)
           | Inr s1 \<Rightarrow> (Inr i, s1))"

definition heartbeatSchedule :: "haroEnv \<Rightarrow> int \<Rightarrow> string \<Rightarrow> argMap \<Rightarrow> (haroErr, string \<Rightarrow> HeartbeatSchedule) result" where
  "heartbeatSchedule env now defaultTZ args =
     (let channelID = getMapString args [''channel_id'', ''target_id'']; cronExpr = getMapString args [''cron_expr'', ''cron_expression''];
          prompt = getMapString args [''prompt'']; title0 = getMapString args [''title_prefix''];
          title = (if title0 = [] then ''Heartbeat Alert'' else title0); tz = resolveTimezone (getMapString args [''timezone'']) defaultTZ in
      guardErr (\<not> IsNumericSnowflake channelID) (MissingField ''channel_id'') (
      guardErr (cronExpr = []) (MissingField ''cron_expr'') (
      guardErr (prompt = []) (MissingField ''prompt'') (
      rbind (NormalizeEffort (getMapString args [''effort''])) (\<lambda>effort.
      rbind (CalculateNextCronRun env cronExpr tz now) (\<lambda>nextRun. Inr (\<lambda>i.
        \<lparr>cr_ID = i, cr_TargetID = channelID, cr_TitlePrefix = title, cr_CronExpr = cronExpr, cr_Prompt = prompt, cr_Timezone = tz,
         cr_NextRunAt = nextRun, cr_Enabled = True, cr_CreatedAt = now, cr_Effort = effort\<rparr>)))))))"

definition HandleScheduleHeartbeat :: "haroEnv \<Rightarrow> argMap \<Rightarrow> haroState \<Rightarrow> toolResult" where
  "HandleScheduleHeartbeat env args s =
     (case heartbeatSchedule env (nowOf env s) (he_timezone env) args of
        Inl e \<Rightarrow> (Inl e, s)
      | Inr mk \<Rightarrow> insertFresh env (\<lambda>i. InsertHeartbeatSchedule (nowOf env s) (mk i)) s)"

definition applyHeartbeatContentUpdates :: "argMap \<Rightarrow> HeartbeatSchedule \<Rightarrow> (haroErr, HeartbeatSchedule) result" where
  "applyHeartbeatContentUpdates args h =
     (let channelID = getMapString args [''channel_id'', ''target_id'']; prompt = getMapString args [''prompt''];
          effortTier = getMapString args [''effort''] in
      guardErr (channelID \<noteq> [] \<and> \<not> IsNumericSnowflake channelID) (MissingField ''channel_id'') (
      let h1 = h\<lparr>cr_TargetID := (if channelID \<noteq> [] then channelID else cr_TargetID h), cr_Prompt := (if prompt \<noteq> [] then prompt else cr_Prompt h),
                 cr_TitlePrefix := (case args ''title_prefix'' of Some (ArgStr t) \<Rightarrow> trimSpace t | _ \<Rightarrow> cr_TitlePrefix h)\<rparr> in
      if effortTier \<noteq> [] then rbind (NormalizeEffort effortTier) (\<lambda>effort. Inr (h1\<lparr>cr_Effort := effort\<rparr>)) else Inr h1))"

definition applyHeartbeatTimingUpdates :: "haroEnv \<Rightarrow> int \<Rightarrow> argMap \<Rightarrow> HeartbeatSchedule \<Rightarrow> (haroErr, bool \<times> HeartbeatSchedule) result" where
  "applyHeartbeatTimingUpdates env now args h =
     (let cronExpr = getMapString args [''cron_expr'', ''cron_expression'']; tz = getMapString args [''timezone''];
          enabledVal = getMapBool args [''enabled''] in
      rbind (if cronExpr \<noteq> [] then CalculateNextCronRun env cronExpr (cr_Timezone h) now else Inr 0) (\<lambda>_.
      guardErr (tz \<noteq> [] \<and> \<not> he_zoneOk env tz) BadTimezone (
      let flip = (case enabledVal of Some b \<Rightarrow> cr_Enabled h \<noteq> b | None \<Rightarrow> False)
      in Inr (cronExpr \<noteq> [] \<or> tz \<noteq> [] \<or> flip,
              h\<lparr>cr_CronExpr := (if cronExpr \<noteq> [] then cronExpr else cr_CronExpr h), cr_Timezone := (if tz \<noteq> [] then tz else cr_Timezone h),
                cr_Enabled := (if flip then \<not> cr_Enabled h else cr_Enabled h)\<rparr>))))"

definition updatedHeartbeat :: "haroEnv \<Rightarrow> int \<Rightarrow> argMap \<Rightarrow> haroDB \<Rightarrow> (haroErr, HeartbeatSchedule) result" where
  "updatedHeartbeat env now args db =
     rbind (GetHeartbeatSchedule (getMapString args [''id'', ''schedule_id'']) db) (\<lambda>h0.
     rbind (applyHeartbeatContentUpdates args h0) (\<lambda>h1.
     rbind (applyHeartbeatTimingUpdates env now args h1) (\<lambda>(recompute, h2).
     if recompute \<and> cr_Enabled h2
     then rbind (CalculateNextCronRun env (cr_CronExpr h2) (cr_Timezone h2) now) (\<lambda>t. Inr (h2\<lparr>cr_NextRunAt := t\<rparr>))
     else Inr h2)))"

definition HandleUpdateHeartbeat :: "haroEnv \<Rightarrow> argMap \<Rightarrow> haroState \<Rightarrow> toolResult" where
  "HandleUpdateHeartbeat env args s =
     (let i = getMapString args [''id'', ''schedule_id''] in
      if i = [] then (Inl (MissingField ''id''), s)
      else case rbind (updatedHeartbeat env (nowOf env s) args (hs_db s)) (\<lambda>h. applyDB (UpdateHeartbeatSchedule h) s) of
             Inl e \<Rightarrow> (Inl e, s)
           | Inr s1 \<Rightarrow> (Inr i, s1))"

text \<open>The answer of Vanadis to the nth question is the target's status, or none for an error or an unknown target.\<close>

definition ValidateLiveEventTarget :: "haroEnv \<Rightarrow> nat \<Rightarrow> string \<Rightarrow> string \<Rightarrow> (haroErr, unit) result" where
  "ValidateLiveEventTarget env n source target0 =
     (let target = trimSpace target0;
          terminal = (if source = ''vanadis_build'' then [''completed'', ''merged'', ''failed'', ''cancelled'', ''canceled'']
                      else [''merged'', ''completed'', ''failed'']) in
      guardErr (target = []) EmptyTarget (
      if source = ''vanadis_build'' \<or> source = ''vanadis_chunk''
      then case he_vanadis env n source target of
             None \<Rightarrow> Inl TargetNotLive
           | Some status \<Rightarrow> guardErr (toLower (trimSpace status) \<in> set terminal) TargetNotLive (Inr ())
      else Inr ()))"

definition watchTrigger :: "haroEnv \<Rightarrow> int \<Rightarrow> argMap \<Rightarrow> (haroErr, string \<Rightarrow> EventTrigger) result" where
  "watchTrigger env now args =
     (let channelID = getMapString args [''channel_id'', ''target_id'', ''thread_id'']; prompt = getMapString args [''prompt''];
          effortStr = getMapString args [''effort'']; persistent = (case getMapBool args [''persistent''] of Some b \<Rightarrow> b | None \<Rightarrow> False) in
      guardErr (\<not> IsNumericSnowflake channelID) (MissingField ''channel_id'') (
      guardErr (prompt = []) (MissingField ''prompt'') (
      rbind (NormalizeEffort (if effortStr = [] then ''medium'' else effortStr)) (\<lambda>effort.
      rbind (ValidateEventWatchSpec (getMapString args [''source'']) (getMapString args [''target'']) (getMapString args [''event_type''])
               (he_extraSources env)) (\<lambda>(source, target, eventType).
      rbind (ValidateLiveEventTarget env 0 source target) (\<lambda>_. Inr (\<lambda>i.
        \<lparr>et_ID = i, et_ChannelID = channelID, et_Source = source, et_Target = target, et_EventType = eventType, et_Prompt = prompt,
         et_Effort = effort, et_CreatedAt = now, et_Persistent = persistent\<rparr>)))))))"

text \<open>The target is checked again after the insertion, which is undone if it is no longer live.\<close>

definition HandleWatchEvent :: "haroEnv \<Rightarrow> argMap \<Rightarrow> haroState \<Rightarrow> toolResult" where
  "HandleWatchEvent env args s =
     (case watchTrigger env (nowOf env s) args of
        Inl e \<Rightarrow> (Inl e, s)
      | Inr mk \<Rightarrow>
          (case insertFresh env (\<lambda>i. InsertEventTrigger (nowOf env s) (mk i)) s of
             (Inl e, s1) \<Rightarrow> (Inl e, s1)
           | (Inr i, s1) \<Rightarrow>
               let source = et_Source (mk i)
               in if (source = ''vanadis_build'' \<or> source = ''vanadis_chunk'') \<and> is_err (ValidateLiveEventTarget env 1 source (et_Target (mk i)))
                  then (Inl TargetNotLive, (case DeleteEventTrigger i (hs_db s1) of Inl _ \<Rightarrow> s1 | Inr (_, db) \<Rightarrow> s1\<lparr>hs_db := db\<rparr>))
                  else (Inr i, s1)))"

definition HandleListEventWatches :: "argMap \<Rightarrow> haroState \<Rightarrow> EventTrigger list" where
  "HandleListEventWatches args s = ListEventTriggers (getMapString args [''channel_id'', ''target_id'']) (hs_db s)"

definition HandleCancelEventWatch :: "argMap \<Rightarrow> haroState \<Rightarrow> toolResult" where
  "HandleCancelEventWatch args s =
     (let i = getMapString args [''watch_id'', ''id'', ''schedule_id''] in
      if i = [] then (Inl (MissingField ''watch_id''), s)
      else case DeleteEventTrigger i (hs_db s) of
             Inl e \<Rightarrow> (Inl e, s)
           | Inr (deleted, db) \<Rightarrow> (if deleted then Inr i else Inl NotFound, s\<lparr>hs_db := db\<rparr>))"

section \<open>HTTP handlers\<close>

record CreateOneShotRequest =
  co_ID :: string
  co_ThreadID :: string
  co_Prompt :: string
  co_RunAt :: int
  co_Effort :: string

text \<open>The answer of a handler is its status code and, on success, the id it returns.\<close>

definition handleScheduleOneShot :: "haroEnv \<Rightarrow> string \<Rightarrow> CreateOneShotRequest option \<Rightarrow> haroState \<Rightarrow> nat \<times> string \<times> haroState" where
  "handleScheduleOneShot env httpMethod body s =
     (if httpMethod \<noteq> ''POST'' then (405, [], s)
      else case body of
        None \<Rightarrow> (400, [], s)
      | Some req \<Rightarrow>
          let threadID = trimSpace (co_ThreadID req); prompt = trimSpace (co_Prompt req) in
          if threadID = [] \<or> prompt = [] \<or> co_RunAt req = zeroTime then (400, [], s)
          else let (schedID, s1) = (if trimSpace (co_ID req) = [] then newUUID env s else (trimSpace (co_ID req), s));
                   sched = \<lparr>os_ID = schedID, os_ThreadID = threadID, os_Prompt = prompt, os_RunAt = co_RunAt req,
                            os_CreatedAt = nowOf env s, os_Effort = normalizeScheduleEffort (co_Effort req)\<rparr>
               in case applyDB (InsertOneShotSchedule (nowOf env s) sched) s1 of
                    Inl _ \<Rightarrow> (500, [], s1)
                  | Inr s2 \<Rightarrow> (200, schedID, s2))"

record eventTriggerActionRequest =
  ea_Source :: string
  ea_Target :: string
  ea_Targets :: "string list"
  ea_EventType :: string
  ea_ContextHeader :: string

definition parseEventTriggerActionRequest :: "string \<Rightarrow> eventTriggerActionRequest option \<Rightarrow> (nat, eventTriggerActionRequest) result" where
  "parseEventTriggerActionRequest httpMethod body =
     guardErr (httpMethod \<noteq> ''POST'') 405 (
     case body of
       None \<Rightarrow> Inl 400
     | Some req \<Rightarrow>
         let source = toLower (trimSpace (ea_Source req)); eventType = toLower (trimSpace (ea_EventType req));
             cleanTargets = filter (\<lambda>t. t \<noteq> []) (map trimSpace (ea_Target req # ea_Targets req))
         in guardErr (source = [] \<or> eventType = [] \<or> cleanTargets = []) 400
              (Inr (req\<lparr>ea_Source := source, ea_EventType := eventType, ea_Targets := cleanTargets\<rparr>)))"

definition handleCheckEventTriggers :: "string \<Rightarrow> eventTriggerActionRequest option \<Rightarrow> haroState \<Rightarrow> nat \<times> bool" where
  "handleCheckEventTriggers httpMethod body s =
     (case parseEventTriggerActionRequest httpMethod body of
        Inl code \<Rightarrow> (code, False)
      | Inr req \<Rightarrow> (200, CheckEventTriggers (ea_Source req) (ea_Targets req) (ea_EventType req) (hs_db s)))"

definition handleClaimEventTriggers :: "string \<Rightarrow> eventTriggerActionRequest option \<Rightarrow> haroState \<Rightarrow> nat \<times> EventTrigger list \<times> haroState" where
  "handleClaimEventTriggers httpMethod body s =
     (case parseEventTriggerActionRequest httpMethod body of
        Inl code \<Rightarrow> (code, [], s)
      | Inr req \<Rightarrow>
          let (triggers, db) = ClaimEventTriggers (ea_Source req) (ea_Targets req) (ea_EventType req) (hs_db s)
          in (200, triggers, s\<lparr>hs_db := db\<rparr>))"

text \<open>One claimed trigger: its prompt is sent; a one-shot trigger whose dispatch failed is put back.\<close>

definition fireTrigger :: "haroEnv \<Rightarrow> string \<Rightarrow> EventTrigger \<Rightarrow> haroState \<Rightarrow> bool \<times> haroState" where
  "fireTrigger env header trig s =
     (let req = promptRequest (FormatEventTriggerPrompt header (et_Prompt trig)) (et_ChannelID trig) [] [] (et_Effort trig);
          (_, dispErr, s1) = DispatchPrompt env ''event_watch'' (et_ID trig) req s
      in if dispErr = None then (True, s1)
         else (False, if et_Persistent trig then s1
                      else case applyDB (InsertEventTrigger (nowOf env s1) trig) s1 of Inl _ \<Rightarrow> s1 | Inr s2 \<Rightarrow> s2))"

fun fireLoop :: "haroEnv \<Rightarrow> string \<Rightarrow> EventTrigger list \<Rightarrow> haroState \<Rightarrow> EventTrigger list \<times> bool \<times> haroState" where
  "fireLoop env header [] s = ([], True, s)"
| "fireLoop env header (trig # trigs) s =
     (let (ok, s1) = fireTrigger env header trig s; (fired, allOk, s2) = fireLoop env header trigs s1
      in (if ok then trig # fired else fired, ok \<and> allOk, s2))"

definition handleFireEventTriggers :: "haroEnv \<Rightarrow> string \<Rightarrow> eventTriggerActionRequest option \<Rightarrow> haroState \<Rightarrow> nat \<times> EventTrigger list \<times> haroState" where
  "handleFireEventTriggers env httpMethod body s =
     (case parseEventTriggerActionRequest httpMethod body of
        Inl code \<Rightarrow> (code, [], s)
      | Inr req \<Rightarrow>
          let (triggers, db) = ClaimEventTriggers (ea_Source req) (ea_Targets req) (ea_EventType req) (hs_db s);
              (fired, allOk, s1) = fireLoop env (ea_ContextHeader req) triggers (s\<lparr>hs_db := db\<rparr>)
          in if allOk then (200, fired, s1) else (502, [], s1))"

section \<open>The scheduler as a transition system\<close>

text \<open>A call of a tool or a handler; the ids are those of the reminders it created.\<close>

datatype haroCall =
    CallRecurring ScheduleRecurringArgs
  | CallOnce ScheduleOnceArgs
  | CallOneShot string "CreateOneShotRequest option"
  | CallCancel string
  | CallUpdateCron UpdateCronScheduleArgs
  | CallHeartbeat argMap
  | CallUpdateHeartbeat argMap
  | CallWatch argMap
  | CallCancelWatch argMap
  | CallClaim string "eventTriggerActionRequest option"
  | CallFire string "eventTriggerActionRequest option"

definition createdBy :: "toolResult \<Rightarrow> string list" where
  "createdBy r = (case fst r of Inr i \<Rightarrow> [i] | Inl _ \<Rightarrow> [])"

fun runCall :: "haroEnv \<Rightarrow> haroCall \<Rightarrow> haroState \<Rightarrow> string list \<times> haroState" where
  "runCall env (CallRecurring a) s = ([], snd (handleScheduleRecurring env a s))"
| "runCall env (CallOnce a) s = (createdBy (ScheduleOnce env a s), snd (ScheduleOnce env a s))"
| "runCall env (CallOneShot m b) s =
     (let (code, i, s1) = handleScheduleOneShot env m b s in (if code = 200 then [i] else [], s1))"
| "runCall env (CallCancel i) s = ([], snd (CancelSchedule i s))"
| "runCall env (CallUpdateCron a) s = ([], snd (UpdateCronScheduleTool env a s))"
| "runCall env (CallHeartbeat a) s = ([], snd (HandleScheduleHeartbeat env a s))"
| "runCall env (CallUpdateHeartbeat a) s = ([], snd (HandleUpdateHeartbeat env a s))"
| "runCall env (CallWatch a) s = ([], snd (HandleWatchEvent env a s))"
| "runCall env (CallCancelWatch a) s = ([], snd (HandleCancelEventWatch a s))"
| "runCall env (CallClaim m b) s = ([], snd (snd (handleClaimEventTriggers m b s)))"
| "runCall env (CallFire m b) s = ([], snd (snd (handleFireEventTriggers env m b s)))"

text \<open>
  Several tickers and any number of callers work on one database. A ticker reads the due
  reminders, claims one by deleting its row, and then sends it; the steps of different tickers and
  calls interleave. The ids of created reminders are recorded.
\<close>

record haroCluster =
  hc_state :: haroState
  hc_due :: "OneShotSchedule list"
  hc_claimed :: "OneShotSchedule list"
  hc_created :: "string list"

inductive haroStep :: "haroEnv \<Rightarrow> haroCluster \<Rightarrow> haroCluster \<Rightarrow> bool" for env where
  CallStep: "runCall env call (hc_state c) = (new, st) \<Longrightarrow> haroStep env c (c\<lparr>hc_state := st, hc_created := hc_created c @ new\<rparr>)"
| CronStep: "haroStep env c (c\<lparr>hc_state := processDueCron env now sch (hc_state c)\<rparr>)"
| HeartbeatStep: "haroStep env c (c\<lparr>hc_state := processDueHeartbeat env now sch (hc_state c)\<rparr>)"
| QueryStep: "haroStep env c (c\<lparr>hc_due := hc_due c @ GetDueOneShotSchedules now (hs_db (hc_state c))\<rparr>)"
| ClaimStep: "sc \<in> set (hc_due c) \<Longrightarrow> claimOneShot (os_ID sc) (hc_state c) = Some st \<Longrightarrow>
    haroStep env c (c\<lparr>hc_state := st, hc_claimed := hc_claimed c @ [sc]\<rparr>)"
| SendStep: "hc_claimed c = xs @ sc # ys \<Longrightarrow>
    haroStep env c (c\<lparr>hc_state := finishOneShot env now sc (hc_state c), hc_claimed := xs @ ys\<rparr>)"
| PruneStep: "haroStep env c (c\<lparr>hc_state := (hc_state c)\<lparr>hs_lastPrune := now,
    hs_db := PruneScheduleRuns (he_idLess env) n a now (hs_db (hc_state c))\<rparr>\<rparr>)"

inductive_cases haroStepE: "haroStep env c c'"

section \<open>Firing event watches\<close>

text \<open>Rows as the insertions write them: primary keys, a valid effort, a creation time.\<close>

definition triggersWf :: "EventTrigger list \<Rightarrow> bool" where
  "triggersWf ts = (distinct (map et_ID ts) \<and> list_all (\<lambda>t. isEffort (et_Effort t) \<and> et_CreatedAt t \<noteq> zeroTime) ts)"

lemma NormalizeEffort_fix: "isEffort e \<Longrightarrow> NormalizeEffort e = Inr e"
proof -
  have "NormalizeEffort ''low'' = Inr ''low''" "NormalizeEffort ''medium'' = Inr ''medium''" "NormalizeEffort ''high'' = Inr ''high''"
    by code_simp+
  then show "isEffort e \<Longrightarrow> NormalizeEffort e = Inr e" by (auto simp: isEffort_def)
qed

lemma readTrigger_fix: "isEffort (et_Effort t) \<Longrightarrow> readTrigger t = t"
  by (cases t) (auto simp: readTrigger_def effortOr_def isEffort_def)

lemma InsertEventTrigger_back:
  "isEffort (et_Effort t) \<Longrightarrow> et_CreatedAt t \<noteq> zeroTime \<Longrightarrow> et_ID t \<notin> et_ID ` set (event_triggers db) \<Longrightarrow>
   InsertEventTrigger now t db = Inr (db\<lparr>event_triggers := event_triggers db @ [t]\<rparr>)"
  by (cases t) (simp add: InsertEventTrigger_def insertRow_def NormalizeEffort_fix)

text \<open>The log entry of a trigger that is fired with a header.\<close>

definition triggerLog :: "string \<Rightarrow> EventTrigger \<Rightarrow> bool \<Rightarrow> dispatchLog" where
  "triggerLog header t ok = \<lparr>dl_Kind = ''event_watch'', dl_Schedule = et_ID t,
     dl_Request = BrainPrompt (promptRequest (FormatEventTriggerPrompt header (et_Prompt t)) (et_ChannelID t) [] [] (et_Effort t)), dl_OK = ok\<rparr>"

definition putBack :: "EventTrigger \<times> bool \<Rightarrow> bool" where
  "putBack to = (\<not> snd to \<and> \<not> et_Persistent (fst to))"

text \<open>
  The loop sends every trigger once, in order, and puts back the one-shot triggers that failed; the
  outcomes are the ones the log records.
\<close>

lemma fireTrigger_effect:
  assumes "isEffort (et_Effort t)" "et_CreatedAt t \<noteq> zeroTime" "\<not> et_Persistent t \<Longrightarrow> et_ID t \<notin> et_ID ` set (event_triggers (hs_db s))"
  shows "\<exists>ok. fireTrigger env header t s = (ok, s\<lparr>hs_sent := hs_sent s @ [triggerLog header t ok],
     hs_db := (hs_db s)\<lparr>event_triggers := event_triggers (hs_db s) @ (if putBack (t, ok) then [t] else [])\<rparr>\<rparr>)"
proof -
  obtain resp e where a: "he_prompt env (hs_sent s) (promptRequest (FormatEventTriggerPrompt header (et_Prompt t)) (et_ChannelID t) [] [] (et_Effort t)) = (resp, e)"
    by fastforce
  show ?thesis
    using assms by (intro exI [of _ "e = None"])
      (auto simp: fireTrigger_def DispatchPrompt_def a Let_def triggerLog_def putBack_def applyDB_def InsertEventTrigger_back)
qed

lemma fireLoop_effect:
  assumes "triggersWf ts" "\<forall>t\<in>set ts. \<not> et_Persistent t \<longrightarrow> et_ID t \<notin> et_ID ` set (event_triggers (hs_db s))"
  shows "\<exists>oks. length oks = length ts
     \<and> fireLoop env header ts s = (map fst (filter snd (zip ts oks)), list_all (\<lambda>ok. ok) oks,
         s\<lparr>hs_sent := hs_sent s @ map (\<lambda>(t, ok). triggerLog header t ok) (zip ts oks),
           hs_db := (hs_db s)\<lparr>event_triggers := event_triggers (hs_db s) @ map fst (filter putBack (zip ts oks))\<rparr>\<rparr>)"
  using assms
proof (induction ts arbitrary: s)
  case (Cons t ts)
  have t: "isEffort (et_Effort t)" "et_CreatedAt t \<noteq> zeroTime" "\<not> et_Persistent t \<Longrightarrow> et_ID t \<notin> et_ID ` set (event_triggers (hs_db s))"
    using Cons.prems by (auto simp: triggersWf_def)
  from fireTrigger_effect [OF t] obtain ok s1 where ok: "fireTrigger env header t s = (ok, s1)"
    and s1: "s1 = s\<lparr>hs_sent := hs_sent s @ [triggerLog header t ok],
       hs_db := (hs_db s)\<lparr>event_triggers := event_triggers (hs_db s) @ (if putBack (t, ok) then [t] else [])\<rparr>\<rparr>" by blast
  have "triggersWf ts" "\<forall>q\<in>set ts. \<not> et_Persistent q \<longrightarrow> et_ID q \<notin> et_ID ` set (event_triggers (hs_db s1))"
    using Cons.prems by (auto simp: triggersWf_def s1 rev_image_eqI)
  from Cons.IH [OF this] obtain oks where oks: "length oks = length ts"
    "fireLoop env header ts s1 = (map fst (filter snd (zip ts oks)), list_all (\<lambda>ok. ok) oks,
         s1\<lparr>hs_sent := hs_sent s1 @ map (\<lambda>(t, ok). triggerLog header t ok) (zip ts oks),
           hs_db := (hs_db s1)\<lparr>event_triggers := event_triggers (hs_db s1) @ map fst (filter putBack (zip ts oks))\<rparr>\<rparr>)" by blast
  then show ?case by (intro exI [of _ "ok # oks"]) (simp add: ok oks s1)
qed simp

text \<open>The normal form of a request is the one the claim looks for.\<close>

lemma event_request_normal:
  assumes "parseEventTriggerActionRequest httpMethod body = Inr req"
  shows "toLower (trimSpace (ea_Source req)) = ea_Source req" "toLower (trimSpace (ea_EventType req)) = ea_EventType req"
    "map trimSpace (ea_Targets req) = ea_Targets req" "ea_Source req \<noteq> []" "ea_EventType req \<noteq> []" "ea_Targets req \<noteq> []" "[] \<notin> set (ea_Targets req)"
proof -
  have f: "map trimSpace (filter (\<lambda>t. t \<noteq> []) (map trimSpace ts)) = filter (\<lambda>t. t \<noteq> []) (map trimSpace ts)" for ts
    by (induction ts) auto
  note f = f [of "t # ts" for t ts, unfolded list.map(2)]
  show "toLower (trimSpace (ea_Source req)) = ea_Source req" "toLower (trimSpace (ea_EventType req)) = ea_EventType req"
    "map trimSpace (ea_Targets req) = ea_Targets req" "ea_Source req \<noteq> []" "ea_EventType req \<noteq> []" "ea_Targets req \<noteq> []" "[] \<notin> set (ea_Targets req)"
    using assms f by (auto simp: parseEventTriggerActionRequest_def guardErr_Inr Let_def simp del: map_map filter.simps split: option.splits)
qed

abbreviation requestMatches :: "eventTriggerActionRequest \<Rightarrow> EventTrigger \<Rightarrow> bool" where
  "requestMatches req \<equiv> triggerMatches (ea_Source req, ea_EventType req, ea_Targets req)"

lemma claim_effect:
  assumes "triggersWf (event_triggers db)" "parseEventTriggerActionRequest httpMethod body = Inr req"
  obtains matched where "ClaimEventTriggers (ea_Source req) (ea_Targets req) (ea_EventType req) db =
      (matched, db\<lparr>event_triggers := filter (\<lambda>t. requestMatches req t \<longrightarrow> et_Persistent t) (event_triggers db)\<rparr>)"
    "mset matched = mset (filter (requestMatches req) (event_triggers db))" "sorted (map et_CreatedAt matched)"
proof -
  let ?ts = "event_triggers db" and ?m = "requestMatches req"
  note norm = event_request_normal [OF assms(2)]
  have tg: "filter (\<lambda>t. t \<noteq> []) (ea_Targets req) = ea_Targets req" using norm(7) by (auto intro: filter_True)
  have "buildEventTriggerFilterArgs (ea_Source req) (ea_Targets req) (ea_EventType req) =
      Some (ea_Source req, ea_EventType req, rev (remdups (rev (ea_Targets req))))"
    using norm by (simp add: buildEventTriggerFilterArgs_def Let_def tg del: map_map)
  moreover have "triggerMatches (ea_Source req, ea_EventType req, rev (remdups (rev (ea_Targets req)))) = ?m"
    by (simp add: triggerMatches_def fun_eq_iff)
  moreover have "map readTrigger (filter P ?ts) = filter P ?ts" for P
    using assms(1) by (auto simp: triggersWf_def list_all_iff readTrigger_fix intro: map_idI)
  moreover have "filter (\<lambda>t. \<not> (?m t \<and> \<not> et_Persistent t)) ?ts = filter (\<lambda>t. ?m t \<longrightarrow> et_Persistent t) ?ts"
    by (rule filter_cong) auto
  ultimately have c: "ClaimEventTriggers (ea_Source req) (ea_Targets req) (ea_EventType req) db =
      (sort_key et_CreatedAt (filter (\<lambda>t. ?m t \<and> \<not> et_Persistent t) ?ts @ filter (\<lambda>t. ?m t \<and> et_Persistent t) ?ts),
       db\<lparr>event_triggers := filter (\<lambda>t. ?m t \<longrightarrow> et_Persistent t) ?ts\<rparr>)"
    by (simp add: ClaimEventTriggers_def Let_def)
  have "mset (filter (\<lambda>t. ?m t \<and> \<not> et_Persistent t) xs @ filter (\<lambda>t. ?m t \<and> et_Persistent t) xs) = mset (filter ?m xs)" for xs
    by (induction xs) auto
  then show ?thesis by (intro that [OF c]) simp_all
qed

lemma fire_effect:
  assumes "triggersWf (event_triggers (hs_db s))" "parseEventTriggerActionRequest httpMethod body = Inr req"
  shows "\<exists>matched oks s'. mset matched = mset (filter (requestMatches req) (event_triggers (hs_db s)))
    \<and> sorted (map et_CreatedAt matched) \<and> length oks = length matched
    \<and> s' = s\<lparr>hs_sent := hs_sent s @ map (\<lambda>(t, ok). triggerLog (ea_ContextHeader req) t ok) (zip matched oks),
             hs_db := (hs_db s)\<lparr>event_triggers := filter (\<lambda>t. requestMatches req t \<longrightarrow> et_Persistent t) (event_triggers (hs_db s))
                                              @ map fst (filter putBack (zip matched oks))\<rparr>\<rparr>
    \<and> handleFireEventTriggers env httpMethod body s = (if list_all (\<lambda>ok. ok) oks then (200, matched, s') else (502, [], s'))"
proof -
  let ?ts = "event_triggers (hs_db s)" and ?m = "requestMatches req"
  obtain matched where c: "ClaimEventTriggers (ea_Source req) (ea_Targets req) (ea_EventType req) (hs_db s) =
      (matched, (hs_db s)\<lparr>event_triggers := filter (\<lambda>t. ?m t \<longrightarrow> et_Persistent t) ?ts\<rparr>)"
    and m: "mset matched = mset (filter ?m ?ts)" and sorted: "sorted (map et_CreatedAt matched)"
    by (rule claim_effect [OF assms])
  let ?s0 = "s\<lparr>hs_db := (hs_db s)\<lparr>event_triggers := filter (\<lambda>t. ?m t \<longrightarrow> et_Persistent t) ?ts\<rparr>\<rparr>"
  have sm: "set matched = set (filter ?m ?ts)" using m by (metis set_mset_mset)
  have "mset (map et_ID matched) = mset (map et_ID (filter ?m ?ts))" using m by simp
  then have "distinct (map et_ID matched)"
    using assms(1) mset_eq_imp_distinct_iff distinct_map_filter unfolding triggersWf_def by blast
  then have wf: "triggersWf matched" using assms(1) sm by (auto simp: triggersWf_def list_all_iff)
  have "inj_on et_ID (set ?ts)" using assms(1) by (simp add: triggersWf_def distinct_map)
  then have "\<forall>t\<in>set matched. \<not> et_Persistent t \<longrightarrow> et_ID t \<notin> et_ID ` set (event_triggers (hs_db ?s0))"
    using sm by (auto dest: inj_onD)
  from fireLoop_effect [OF wf this, of env "ea_ContextHeader req"] obtain oks where oks: "length oks = length matched"
    "fireLoop env (ea_ContextHeader req) matched ?s0 = (map fst (filter snd (zip matched oks)), list_all (\<lambda>ok. ok) oks,
       ?s0\<lparr>hs_sent := hs_sent ?s0 @ map (\<lambda>(t, ok). triggerLog (ea_ContextHeader req) t ok) (zip matched oks),
         hs_db := (hs_db ?s0)\<lparr>event_triggers := event_triggers (hs_db ?s0) @ map fst (filter putBack (zip matched oks))\<rparr>\<rparr>)" by blast
  have "list_all (\<lambda>ok. ok) oks \<Longrightarrow> filter snd (zip matched oks) = zip matched oks"
    using oks(1) by (auto simp: list_all_iff filter_id_conv dest: set_zip_rightD)
  then have "list_all (\<lambda>ok. ok) oks \<Longrightarrow> map fst (filter snd (zip matched oks)) = matched" using oks(1) by simp
  with oks m sorted show ?thesis
    by (intro exI [of _ matched] exI [of _ oks]) (simp add: handleFireEventTriggers_def assms(2) c)
qed

text \<open>
  C28. Firing an event sends the prompt of every watch that matches it exactly once, in the order
  the watches were created, under the request's header. A one-shot watch is gone afterwards unless its
  dispatch failed, in which case it is back as it was; persistent watches and watches that do not match
  are untouched. The answer is success exactly when every dispatch succeeded.
\<close>

theorem haro_fire:
  assumes "triggersWf (event_triggers (hs_db s))" "parseEventTriggerActionRequest httpMethod body = Inr req"
  shows "\<exists>matched oks s'. mset matched = mset (filter (requestMatches req) (event_triggers (hs_db s)))
    \<and> sorted (map et_CreatedAt matched) \<and> length oks = length matched
    \<and> s' = s\<lparr>hs_sent := hs_sent s @ map (\<lambda>(t, ok). triggerLog (ea_ContextHeader req) t ok) (zip matched oks),
             hs_db := (hs_db s)\<lparr>event_triggers := filter (\<lambda>t. requestMatches req t \<longrightarrow> et_Persistent t) (event_triggers (hs_db s))
                                              @ map fst (filter putBack (zip matched oks))\<rparr>\<rparr>
    \<and> handleFireEventTriggers env httpMethod body s = (if list_all (\<lambda>ok. ok) oks then (200, matched, s') else (502, [], s'))"
  by (rule fire_effect [OF assms])

definition demoTrigger :: "string \<Rightarrow> string \<Rightarrow> EventTrigger" where
  "demoTrigger i target = \<lparr>et_ID = i, et_ChannelID = ''42'', et_Source = ''hangar'', et_Target = target, et_EventType = ''sync_failed'',
     et_Prompt = ''look'', et_Effort = ''low'', et_CreatedAt = 5, et_Persistent = False\<rparr>"

definition demoEvent :: eventTriggerActionRequest where
  "demoEvent = \<lparr>ea_Source = '' Hangar'', ea_Target = ''azylman/aerial'', ea_Targets = [], ea_EventType = ''sync_failed'', ea_ContextHeader = ''sync''\<rparr>"

definition demoWatching :: haroState where
  "demoWatching = demoState\<lparr>hs_db := (hs_db demoState)\<lparr>event_triggers := [demoTrigger ''w1'' ''azylman/aerial'', demoTrigger ''w2'' ''azylman/mirrormere'']\<rparr>\<rparr>"

definition demoRequest :: eventTriggerActionRequest where
  "demoRequest = demoEvent\<lparr>ea_Source := ''hangar'', ea_Targets := [''azylman/aerial'']\<rparr>"

theorem haro_fire_witness:
  "\<exists>ok. hs_sent (snd (snd (handleFireEventTriggers demoHaro ''POST'' (Some demoEvent) demoWatching)))
        = [triggerLog ''sync'' (demoTrigger ''w1'' ''azylman/aerial'') ok]"
proof -
  have wf: "triggersWf (event_triggers (hs_db demoWatching))" by code_simp
  have p: "parseEventTriggerActionRequest ''POST'' (Some demoEvent) = Inr demoRequest" by code_simp
  have one: "filter (requestMatches demoRequest) (event_triggers (hs_db demoWatching)) = [demoTrigger ''w1'' ''azylman/aerial'']" by code_simp
  have sent: "hs_sent demoWatching = []" "ea_ContextHeader demoRequest = ''sync''"
    by (simp_all add: demoWatching_def demoState_def demoRequest_def demoEvent_def)
  from haro_fire [OF wf p, of demoHaro] show ?thesis
  proof (elim exE conjE, goal_cases)
    case (1 matched oks s')
    have m: "matched = [demoTrigger ''w1'' ''azylman/aerial'']" using 1(1) one by simp
    then obtain ok where "oks = [ok]" using 1(3) by (auto simp: length_Suc_conv)
    then have "hs_sent s' = [triggerLog ''sync'' (demoTrigger ''w1'' ''azylman/aerial'') ok]" using 1(4) m sent by simp
    then show ?case using 1(5) by (cases "list_all (\<lambda>ok. ok) oks") auto
  qed
qed

section \<open>A registered watch is found by its event\<close>

lemma hasPrefix_before: "hasPrefix (u @ c # v) r \<Longrightarrow> c \<notin> set r \<Longrightarrow> hasPrefix u r"
  by (auto simp: hasPrefix_iff append_eq_append_conv2) (metis append_eq_Cons_conv list.set_intros(1))

lemma trimSpace_colon:
  assumes "trimSpace b = b" "a \<noteq> []" "plainByte (hd a)"
  shows "trimSpace (a @ '':'' @ b) = a @ '':'' @ b"
proof (rule trimSpace_fix)
  show "runeLenIn spaceRunes (a @ '':'' @ b) = 0" using assms(2,3) plain_not_space(1) by (cases a) simp_all
  have "CHR '':'' \<notin> set r" if "r \<in> set (map rev spaceRunes)" for r
    using that by (auto simp: spaceRunes_def)
  then have "\<not> hasPrefix (rev (a @ '':'' @ b)) r" if "r \<in> set (map rev spaceRunes)" for r
    using that hasPrefix_before [of "rev b" "CHR '':''" "rev a" r] trimSpace_done(2) [of b]
    unfolding runeLenIn_0 [OF spaceRunes_nonempty(2)] assms(1) by auto
  then show "runeLenIn (map rev spaceRunes) (rev (a @ '':'' @ b)) = 0" unfolding runeLenIn_0 [OF spaceRunes_nonempty(2)] by blast
qed

lemma managed_trim: "r \<in> set managedEventRepos \<Longrightarrow> trimSpace r = r \<and> r \<noteq> [] \<and> plainByte (hd r)"
proof -
  have "list_all (\<lambda>r. trimSpace r = r \<and> r \<noteq> [] \<and> plainByte (hd r)) managedEventRepos" by code_simp
  then show "r \<in> set managedEventRepos \<Longrightarrow> trimSpace r = r \<and> r \<noteq> [] \<and> plainByte (hd r)" by (auto simp: list_all_iff)
qed

definition normalTarget :: "string \<Rightarrow> string \<Rightarrow> bool" where
  "normalTarget t e = (trimSpace t = t \<and> t \<noteq> [] \<and> e \<noteq> [])"

lemma validators_normal:
  "validateVanadisBuild t e = Inr n \<Longrightarrow> trimSpace t = t \<Longrightarrow> t \<noteq> [] \<Longrightarrow> normalTarget n e"
  "validateVanadisChunk t e = Inr n \<Longrightarrow> trimSpace t = t \<Longrightarrow> t \<noteq> [] \<Longrightarrow> normalTarget n e"
  "validateHangar t e = Inr n \<Longrightarrow> normalTarget n e"
  "validateNomad t e = Inr n \<Longrightarrow> trimSpace t = t \<Longrightarrow> normalTarget n e"
  using managed_trim by (auto simp: validateVanadisBuild_def validateVanadisChunk_def validateHangar_def validateNomad_def guardErr_Inr normalTarget_def
      reNomadJob_def trimSpace_toLower)

lemma validateGithub_normal: "validateGithub t e = Inr n \<Longrightarrow> normalTarget n e"
  using managed_trim trimSpace_colon
  by (auto simp: validateGithub_def guardErr_Inr normalTarget_def cleanBranch_def Let_def split: option.splits)

lemma spec_normal:
  assumes "ValidateEventWatchSpec source target eventType extra = Inr (ns, nt, ne)"
  shows "ns = toLower (trimSpace source)" "ne = toLower (trimSpace eventType)" "normalTarget nt ne" "ns \<noteq> []"
proof -
  show "ns = toLower (trimSpace source)" "ne = toLower (trimSpace eventType)"
    using assms by (simp_all add: ValidateEventWatchSpec_def guardErr_Inr rbind_Inr Let_def)
  have t: "trimSpace (trimSpace target) = trimSpace target" "trimSpace target \<noteq> []"
    using assms by (simp_all add: ValidateEventWatchSpec_def guardErr_Inr Let_def)
  show "normalTarget nt ne" "ns \<noteq> []"
    using assms t validators_normal [of "trimSpace target" ne nt] validateGithub_normal
    by (auto simp: ValidateEventWatchSpec_def guardErr_Inr rbind_Inr Let_def normalTarget_def split: if_splits)
qed

lemma NormalizeEffort_valid: "NormalizeEffort e = Inr f \<Longrightarrow> isEffort f"
  by (auto simp: NormalizeEffort_def Let_def isEffort_def split: if_splits)

lemma insertFresh_Inr:
  "insertFresh env ins s = (Inr i, s') \<longleftrightarrow>
   (i = he_uuid env (hs_uuids s) \<and> (\<exists>db. ins i (hs_db s) = Inr db \<and> s' = s\<lparr>hs_uuids := hs_uuids s + 1, hs_db := db\<rparr>))"
  by (auto simp: insertFresh_def newUUID_def applyDB_def rbind_Inr split: sum.splits)

lemma watchTrigger_fields:
  assumes "watchTrigger env now args = Inr mk"
  shows "et_ID (mk i) = i" "et_ChannelID (mk i) = getMapString args [''channel_id'', ''target_id'', ''thread_id'']"
    "et_Prompt (mk i) = getMapString args [''prompt'']" "isEffort (et_Effort (mk i))" "et_CreatedAt (mk i) = now"
    "ValidateEventWatchSpec (getMapString args [''source'']) (getMapString args [''target'']) (getMapString args [''event_type'']) (he_extraSources env)
       = Inr (et_Source (mk i), et_Target (mk i), et_EventType (mk i))"
  using assms by (auto simp: watchTrigger_def guardErr_Inr rbind_Inr Let_def NormalizeEffort_valid split: prod.splits)

lemma watch_effect:
  assumes "HandleWatchEvent env args s = (Inr i, s')" "nowOf env s \<noteq> zeroTime"
  obtains mk where "watchTrigger env (nowOf env s) args = Inr mk" "et_ID (mk i) \<notin> et_ID ` set (event_triggers (hs_db s))"
    "event_triggers (hs_db s') = event_triggers (hs_db s) @ [mk i]"
proof -
  obtain mk where mk: "watchTrigger env (nowOf env s) args = Inr mk"
    using assms(1) by (auto simp: HandleWatchEvent_def split: sum.splits)
  note fields = watchTrigger_fields [OF mk]
  have "insertFresh env (\<lambda>i. InsertEventTrigger (nowOf env s) (mk i)) s = (Inr i, s')"
    using assms(1) mk by (auto simp: HandleWatchEvent_def Let_def split: prod.splits sum.splits if_splits)
  then obtain db where db: "InsertEventTrigger (nowOf env s) (mk i) (hs_db s) = Inr db" "hs_db s' = db"
    by (auto simp: insertFresh_Inr)
  have new: "et_ID (mk i) \<notin> et_ID ` set (event_triggers (hs_db s))"
    using db(1) by (auto simp: InsertEventTrigger_def insertRow_def rbind_Inr Let_def split: if_splits)
  then have "event_triggers (hs_db s') = event_triggers (hs_db s) @ [mk i]"
    using InsertEventTrigger_back [OF fields(4) _ new] assms(2) db fields(5) by auto
  with that mk new show thesis by blast
qed

text \<open>
  C29. A watch that the tool accepted is found by its event: firing the same source and event type with
  the target in the normal form the watch was stored under sends the watch's prompt, under the
  event's header, to the channel it was registered for.
\<close>

theorem watch_then_fire:
  assumes "HandleWatchEvent env args s = (Inr i, s')" "triggersWf (event_triggers (hs_db s))" "nowOf env s \<noteq> zeroTime"
    "ValidateEventWatchSpec (getMapString args [''source'']) (getMapString args [''target'']) (getMapString args [''event_type'']) (he_extraSources env)
       = Inr (source, target, eventType)"
    "ea_Source req = getMapString args [''source'']" "ea_EventType req = getMapString args [''event_type'']" "ea_Target req = target"
  shows "\<exists>effort ok. \<lparr>dl_Kind = ''event_watch'', dl_Schedule = i, dl_Request = BrainPrompt (promptRequest
             (FormatEventTriggerPrompt (ea_ContextHeader req) (getMapString args [''prompt'']))
             (getMapString args [''channel_id'', ''target_id'', ''thread_id'']) [] [] effort), dl_OK = ok\<rparr>
           \<in> set (hs_sent (snd (snd (handleFireEventTriggers env ''POST'' (Some req) s'))))"
proof -
  obtain mk where mk: "watchTrigger env (nowOf env s) args = Inr mk" "et_ID (mk i) \<notin> et_ID ` set (event_triggers (hs_db s))"
    "event_triggers (hs_db s') = event_triggers (hs_db s) @ [mk i]"
    by (rule watch_effect [OF assms(1,3)])
  note fields = watchTrigger_fields [OF mk(1)]
  note norm = spec_normal [OF assms(4)]
  have wf: "triggersWf (event_triggers (hs_db s'))" using assms(2,3) mk(2,3) fields(4,5) by (auto simp: triggersWf_def)
  define r where "r = req\<lparr>ea_Source := source, ea_EventType := eventType, ea_Targets := filter (\<lambda>t. t \<noteq> []) (map trimSpace (target # ea_Targets req))\<rparr>"
  have p: "parseEventTriggerActionRequest ''POST'' (Some req) = Inr r"
    using norm by (simp add: parseEventTriggerActionRequest_def guardErr_def r_def assms(5-7) normalTarget_def)
  have hit: "requestMatches r (mk i)"
    using fields(6) [of i] assms(4) norm(3) by (auto simp: triggerMatches_def r_def normalTarget_def)
  from fire_effect [OF wf p, of env] show ?thesis
  proof (elim exE conjE, goal_cases)
    case (1 matched oks s2)
    have "mk i \<in># mset matched" unfolding 1(1) using hit mk(3) by simp
    then obtain ok where "(mk i, ok) \<in> set (zip matched oks)"
      using 1(3) by (metis in_set_impl_in_set_zip1 set_mset_mset)
    then have "triggerLog (ea_ContextHeader r) (mk i) ok \<in> set (hs_sent s2)" using 1(4) by force
    moreover have "snd (snd (handleFireEventTriggers env ''POST'' (Some req) s')) = s2" using 1(5) by simp
    ultimately show ?case using fields(1-3) [of i] by (auto simp: triggerLog_def r_def)
  qed
qed

definition demoWatch :: argMap where
  "demoWatch = watchEventArgsMap \<lparr>we_ChannelID = ''42'', we_TargetID = [], we_ThreadID = [], we_Source = ''Hangar'', we_Target = ''aerial'',
     we_EventType = ''SYNC_FAILED'', we_Prompt = '' look '', we_Effort = [], we_Persistent = None\<rparr>"

definition demoFired :: eventTriggerActionRequest where
  "demoFired = \<lparr>ea_Source = ''Hangar'', ea_Target = ''azylman/aerial'', ea_Targets = [], ea_EventType = ''SYNC_FAILED'', ea_ContextHeader = ''sync''\<rparr>"

theorem watch_then_fire_witness:
  "\<exists>effort ok. \<lparr>dl_Kind = ''event_watch'', dl_Schedule = ''run-0'', dl_Request = BrainPrompt (promptRequest
       (FormatEventTriggerPrompt ''sync'' ''look'') ''42'' [] [] effort), dl_OK = ok\<rparr>
     \<in> set (hs_sent (snd (snd (handleFireEventTriggers demoHaro ''POST'' (Some demoFired) (snd (HandleWatchEvent demoHaro demoWatch demoState))))))"
proof -
  have "fst (HandleWatchEvent demoHaro demoWatch demoState) = Inr ''run-0''" by code_simp
  then have h: "HandleWatchEvent demoHaro demoWatch demoState = (Inr ''run-0'', snd (HandleWatchEvent demoHaro demoWatch demoState))"
    by (metis prod.collapse)
  have w: "triggersWf (event_triggers (hs_db demoState))" "nowOf demoHaro demoState \<noteq> zeroTime" by code_simp+
  have spec: "ValidateEventWatchSpec (getMapString demoWatch [''source'']) (getMapString demoWatch [''target'']) (getMapString demoWatch [''event_type''])
      (he_extraSources demoHaro) = Inr (''hangar'', ''azylman/aerial'', ''sync_failed'')" by code_simp
  have r: "ea_Source demoFired = getMapString demoWatch [''source'']" "ea_EventType demoFired = getMapString demoWatch [''event_type'']"
    "ea_Target demoFired = ''azylman/aerial''" by code_simp+
  have v: "getMapString demoWatch [''prompt''] = ''look''" "getMapString demoWatch [''channel_id'', ''target_id'', ''thread_id''] = ''42''"
    "ea_ContextHeader demoFired = ''sync''" by code_simp+
  show ?thesis using watch_then_fire [OF h w spec r] unfolding v .
qed

section \<open>Boundary behaviour\<close>

text \<open>A relative time beyond the range of a duration wraps around to a time in the past.\<close>

lemma run_at_wraps: "ParseRunAtWithTimezone demoHaro ''999999d'' ''UTC'' 0 = Inr (- 5833806768547758080)"
proof -
  have t: "trimSpace ''999999d'' = ''999999d''" "trimSpace ''UTC'' = ''UTC''" "toLower ''999999d'' = ''999999d''"
    "reRelative ''999999d'' = Some (''999999'', ''d'')" "he_zoneOk demoHaro ''UTC''"
    by code_simp+
  have n: "atoi ''999999'' = Some 999999"
    by (simp add: atoiBody_def isDigit_def digitVal_def inInt64_def)
  have "sint (relativeDuration (word_of_int 999999) ''d'') = - 5833806768547758080"
    by (simp add: relativeDuration_def)
  then show ?thesis by (simp add: ParseRunAtWithTimezone_def Let_def t n guardErr_def del: toLower.simps atoi.simps)
qed

text \<open>
  A new cron expression is evaluated in the time zone of the request or of the server, never in
  the one the schedule is stored with.
\<close>

lemma cron_update_zone:
  assumes "uc_CronExpression args = Some e" "trimSpace e \<noteq> []" "uc_Timezone args = None" "he_cronOk env e" "he_zoneOk env (trimSpace (he_timezone env))"
    "trimSpace (he_timezone env) \<noteq> []"
  shows "cronNextOf env now args = Inr (Some (he_next env e (trimSpace (he_timezone env)) now))"
  using assms by (simp add: cronNextOf_def resolveTimezone_def CalculateNextCronRun_def guardErr_def)

text \<open>The branch prefix is stripped before the blanks are, so a blank before it keeps it in the target.\<close>

lemma branch_prefix_kept:
  "ValidateEventWatchSpec ''github'' ''aerial: refs/heads/main'' ''pr_merged'' [] = Inr (''github'', ''azylman/aerial:refs/heads/main'', ''pr_merged'')"
  by code_simp

text \<open>A heartbeat registered without an effort gets the lowest tier.\<close>

lemma heartbeat_default_effort: "getMapString args [''effort''] = [] \<Longrightarrow> heartbeatSchedule env now tz args = Inr mk \<Longrightarrow> cr_Effort (mk i) = ''low''"
  by (auto simp: heartbeatSchedule_def NormalizeEffort_def Let_def guardErr_Inr rbind_Inr)

end
