(* ===== verification/HaroOnce.thy ===== *)
theory HaroOnce
  imports HaroServer
begin

text \<open>
  Reminders under concurrency: the step relation of \<^verbatim>\<open>HaroServer\<close> keeps the invariant that the deliveries of
  a reminder, the claims of it and its rows never exceed its creations. The first part shows that
  the other operations leave the reminders alone.
\<close>

section \<open>Reminders are sent at most once\<close>

definition sentReminders :: "haroState \<Rightarrow> string list" where
  "sentReminders s = map dl_Schedule (filter (\<lambda>l. dl_Kind l = ''one_shot'') (hs_sent s))"

text \<open>What a step does to the reminders: most leave the table and the deliveries alone.\<close>

definition reminders :: "haroState \<Rightarrow> OneShotSchedule list \<times> string list" where
  "reminders s = (one_shot_schedules (hs_db s), sentReminders s)"

lemma sentReminders_core: "map logCore (hs_sent s') = map logCore (hs_sent s) @ es \<Longrightarrow>
   sentReminders s' = sentReminders s @ map (\<lambda>e. fst (snd e)) (filter (\<lambda>e. fst e = ''one_shot'') es)"
proof -
  have eq: "sentReminders s = map (\<lambda>e. fst (snd e)) (filter (\<lambda>e. fst e = ''one_shot'') (map logCore (hs_sent s)))" for s
    unfolding sentReminders_def by (induction "hs_sent s") (simp_all add: filter_map comp_def logCore_def)
  show "map logCore (hs_sent s') = map logCore (hs_sent s) @ es \<Longrightarrow>
   sentReminders s' = sentReminders s @ map (\<lambda>e. fst (snd e)) (filter (\<lambda>e. fst e = ''one_shot'') es)"
    unfolding eq by simp
qed

lemma reminders_db [simp]: "reminders (s\<lparr>hs_db := db\<rparr>) = (one_shot_schedules db, sentReminders s)"
  "reminders (s\<lparr>hs_uuids := n\<rparr>) = reminders s" "reminders (s\<lparr>hs_lastPrune := t\<rparr>) = reminders s"
  by (simp_all add: reminders_def sentReminders_def)

lemma reminders_sent: "reminders (s\<lparr>hs_sent := hs_sent s @ [l]\<rparr>) = (fst (reminders s), snd (reminders s) @ (if dl_Kind l = ''one_shot'' then [dl_Schedule l] else []))"
  by (simp add: reminders_def sentReminders_def)

lemma recordRun_one_shots [simp]: "one_shot_schedules (hs_db (recordRun now r s)) = one_shot_schedules (hs_db s)"
  using recordRun_frame(1) [of now r s] by (simp add: scheduleTables_def)

lemma advance_quiet:
  "AdvanceCronNextRun i t db = Inr db' \<Longrightarrow> one_shot_schedules db' = one_shot_schedules db"
  "AdvanceHeartbeatNextRun i t db = Inr db' \<Longrightarrow> one_shot_schedules db' = one_shot_schedules db"
  "InsertCronSchedule now c db = Inr db' \<Longrightarrow> one_shot_schedules db' = one_shot_schedules db"
  "InsertHeartbeatSchedule now c db = Inr db' \<Longrightarrow> one_shot_schedules db' = one_shot_schedules db"
  "InsertEventTrigger now e db = Inr db' \<Longrightarrow> one_shot_schedules db' = one_shot_schedules db"
  "UpdateHeartbeatSchedule c db = Inr db' \<Longrightarrow> one_shot_schedules db' = one_shot_schedules db"
  "UpdateCronSchedule i ef ce pr ti tz nx db = Inr db' \<Longrightarrow> one_shot_schedules db' = one_shot_schedules db"
  "DeleteEventTrigger i db = Inr (d, db') \<Longrightarrow> one_shot_schedules db' = one_shot_schedules db"
  by (auto simp: AdvanceCronNextRun_def AdvanceHeartbeatNextRun_def InsertCronSchedule_def InsertHeartbeatSchedule_def InsertEventTrigger_def
      UpdateHeartbeatSchedule_def UpdateCronSchedule_def DeleteEventTrigger_def rbind_Inr guardErr_Inr Let_def split: if_splits)

lemma insertFresh_quiet:
  "(\<And>i db db'. ins i db = Inr db' \<Longrightarrow> one_shot_schedules db' = one_shot_schedules db) \<Longrightarrow> reminders (snd (insertFresh env ins s)) = reminders s"
  by (auto simp: insertFresh_def newUUID_def applyDB_def rbind_Inr reminders_def sentReminders_def split: sum.splits)

lemma applyDB_quiet:
  "applyDB f s = Inr s' \<Longrightarrow> (\<And>db db'. f db = Inr db' \<Longrightarrow> one_shot_schedules db' = one_shot_schedules db) \<Longrightarrow> reminders s' = reminders s"
  by (auto simp: applyDB_def rbind_Inr reminders_def sentReminders_def)

lemma cron_quiet: "reminders (processDueCron env now c s) = reminders s"
  by (auto simp: processDueCron_def Let_def newUUID_def DispatchPrompt_def reminders_def sentReminders_def split: prod.splits sum.splits dest: advance_quiet)

lemma heartbeat_quiet: "reminders (processDueHeartbeat env now c s) = reminders s"
  by (auto simp: processDueHeartbeat_def Let_def newUUID_def Dispatch_def reminders_def sentReminders_def split: prod.splits sum.splits dest: advance_quiet)

lemma fireTrigger_quiet: "reminders (snd (fireTrigger env header t s)) = reminders s"
  by (auto simp: fireTrigger_def DispatchPrompt_def Let_def applyDB_def rbind_Inr reminders_def sentReminders_def split: prod.splits sum.splits dest: advance_quiet)

lemma fireLoop_quiet: "reminders (snd (snd (fireLoop env header ts s))) = reminders s"
proof (induction ts arbitrary: s)
  case (Cons t ts)
  then show ?case using fireTrigger_quiet [of env header t s] by (auto simp: Let_def split: prod.splits) (metis snd_conv)
qed simp

lemma claim_quiet: "one_shot_schedules (snd (ClaimEventTriggers a b e db)) = one_shot_schedules db"
  by (simp add: ClaimEventTriggers_def Let_def split: option.split)

lemma event_calls_quiet:
  "reminders (snd (snd (handleClaimEventTriggers m b s))) = reminders s"
  "reminders (snd (snd (handleFireEventTriggers env m b s))) = reminders s"
proof -
  have c: "one_shot_schedules db = one_shot_schedules (hs_db s)" if "ClaimEventTriggers a b e (hs_db s) = (ts, db)" for a b e ts db
    using claim_quiet [of a b e "hs_db s"] that by simp
  show "reminders (snd (snd (handleClaimEventTriggers m b s))) = reminders s"
    using c by (auto simp: handleClaimEventTriggers_def reminders_def sentReminders_def split: sum.split prod.split)
  have "reminders s2 = reminders s" if "ClaimEventTriggers a b e (hs_db s) = (ts, db)" "fireLoop env h ts (s\<lparr>hs_db := db\<rparr>) = (f, ok, s2)" for a b e ts db h f ok s2
    using c [OF that(1)] fireLoop_quiet [of env h ts "s\<lparr>hs_db := db\<rparr>"] that(2) by (simp add: reminders_def sentReminders_def)
  then show "reminders (snd (snd (handleFireEventTriggers env m b s))) = reminders s"
    by (auto simp: handleFireEventTriggers_def split: sum.split prod.split)
qed

lemma insert_tools_quiet:
  "reminders (snd (handleScheduleRecurring env ra s)) = reminders s"
  "reminders (snd (HandleScheduleHeartbeat env args s)) = reminders s"
  by (auto simp: handleScheduleRecurring_def HandleScheduleHeartbeat_def insertFresh_quiet advance_quiet split: sum.split)

lemma update_tools_quiet:
  "reminders (snd (UpdateCronScheduleTool env ua s)) = reminders s"
  "reminders (snd (HandleUpdateHeartbeat env args s)) = reminders s"
  "reminders (snd (HandleCancelEventWatch args s)) = reminders s"
  by (auto simp: UpdateCronScheduleTool_def HandleUpdateHeartbeat_def HandleCancelEventWatch_def
      Let_def advance_quiet rbind_Inr reminders_def sentReminders_def applyDB_def split: sum.split prod.split)

lemma watch_quiet: "reminders (snd (HandleWatchEvent env args s)) = reminders s"
proof (cases "watchTrigger env (nowOf env s) args")
  case (Inr mk)
  let ?r = "insertFresh env (\<lambda>i. InsertEventTrigger (nowOf env s) (mk i)) s"
  have q: "reminders (snd ?r) = reminders s" by (rule insertFresh_quiet) (rule advance_quiet)
  moreover have "reminders (s1\<lparr>hs_db := db\<rparr>) = reminders s1" if "DeleteEventTrigger i (hs_db s1) = Inr (d, db)" for i s1 d db
    using advance_quiet(8) [OF that] by (simp add: reminders_def sentReminders_def)
  ultimately show ?thesis by (auto simp: HandleWatchEvent_def Inr Let_def split: prod.split sum.split)
qed (simp add: HandleWatchEvent_def)

text \<open>The calls that touch reminders: creation appends a row, cancelling removes rows.\<close>

lemma InsertOneShot_rows:
  "InsertOneShotSchedule now sc db = Inr db' \<Longrightarrow> \<exists>r. os_ID r = os_ID sc \<and> one_shot_schedules db' = one_shot_schedules db @ [r]"
  by (auto simp: InsertOneShotSchedule_def insertRow_def rbind_Inr Let_def split: if_splits)

definition uuidsGood :: "haroEnv \<Rightarrow> bool" where
  "uuidsGood env = (\<forall>n. goodID (he_uuid env n))"

text \<open>A call keeps a part of the rows and adds the reminders it created, and sends none.\<close>

definition callEffect :: "haroState \<Rightarrow> string list \<Rightarrow> haroState \<Rightarrow> bool" where
  "callEffect s new s' = (sentReminders s' = sentReminders s \<and> list_all goodID new
     \<and> (\<exists>P. map os_ID (one_shot_schedules (hs_db s')) = map os_ID (filter P (one_shot_schedules (hs_db s))) @ new))"

lemma callEffect_quiet: "reminders s' = reminders s \<Longrightarrow> callEffect s [] s'"
  by (auto simp: callEffect_def reminders_def intro: exI [of _ "\<lambda>_. True"])

lemma once_effect:
  assumes "uuidsGood env"
  shows "callEffect s (createdBy (handleScheduleOnce env a s)) (snd (handleScheduleOnce env a s))"
proof (cases "onceSchedule env (nowOf env s) a")
  case (Inr mk)
  let ?ins = "\<lambda>i. InsertOneShotSchedule (nowOf env s) (mk i)" and ?i = "he_uuid env (hs_uuids s)"
  have id: "os_ID (mk i) = i" for i using Inr by (auto simp: onceSchedule_def guardErr_Inr rbind_Inr Let_def)
  have r: "handleScheduleOnce env a s = insertFresh env ?ins s" by (simp add: handleScheduleOnce_def Inr)
  show ?thesis
  proof (cases "?ins ?i (hs_db s)")
    case (Inl e)
    then show ?thesis unfolding r
      by (intro callEffect_quiet [of _ s] | simp add: insertFresh_def newUUID_def applyDB_def createdBy_def)+
  next
    case ok: (Inr db)
    obtain q where q: "os_ID q = ?i" "one_shot_schedules db = one_shot_schedules (hs_db s) @ [q]"
      using InsertOneShot_rows [OF ok] unfolding id by blast
    have "goodID ?i" using assms by (simp add: uuidsGood_def)
    then show ?thesis unfolding r using ok q
      by (auto simp: insertFresh_def newUUID_def applyDB_def createdBy_def callEffect_def sentReminders_def intro!: exI [of _ "\<lambda>_. True"])
  qed
qed (auto simp: handleScheduleOnce_def createdBy_def intro: callEffect_quiet)

lemma one_shot_effect:
  assumes "uuidsGood env" "handleScheduleOneShot env m b s = (code, i, s')"
  shows "callEffect s (if code = 200 then [i] else []) s'"
proof -
  have new: "newUUID env s = (j, s1) \<Longrightarrow> goodID j \<and> reminders s1 = reminders s" for j s1
    using assms(1) by (auto simp: newUUID_def uuidsGood_def)
  have given: "trimSpace x \<noteq> [] \<Longrightarrow> goodID (trimSpace x)" for x by (simp add: goodID_def)
  have ins: "callEffect s [j] s2" if h: "goodID j" "reminders s1 = reminders s" "applyDB (InsertOneShotSchedule now sc) s1 = Inr s2" "os_ID sc = j" for j s1 now sc s2
  proof -
    obtain db where db: "InsertOneShotSchedule now sc (hs_db s1) = Inr db" "s2 = s1\<lparr>hs_db := db\<rparr>"
      using h(3) by (auto simp: applyDB_def rbind_Inr)
    from InsertOneShot_rows [OF db(1)] h(1,2,4) show ?thesis
      unfolding db(2) by (auto simp: callEffect_def reminders_def sentReminders_def intro!: exI [of _ "\<lambda>_. True"])
  qed
  show ?thesis using assms(2)
    by (auto simp: handleScheduleOneShot_def Let_def intro!: callEffect_quiet dest: new intro: given ins split: if_splits option.splits prod.splits sum.splits)
qed

lemma cancel_effect: "callEffect s [] (snd (CancelSchedule i s))"
  by (auto simp: CancelSchedule_def DeleteSchedule_def Let_def callEffect_def sentReminders_def intro: exI [of _ "\<lambda>_. True"])

lemma runCall_effect: "uuidsGood env \<Longrightarrow> runCall env call s = (new, s') \<Longrightarrow> callEffect s new s'"
proof (cases call)
  case (CallOneShot m b)
  assume "uuidsGood env" "runCall env call s = (new, s')"
  then show ?thesis using one_shot_effect unfolding CallOneShot by (fastforce simp: Let_def split: prod.splits)
next
  case (CallCancel i)
  assume "runCall env call s = (new, s')"
  then show ?thesis using cancel_effect [of s i] unfolding CallCancel by auto
qed (auto simp: ScheduleOnce_def once_effect
    intro!: callEffect_quiet insert_tools_quiet update_tools_quiet watch_quiet event_calls_quiet)

text \<open>Deliveries, claims and rows together never exceed the creations.\<close>

definition haroOnce :: "haroCluster \<Rightarrow> bool" where
  "haroOnce c = (mset (sentReminders (hc_state c)) + mset (map os_ID (hc_claimed c)) + mset (map os_ID (one_shot_schedules (hs_db (hc_state c))))
       \<subseteq># mset (hc_created c)
     \<and> list_all goodID (map os_ID (one_shot_schedules (hs_db (hc_state c)))) \<and> list_all goodID (map os_ID (hc_due c)))"

definition haroInit :: "haroCluster \<Rightarrow> bool" where
  "haroInit c = (hs_sent (hc_state c) = [] \<and> hc_due c = [] \<and> hc_claimed c = []
     \<and> hc_created c = map os_ID (one_shot_schedules (hs_db (hc_state c))) \<and> list_all goodID (hc_created c))"

lemma mset_filter_ids: "mset (map f (filter P xs)) \<subseteq># mset (map f xs)"
  by (metis image_mset_subseteq_mono mset_filter mset_map multiset_filter_subset)

lemma mset_remove_id: "i \<in> f ` set xs \<Longrightarrow> add_mset i (mset (map f (filter (\<lambda>x. f x \<noteq> i) xs))) \<subseteq># mset (map f xs)"
proof (induction xs)
  case (Cons x xs)
  then show ?case using mset_filter_ids [of f "\<lambda>x. f x \<noteq> i" xs]
    by (cases "f x = i") (auto simp: add_mset_commute)
qed simp

lemma haroOnce_call: "uuidsGood env \<Longrightarrow> runCall env call (hc_state c) = (new, st) \<Longrightarrow> haroOnce c \<Longrightarrow>
   haroOnce (c\<lparr>hc_state := st, hc_created := hc_created c @ new\<rparr>)"
proof -
  assume a: "uuidsGood env" "runCall env call (hc_state c) = (new, st)" "haroOnce c"
  let ?rows = "one_shot_schedules (hs_db (hc_state c))"
  obtain P where e: "sentReminders st = sentReminders (hc_state c)" "list_all goodID new"
      "map os_ID (one_shot_schedules (hs_db st)) = map os_ID (filter P ?rows) @ new"
    using runCall_effect [OF a(1,2)] by (auto simp: callEffect_def)
  have "mset (sentReminders st) + mset (map os_ID (hc_claimed c)) + mset (map os_ID (filter P ?rows)) \<subseteq># mset (hc_created c)"
    using a(3) mset_filter_ids [of os_ID P ?rows] unfolding e haroOnce_def by (meson subset_mset.add_left_mono subset_mset.order_trans)
  then have "mset (sentReminders st) + mset (map os_ID (hc_claimed c)) + mset (map os_ID (one_shot_schedules (hs_db st))) \<subseteq># mset (hc_created c @ new)"
    unfolding e by (simp add: add.assoc [symmetric])
  moreover have "list_all goodID (map os_ID (one_shot_schedules (hs_db st)))"
    unfolding e(3) using a(3) e(2) by (auto simp: haroOnce_def list_all_iff)
  ultimately show ?thesis using a(3) by (simp add: haroOnce_def)
qed

lemma haroOnce_quiet: "reminders st = reminders (hc_state c) \<Longrightarrow> haroOnce c \<Longrightarrow> haroOnce (c\<lparr>hc_state := st\<rparr>)"
  by (simp add: haroOnce_def reminders_def)

lemma haroOnce_claim:
  assumes "haroOnce c" "sc \<in> set (hc_due c)" "claimOneShot (os_ID sc) (hc_state c) = Some st"
  shows "haroOnce (c\<lparr>hc_state := st, hc_claimed := hc_claimed c @ [sc]\<rparr>)"
proof -
  let ?rows = "one_shot_schedules (hs_db (hc_state c))"
  have g: "goodID (os_ID sc)" using assms(1,2) by (auto simp: haroOnce_def list_all_iff)
  have i: "os_ID sc \<in> os_ID ` set ?rows"
    and st: "st = (hc_state c)\<lparr>hs_db := (hs_db (hc_state c))\<lparr>one_shot_schedules := filter (\<lambda>r. os_ID r \<noteq> os_ID sc) ?rows\<rparr>\<rparr>"
    using assms(3) unfolding claimOneShot_eq [OF g] by (auto split: if_splits)
  have "mset (sentReminders st) + mset (map os_ID (hc_claimed c @ [sc])) + mset (map os_ID (one_shot_schedules (hs_db st)))
      \<subseteq># mset (sentReminders (hc_state c)) + mset (map os_ID (hc_claimed c)) + mset (map os_ID ?rows)"
    using mset_remove_id [OF i] by (simp add: st sentReminders_def)
  moreover have "mset (sentReminders (hc_state c)) + mset (map os_ID (hc_claimed c)) + mset (map os_ID ?rows) \<subseteq># mset (hc_created c)"
    using assms(1) by (simp add: haroOnce_def)
  ultimately have "mset (sentReminders st) + mset (map os_ID (hc_claimed c @ [sc])) + mset (map os_ID (one_shot_schedules (hs_db st))) \<subseteq># mset (hc_created c)"
    by (rule subset_mset.order_trans)
  moreover have "list_all goodID (map os_ID (one_shot_schedules (hs_db st)))" using assms(1) by (auto simp: st haroOnce_def list_all_iff)
  ultimately show ?thesis using assms(1) by (simp add: haroOnce_def)
qed

lemma haroOnce_send:
  assumes "haroOnce c" "hc_claimed c = xs @ sc # ys"
  shows "haroOnce (c\<lparr>hc_state := finishOneShot env now sc (hc_state c), hc_claimed := xs @ ys\<rparr>)"
proof -
  let ?st = "finishOneShot env now sc (hc_state c)"
  have rows: "one_shot_schedules (hs_db ?st) = one_shot_schedules (hs_db (hc_state c))"
    using finishOneShot_effect(1) [of env now sc "hc_state c"] by (simp add: scheduleTables_def)
  have "mset (sentReminders ?st) \<subseteq># add_mset (os_ID sc) (mset (sentReminders (hc_state c)))"
    using sentReminders_core [OF finishOneShot_effect(2) [of env now sc "hc_state c"]] by (simp add: oneShotLog_def)
  then have "mset (sentReminders ?st) + mset (map os_ID (xs @ ys)) \<subseteq># mset (sentReminders (hc_state c)) + mset (map os_ID (hc_claimed c))"
    using assms(2) by (simp add: subset_mset.add_right_mono)
  then show ?thesis using assms(1) unfolding haroOnce_def
    by (simp add: rows) (meson subset_mset.add_right_mono subset_mset.order_trans)
qed

lemma haroOnce_query: "haroOnce c \<Longrightarrow> haroOnce (c\<lparr>hc_due := hc_due c @ GetDueOneShotSchedules now (hs_db (hc_state c))\<rparr>)"
  by (auto simp: haroOnce_def list_all_iff GetDueOneShotSchedules_def)

interpretation once: inductive_invariant haroInit "haroStep env" "\<lambda>c. uuidsGood env \<longrightarrow> haroOnce c" for env
proof unfold_locales
  show "haroInit c \<Longrightarrow> uuidsGood env \<longrightarrow> haroOnce c" for c
    by (auto simp: haroInit_def haroOnce_def sentReminders_def)
  show "haroStep env c c' \<Longrightarrow> uuidsGood env \<longrightarrow> haroOnce c \<Longrightarrow> uuidsGood env \<longrightarrow> haroOnce c'" for c c'
    by (erule haroStepE)
      (auto intro: haroOnce_call haroOnce_claim haroOnce_send haroOnce_query intro!: haroOnce_quiet cron_quiet heartbeat_quiet
        simp: PruneScheduleRuns_def Let_def reminders_def sentReminders_def)
qed

text \<open>A tick of one ticker is a run of these steps.\<close>

lemma one_shot_steps: "sc \<in> set (hc_due c) \<Longrightarrow> (haroStep env)\<^sup>*\<^sup>* c (c\<lparr>hc_state := processDueOneShot env now sc (hc_state c)\<rparr>)"
proof (cases "claimOneShot (os_ID sc) (hc_state c)")
  case None
  then show ?thesis by (cases c) (simp add: processDueOneShot_def)
next
  case (Some st)
  assume d: "sc \<in> set (hc_due c)"
  let ?c1 = "c\<lparr>hc_state := st, hc_claimed := hc_claimed c @ [sc]\<rparr>"
  have "haroStep env ?c1 (?c1\<lparr>hc_state := finishOneShot env now sc (hc_state ?c1), hc_claimed := hc_claimed c @ []\<rparr>)"
    by (rule haroStep.SendStep) simp
  moreover have "?c1\<lparr>hc_state := finishOneShot env now sc (hc_state ?c1), hc_claimed := hc_claimed c @ []\<rparr>
      = c\<lparr>hc_state := processDueOneShot env now sc (hc_state c)\<rparr>"
    using Some by (cases c) (simp add: processDueOneShot_def)
  moreover have "haroStep env c ?c1" using d Some by (rule haroStep.ClaimStep)
  ultimately show ?thesis by (metis converse_rtranclp_into_rtranclp r_into_rtranclp)
qed

lemma fold_steps:
  assumes "\<And>x c. x \<in> set xs \<Longrightarrow> hc_due c = due \<Longrightarrow> (haroStep env)\<^sup>*\<^sup>* c (c\<lparr>hc_state := f x (hc_state c)\<rparr>)" "hc_due c = due"
  shows "(haroStep env)\<^sup>*\<^sup>* c (c\<lparr>hc_state := fold f xs (hc_state c)\<rparr>)"
  using assms
proof (induction xs arbitrary: c)
  case (Cons x xs)
  let ?c = "c\<lparr>hc_state := f x (hc_state c)\<rparr>"
  have "(haroStep env)\<^sup>*\<^sup>* c ?c" using Cons.prems by simp
  moreover have "(haroStep env)\<^sup>*\<^sup>* ?c (?c\<lparr>hc_state := fold f xs (hc_state ?c)\<rparr>)"
    by (rule Cons.IH) (use Cons.prems in simp_all)
  ultimately show ?case by simp
qed simp

lemma prune_steps: "(haroStep env)\<^sup>*\<^sup>* c (c\<lparr>hc_state := (hc_state c)\<lparr>hs_lastPrune := now,
    hs_db := PruneScheduleRuns (he_idLess env) n a now (hs_db (hc_state c))\<rparr>\<rparr>)"
  by (rule r_into_rtranclp) (rule haroStep.PruneStep)

lemma heartbeat_steps: "(haroStep env)\<^sup>*\<^sup>* c (c\<lparr>hc_state := processDueHeartbeat env now sch (hc_state c)\<rparr>)"
  by (rule r_into_rtranclp) (rule haroStep.HeartbeatStep)

lemma tick_steps:
  "\<exists>due. (haroStep env)\<^sup>*\<^sup>* c (c\<lparr>hc_due := due, hc_state := EvaluateDueSchedules env now (hc_state c)\<rparr>)"
proof -
  define s1 where "s1 = evaluateDueCronSchedules env now (hc_state c)"
  define due where "due = hc_due c @ GetDueOneShotSchedules now (hs_db s1)"
  define s2 where "s2 = evaluateDueOneShotSchedules env now s1"
  define s3 where "s3 = evaluateDueHeartbeatSchedules env now s2"
  let ?c1 = "c\<lparr>hc_state := s1\<rparr>" and ?c2 = "c\<lparr>hc_due := due, hc_state := s1\<rparr>"
    and ?c3 = "c\<lparr>hc_due := due, hc_state := s2\<rparr>" and ?c4 = "c\<lparr>hc_due := due, hc_state := s3\<rparr>"
    and ?c5 = "c\<lparr>hc_due := due, hc_state := EvaluateDueSchedules env now (hc_state c)\<rparr>"
  have "(haroStep env)\<^sup>*\<^sup>* c ?c1" unfolding s1_def evaluateDueCronSchedules_def
    by (rule fold_steps [OF r_into_rtranclp refl]) (rule haroStep.CronStep)
  moreover have "haroStep env ?c1 ?c2" using haroStep.QueryStep [of env ?c1 now] by (cases c) (simp add: due_def)
  moreover have "(haroStep env)\<^sup>*\<^sup>* ?c2 ?c3"
    using fold_steps [of "GetDueOneShotSchedules now (hs_db s1)" due env "processDueOneShot env now" ?c2] one_shot_steps
    by (auto simp: s2_def evaluateDueOneShotSchedules_def due_def)
  moreover have "(haroStep env)\<^sup>*\<^sup>* ?c3 ?c4"
    using fold_steps [of "GetDueHeartbeatSchedules now (hs_db s2)" due env "processDueHeartbeat env now" ?c3] heartbeat_steps
    by (auto simp: s3_def evaluateDueHeartbeatSchedules_def)
  moreover have "(haroStep env)\<^sup>*\<^sup>* ?c4 ?c5"
    using prune_steps [where env = env and c = ?c4 and now = now and n = 1000 and a = "30 * dayNs"] by (simp add: EvaluateDueSchedules_def Let_def s1_def s2_def s3_def)
  ultimately have "(haroStep env)\<^sup>*\<^sup>* c ?c5" by (meson rtranclp.rtrancl_into_rtrancl rtranclp_trans)
  then show ?thesis by blast
qed

text \<open>
  C26. A reminder is sent at most as often as it was created, however the steps of several
  tickers, the tools and the HTTP handlers interleave: the attempts to deliver an id, the claims of it
  that are under way and its rows together never exceed the creations of that id. With an id created
  once there is at most one attempt, and none while its row is still in the table.
\<close>

theorem reminder_at_most_once:
  assumes "reach haroInit (haroStep env) c" "uuidsGood env"
  shows "count_list (sentReminders (hc_state c)) i + count_list (map os_ID (hc_claimed c)) i
           + count_list (map os_ID (one_shot_schedules (hs_db (hc_state c)))) i \<le> count_list (hc_created c) i"
proof -
  have "haroOnce c" using once.reach_inv [OF assms(1)] assms(2) by blast
  then have "count (mset (sentReminders (hc_state c)) + mset (map os_ID (hc_claimed c)) + mset (map os_ID (one_shot_schedules (hs_db (hc_state c))))) i
      \<le> count (mset (hc_created c)) i"
    unfolding haroOnce_def by (blast intro: mset_subset_eq_count)
  then show ?thesis by (simp only: count_union count_mset)
qed

lemma demo_uuids: "uuidsGood demoHaro"
proof -
  have "trimSpace (''run-'' @ natStr n) = ''run-'' @ natStr n" for n
    using natStr_digits [of n] by (intro trimSpace_plain_all) (auto simp: list_all_iff plainByte_def isDigit_def Let_def)
  then show ?thesis by (simp add: uuidsGood_def demoHaro_def goodID_def)
qed

theorem reminder_at_most_once_witness:
  "\<exists>c. reach haroInit (haroStep demoHaro) c \<and> sentReminders (hc_state c) = [''r1''] \<and> hc_created c = [''r1'', ''r2'']
     \<and> count_list (sentReminders (hc_state c)) ''r1'' + count_list (map os_ID (hc_claimed c)) ''r1''
         + count_list (map os_ID (one_shot_schedules (hs_db (hc_state c)))) ''r1'' \<le> count_list (hc_created c) ''r1''"
proof -
  let ?c = "\<lparr>hc_state = demoState, hc_due = [], hc_claimed = [], hc_created = [''r1'', ''r2'']\<rparr>"
  have init: "reach haroInit (haroStep demoHaro) ?c"
    by (rule reach.reach_init) code_simp
  obtain due where st: "(haroStep demoHaro)\<^sup>*\<^sup>* ?c (?c\<lparr>hc_due := due, hc_state := EvaluateDueSchedules demoHaro 100 demoState\<rparr>)"
    using tick_steps [of demoHaro ?c 100] by auto
  let ?c' = "?c\<lparr>hc_due := due, hc_state := EvaluateDueSchedules demoHaro 100 demoState\<rparr>"
  have r: "reach haroInit (haroStep demoHaro) ?c'" by (rule once.path_reach [OF st init])
  have "haroWf (hs_db demoState)" by code_simp
  note log = tick_effect(2) [OF this, of demoHaro 100]
  have "sentReminders (EvaluateDueSchedules demoHaro 100 demoState) = sentReminders demoState
      @ map (\<lambda>e. fst (snd e)) (filter (\<lambda>e. fst e = ''one_shot'') (dueLog demoHaro 100 (hs_db demoState)))"
    by (rule sentReminders_core [OF log])
  also have "\<dots> = [''r1'']" by code_simp
  finally show ?thesis using reminder_at_most_once [OF r demo_uuids, of "''r1''"] r by (intro exI [of _ ?c']) simp
qed

end
