(* ===== verification/RunnerText.thy ===== *)
theory RunnerText
  imports GoText
begin

text \<open>
  The pure parts of the agent runner (\<^verbatim>\<open>services/eri/pkg/runner\<close>): the environment of an agent
  process (\<^verbatim>\<open>pure.go\<close>), its arguments (\<^verbatim>\<open>daemon.go\<close>), the names of tools and skills, the prompt of
  a leased turn, the memory lines already shown in a conversation (\<^verbatim>\<open>streaming_daemon.go\<close>), and the
  classification of a turn's outcome (\<^verbatim>\<open>runner.go\<close>, \<^verbatim>\<open>resolver.go\<close>). JSON parameters arrive decoded.
\<close>

section \<open>Upper case\<close>

text \<open>
  As for \<^const>\<open>toLower\<close>: outside ASCII two runes have an ASCII upper case, U+0131 (dotless i) and
  U+017F (long s); the results are compared with ASCII texts only.
\<close>

definition upperByte :: "char \<Rightarrow> char" where
  "upperByte c = (let n = of_char c :: nat in if 97 \<le> n \<and> n \<le> 122 then char_of (n - 32) else c)"

fun toUpper :: "string \<Rightarrow> string" where
  "toUpper [] = []"
| "toUpper (c # s) =
     (if c = CHR 0xC4 \<and> hasPrefix s [CHR 0xB1] then CHR ''I'' # toUpper (drop 1 s)
      else if c = CHR 0xC5 \<and> hasPrefix s [CHR 0xBF] then CHR ''S'' # toUpper (drop 1 s)
      else upperByte c # toUpper s)"

section \<open>Process environment\<close>

record AgyEnvInput =
  ae_BaseEnv :: "string list"
  ae_HomeDir :: string
  ae_APIKey :: string
  ae_TargetID :: string
  ae_Timezone :: string
  ae_ExtraEnv :: "string list"

definition envKey :: "string \<Rightarrow> string" where
  "envKey k = toUpper (trimSpace k)"

definition filterEnvKeys :: "string list \<Rightarrow> string list \<Rightarrow> string list" where
  "filterEnvKeys env excluded =
     filter (\<lambda>e. case strCut e ''='' of Some (k, _) \<Rightarrow> envKey k \<notin> set (map envKey excluded) | None \<Rightarrow> True) env"

definition secretKeys :: "string list" where
  "secretKeys = [''GEMINI_API_KEY'', ''ANTIGRAVITY_API_KEY'', ''GOOGLE_GENAI_API_KEY'', ''GEMINI_HARNESS_API_KEY'',
     ''AGY_GEMINI_API_KEY'', ''GITHUB_PAT'', ''DISCORD_TOKEN'', ''DISCORD_BOT_TOKEN'', ''DATABASE_URL'', ''POSTGRES_PASSWORD'',
     ''HA_TOKEN'', ''OPENOBSERVE_PASSWORD'', ''OPENOBSERVE_ROOT_USER_PASSWORD'', ''UNIFI_PASS'', ''UNIFI_PASSWORD'',
     ''OP_SERVICE_ACCOUNT_TOKEN'', ''1PASSWORD_SERVICE_ACCOUNT_TOKEN'', ''QNAP_PASS'', ''NOMAD_TOKEN'', ''INFISICAL_CLIENT_SECRET'',
     ''CLOUDFLARE_MCP_TOKEN'', ''UBEREATS_MCP_TOKEN'']"

definition FilterAgyBaseEnv :: "string list \<Rightarrow> string list" where
  "FilterAgyBaseEnv env = filterEnvKeys env secretKeys"

definition filterHomeEnv :: "string list \<Rightarrow> string list" where
  "filterHomeEnv env = filterEnvKeys env [''HOME'', ''USERPROFILE'', ''GEMINI_CLI_HOME'']"

definition filterVanadisChunkEnv :: "string list \<Rightarrow> string list" where
  "filterVanadisChunkEnv env = filterEnvKeys env [''AERIAL_VANADIS_CHUNK_ID'', ''VANADIS_CHUNK_ID'', ''AERIAL_TARGET_ID'']"

definition isHeadlessTarget :: "string \<Rightarrow> bool" where
  "isHeadlessTarget t = (hasPrefix t ''heartbeat-'' \<or> hasPrefix t ''dispatch-'' \<or> hasPrefix t ''worker-'' \<or> hasPrefix t ''vanadis-'')"

definition NormalizeEnvTargetID :: "string \<Rightarrow> string" where
  "NormalizeEnvTargetID id0 =
     (let clean = trimSpace id0 in
      if clean = [] then []
      else let idx = lastIndexByte (CHR '':'') clean; suffix = trimSpace (drop (nat (idx + 1)) clean) in
        if idx \<ge> 0 \<and> \<not> hasPrefix suffix ''discord-'' then []
        else let clean1 = (if idx \<ge> 0 then suffix else clean)
             in if isHeadlessTarget clean1 then [] else trimSpace (trimPrefix clean1 ''discord-''))"

definition BuildAgyEnv :: "AgyEnvInput \<Rightarrow> string list" where
  "BuildAgyEnv input =
     (let base0 = FilterAgyBaseEnv (filterVanadisChunkEnv (ae_BaseEnv input));
          base = (if trimSpace (ae_HomeDir input) \<noteq> [] then filterHomeEnv base0 else base0);
          h = trimSpace (ae_HomeDir input); k = trimSpace (ae_APIKey input); t = NormalizeEnvTargetID (ae_TargetID input);
          tz = trimSpace (ae_Timezone input)
      in (if ae_BaseEnv input \<noteq> [] then base else [])
         @ [''GIT_TERMINAL_PROMPT=0'', ''AGY_LOG_LEVEL=debug'', ''ANTIGRAVITY_LOG_LEVEL=debug'']
         @ (if h \<noteq> [] then [''HOME='' @ h, ''USERPROFILE='' @ h, ''GEMINI_CLI_HOME='' @ h] else [])
         @ (if k \<noteq> [] then [''GEMINI_API_KEY='' @ k, ''ANTIGRAVITY_API_KEY='' @ k, ''GOOGLE_GENAI_API_KEY='' @ k] else [])
         @ (if t \<noteq> [] then [''AERIAL_TARGET_ID='' @ t] else [])
         @ (if tz \<noteq> [] then [''TZ='' @ tz] else [])
         @ ae_ExtraEnv input)"

section \<open>Process arguments\<close>

record DaemonArgs =
  da_SessionID :: string
  da_Model :: string
  da_Timeout :: int

definition BuildDaemonArgs :: "DaemonArgs \<Rightarrow> string list" where
  "BuildDaemonArgs cfg =
     (let t = (if da_Timeout cfg \<le> 0 then 60 * 60000000000 else da_Timeout cfg); secs = t div 1000000000 in
      [''--dangerously-skip-permissions'', ''--input-format'', ''stream-json'', ''--output-format'', ''stream-json'']
      @ (if da_SessionID cfg \<noteq> [] then [''--conversation'', da_SessionID cfg] else [])
      @ (if da_Model cfg \<noteq> [] then [''--model'', da_Model cfg] else [])
      @ [''--print-timeout'', if secs mod 60 = 0 then itoa (t div 60000000000) @ ''m'' else itoa secs @ ''s''])"

section \<open>Tool and skill names\<close>

text \<open>Strip quotes and backslashes while the text starts with one; each round shortens it.\<close>

definition quoteCutset :: string where
  "quoteCutset = [CHR 0x5C, CHR 0x22, CHR '' '', CHR 0x09, CHR 0x0D, CHR 0x0A]"

lemma trimChars_shorter: "s \<noteq> [] \<Longrightarrow> hd s \<in> set cs \<Longrightarrow> length (trimChars cs s) < length s"
proof -
  assume "s \<noteq> []" "hd s \<in> set cs"
  then have "length (dropWhile (\<lambda>c. c \<in> set cs) s) < length s" by (cases s) (auto simp: le_imp_less_Suc length_dropWhile_le)
  then show ?thesis unfolding trimChars_def
    by (metis length_dropWhile_le length_rev order.strict_trans1)
qed

function unquoteLoop :: "string \<Rightarrow> string" where
  "unquoteLoop s =
     (if length s \<ge> 2 \<and> (hd s = CHR 0x22 \<or> hd s = CHR 0x5C) then unquoteLoop (trimChars quoteCutset s) else s)"
  by pat_completeness auto
termination
proof (relation "measure length", simp_all, elim conjE)
  fix s :: string
  assume "2 \<le> length s" "hd s = CHR 0x22 \<or> hd s = CHR 0x5C"
  then show "length (trimChars quoteCutset s) < length s"
    by (intro trimChars_shorter) (auto simp: quoteCutset_def)
qed

declare unquoteLoop.simps [simp del]

definition CleanUnescapedString :: "string \<Rightarrow> string" where
  "CleanUnescapedString s = unquoteLoop (trimSpace s)"

text \<open>The server and tool parameters of an MCP call, when they are strings; \<open>None\<close> for no parameters.\<close>

type_synonym mcpParams = "(string option \<times> string option) option"

definition extractCallMCPToolInfo :: "mcpParams \<Rightarrow> string \<times> string" where
  "extractCallMCPToolInfo params =
     (case params of
        None \<Rightarrow> (''call_mcp_tool'', ''unknown'')
      | Some (server, tool) \<Rightarrow>
          let sName = (case server of Some v \<Rightarrow> CleanUnescapedString v | None \<Rightarrow> []);
              tName = (case tool of Some v \<Rightarrow> CleanUnescapedString v | None \<Rightarrow> [])
          in if tName \<noteq> [] \<and> sName \<noteq> [] then (tName, sName)
             else if tName \<noteq> [] then (tName, ''unknown'')
             else if sName \<noteq> [] then (''call_mcp_tool'', sName)
             else (''call_mcp_tool'', ''unknown''))"

definition ExtractMCPToolInfo :: "string \<Rightarrow> mcpParams \<Rightarrow> string \<times> string" where
  "ExtractMCPToolInfo toolName0 params =
     (let toolName = trimSpace toolName0 in
      if toolName = [] then (''unknown'', ''native'')
      else if toolName = ''call_mcp_tool'' then extractCallMCPToolInfo params
      else if hasPrefix toolName ''mcp_'' then
        (case strCut (drop 4 toolName) ''_'' of
           Some (server, tool) \<Rightarrow> if server \<noteq> [] \<and> tool \<noteq> [] then (tool, server) else (toolName, ''native'')
         | None \<Rightarrow> if drop 4 toolName \<noteq> [] then (drop 4 toolName, ''unknown'') else (toolName, ''native''))
      else (toolName, ''native''))"

definition isSkillNameChar :: "char \<Rightarrow> bool" where
  "isSkillNameChar c = (lowerLetter c \<or> isDigit c \<or> c = CHR ''-'' \<or> c = CHR ''_'')"

definition isReservedSkillDir :: "string \<Rightarrow> bool" where
  "isReservedSkillDir name = (name \<in> set [''skills'', ''custom-skills'', ''common'', ''discord'', ''voice'', ''ephemeral'', ''builtin''])"

definition isValidSkillName :: "string \<Rightarrow> bool" where
  "isValidSkillName name =
     (\<not> (length name = 0 \<or> length name > 64 \<or> isReservedSkillDir name \<or> hd name = CHR ''-'' \<or> hd name = CHR ''_''
         \<or> last name = CHR ''-'' \<or> last name = CHR ''_'') \<and> list_all isSkillNameChar name)"

definition skillSeparators :: string where
  "skillSeparators = [CHR ''/'', CHR 0x5C, CHR '' '', CHR 0x09, CHR 0x0A, CHR 0x0D, CHR 0x22, CHR 0x27, CHR 0x60, CHR ''='', CHR '':'']"

text \<open>The skill whose directory stands right before a marker at an index, if that occurrence counts.\<close>

definition skillBefore :: "string \<Rightarrow> nat \<Rightarrow> string option" where
  "skillBefore s idx =
     (let after = drop (idx + 8) s;
          validAfter = (after = [] \<or> (\<not> isSkillNameChar (hd after) \<and> hd after \<notin> {CHR ''.'', CHR ''/'', CHR 0x5C}));
          prefix = take (idx - 1) s;
          skill = trimSuffix (rev (takeWhile (\<lambda>c. c \<notin> set skillSeparators) (rev prefix))) ''.tmp''
      in if idx > 0 \<and> s ! (idx - 1) \<in> {CHR ''/'', CHR 0x5C} \<and> validAfter \<and> isValidSkillName skill then Some skill else None)"

function skillLoop :: "string \<Rightarrow> string option" where
  "skillLoop s =
     (case strIndex s ''SKILL.md'' of
        None \<Rightarrow> None
      | Some idx \<Rightarrow> (case skillBefore s idx of Some skill \<Rightarrow> Some skill | None \<Rightarrow> skillLoop (drop (idx + 8) s)))"
  by pat_completeness auto
termination
  by (relation "measure length") (auto dest: strIndex_bound)

declare skillLoop.simps [simp del]

definition ExtractSkillFromTarget :: "string \<Rightarrow> string option" where
  "ExtractSkillFromTarget target = skillLoop (replaceAll [CHR 0x5C, CHR 0x22] [CHR 0x22] (trimSpace target))"

section \<open>The prompt of a turn\<close>

record TurnContext =
  tc_TurnID :: string
  tc_SessionID :: string
  tc_Model :: string
  tc_Prompt :: string
  tc_MemoryQuery :: string
  tc_ScopeInstructions :: string
  tc_ChannelInstructions :: string
  tc_CoordinationContext :: string
  tc_ThreadSummary :: string

definition nl :: string where
  "nl = [CHR 0x0A]"

definition appendSection :: "string \<Rightarrow> string \<Rightarrow> string \<Rightarrow> string" where
  "appendSection p tag content =
     (let c = trimSpace content in
      if c \<noteq> [] \<and> \<not> contains p (''<'' @ tag @ ''>'')
      then ''<'' @ tag @ ''>'' @ nl @ c @ nl @ ''</'' @ tag @ ''>'' @ nl @ nl @ p else p)"

definition compileLeasePrompt :: "TurnContext \<Rightarrow> bool \<Rightarrow> string \<Rightarrow> string" where
  "compileLeasePrompt turn isCold prevSessID =
     (let p = tc_Prompt turn;
          scope = trimSpace (if tc_ScopeInstructions turn \<noteq> [] then tc_ScopeInstructions turn else tc_ChannelInstructions turn);
          p1 = (if scope \<noteq> [] \<and> \<not> contains p ''<SCOPE_INSTRUCTIONS>'' \<and> \<not> contains p ''<CHANNEL_INSTRUCTIONS>''
                then ''<SCOPE_INSTRUCTIONS>'' @ nl @ ''Scope-specific guidelines for this conversation:'' @ nl @ nl @ scope @ nl
                     @ ''</SCOPE_INSTRUCTIONS>'' @ nl @ nl @ p else p);
          p2 = (if prevSessID \<noteq> [] then appendSection p1 ''PREVIOUS_SESSION'' (''Previous Session ID: '' @ prevSessID) else p1);
          p3 = appendSection p2 ''THREAD_SUMMARY'' (tc_ThreadSummary turn)
      in appendSection (if isCold then p3 else p) ''COORDINATION_CONTEXT'' (tc_CoordinationContext turn))"

text \<open>A retriever answers with a block, or none on an error; it is absent when it is not configured.\<close>

definition fetchBlock :: "string \<Rightarrow> string \<Rightarrow> (string option) option \<Rightarrow> string \<Rightarrow> string" where
  "fetchBlock prompt tag run payload =
     (case run of
        None \<Rightarrow> payload
      | Some answer \<Rightarrow>
          if contains prompt tag then payload
          else (case answer of
                  Some block \<Rightarrow> if trimSpace block \<noteq> [] then trimSpace block @ nl @ nl @ payload else payload
                | None \<Rightarrow> payload))"

definition injectRetrievedContext :: "string \<Rightarrow> string \<Rightarrow> string option option \<Rightarrow> (string \<Rightarrow> string option) option \<Rightarrow> string" where
  "injectRetrievedContext prompt memQuery amb mem =
     (let payload = fetchBlock prompt ''<ambient_context>'' amb prompt;
          q = (if trimSpace memQuery = [] then prompt else trimSpace memQuery)
      in fetchBlock prompt ''<retrieved_memory>'' (map_option (\<lambda>f. f q) mem) payload)"

section \<open>Memory lines already shown\<close>

definition extractMemoryLineID :: "string \<Rightarrow> string" where
  "extractMemoryLineID line =
     (let trimmed = trimSpace line in
      if \<not> hasPrefix trimmed ''- [id:'' then []
      else (case strCut (drop 6 trimmed) '']'' of Some (i, _) \<Rightarrow> i | None \<Rightarrow> []))"

text \<open>The lines kept and the ids seen after them; a line without an id is always kept.\<close>

fun keepLines :: "string list \<Rightarrow> string set \<Rightarrow> string list \<times> string set" where
  "keepLines [] seen = ([], seen)"
| "keepLines (line # ls) seen =
     (let i = extractMemoryLineID line in
      if i \<noteq> [] \<and> i \<in> seen then keepLines ls seen
      else let (kept, seen1) = keepLines ls (if i \<noteq> [] then insert i seen else seen) in (line # kept, seen1))"

definition dropBreak :: "string \<Rightarrow> string" where
  "dropBreak s = trimPrefix (trimPrefix s [CHR 0x0D, CHR 0x0A]) nl"

text \<open>The first memory block of a prompt: what stands before it, its lines and what stands after it.\<close>

definition memoryBlock :: "string \<Rightarrow> (string \<times> string list \<times> string) option" where
  "memoryBlock prompt =
     (case strCut prompt ''<retrieved_memory>'' of
        None \<Rightarrow> None
      | Some (before, rest) \<Rightarrow>
          (case strCut (''<retrieved_memory>'' @ rest) ''</retrieved_memory>'' of
             None \<Rightarrow> None
           | Some (block, after) \<Rightarrow>
               let inner = trimChars [CHR 0x0D, CHR 0x0A] (drop 18 block)
               in if inner = [] then None else Some (before, splitOn (CHR 0x0A) inner, after)))"

definition deduplicateRetrievedMemory :: "string \<Rightarrow> string set \<Rightarrow> string \<times> string set" where
  "deduplicateRetrievedMemory prompt seen =
     (case memoryBlock prompt of
        None \<Rightarrow> (prompt, seen)
      | Some (before, ls, after) \<Rightarrow>
          let (kept, seen1) = keepLines ls seen in
          if length kept = length ls then (prompt, seen1)
          else if kept = [] then (trimSpace (before @ dropBreak (dropBreak after)), seen1)
          else (before @ ''<retrieved_memory>'' @ nl @ joinWith nl kept @ nl @ ''</retrieved_memory>'' @ after, seen1))"

section \<open>Outcomes\<close>

definition IsSubstantiveResponse :: "string \<Rightarrow> bool" where
  "IsSubstantiveResponse t =
     (let trimmed = trimSpace t in
      if trimmed = [] \<or> hasPrefix trimmed ''[Tool Call Requested]:'' then False
      else \<not> hasPrefix trimmed ''<turn>'' \<or> contains trimmed ''</turn>'')"

definition hasKeyword :: "string \<Rightarrow> string list \<Rightarrow> bool" where
  "hasKeyword s keywords = list_ex (\<lambda>kw. contains s kw) keywords"

definition hasCorruptionKeyword :: "string \<Rightarrow> bool" where
  "hasCorruptionKeyword lower = hasKeyword lower [''session corrupt'', ''corrupted session'', ''invalid session'', ''session not found'',
     ''failed to load conversation'', ''corrupted transcript'', ''failed to parse session'', ''stream was interrupted'', ''the stream was interrupted'']"

definition hasContextWindowKeyword :: "string \<Rightarrow> bool" where
  "hasContextWindowKeyword lower = hasKeyword lower [''context window'', ''context length'', ''maximum context length'', ''token limit exceeded'',
     ''prompt is too long'', ''request too large'']"

definition nonTransientKeywords :: "string list" where
  "nonTransientKeywords = [''invalid api key'', ''invalid_api_key'', ''authentication failed'', ''unauthorized'', ''permission_denied'',
     ''permissiondenied'', ''unknown flag'', ''flag provided but not defined'', ''unknown command'', ''executable file not found'',
     ''command not found'', ''is not recognized as an internal or external command'', ''model not found'', ''panic:'']"

definition isNonTransientError :: "string \<Rightarrow> bool" where
  "isNonTransientError s =
     (if contains (toUpper s) ''MODEL_PLACEHOLDER_'' then False
      else let lower = toLower s in
        hasKeyword lower nonTransientKeywords
        \<or> (contains lower ''fork/exec'' \<and> (contains lower ''no such file or directory'' \<or> contains lower ''permission denied'')))"

definition IsQuotaPause :: "string \<Rightarrow> string \<Rightarrow> bool" where
  "IsQuotaPause errDetail stderr =
     (let combined = toLower (errDetail @ nl @ stderr) in
      if contains combined ''individual quota reached'' \<or> contains combined ''please upgrade your subscription''
         \<or> contains combined ''exhausted your capacity on this model'' \<or> contains combined ''brain bucket resets in'' then True
      else let hasQuotaWord = contains combined ''quota'' \<or> contains combined ''resource_exhausted'' \<or> contains combined ''resource has been exhausted'';
               hasResetTimer = contains combined ''resets in'' \<or> contains combined ''reset after''
           in hasQuotaWord \<and> (hasResetTimer \<or> contains combined ''upgrade your subscription''))"

definition hasCapacityPhrases :: "string \<Rightarrow> bool" where
  "hasCapacityPhrases combined =
     (if contains combined ''individual quota reached'' \<or> contains combined ''upgrade your subscription'' \<or> contains combined ''exceeded your current quota''
      then False
      else contains combined ''capacity on this model'' \<or> contains combined ''exhausted your capacity'' \<or> contains combined ''rate limit reached''
           \<or> contains combined ''rate limit exceeded'')"

definition isWatchdogMatch :: "string \<Rightarrow> string \<Rightarrow> bool" where
  "isWatchdogMatch s key = (let lower = toLower s in contains lower (key @ '' exceeded'') \<or> (contains lower ''[watchdog]'' \<and> contains lower key))"

definition IsInactivityTimeout :: "string \<Rightarrow> string \<Rightarrow> bool" where
  "IsInactivityTimeout errDetail stderr =
     (let c = errDetail @ nl @ stderr in isWatchdogMatch c ''inactivity timeout'' \<or> isWatchdogMatch c ''inactivity'')"

record TurnResult =
  tr_ConversationID :: string
  tr_Response :: string
  tr_Stderr :: string

record TurnOutcome =
  to_Response :: string
  to_IsSuccess :: bool
  to_IsTransient :: bool
  to_IsSessionCorruption :: bool
  to_ErrorDetail :: string
  to_SessionID :: string

definition isTransientDetail :: "string \<Rightarrow> bool" where
  "isTransientDetail errDetail =
     (let lowerErr = toLower errDetail in
      IsQuotaPause errDetail [] \<or> contains lowerErr ''resource_exhausted'' \<or> contains lowerErr ''429'' \<or> contains lowerErr ''rate limit''
      \<or> contains lowerErr ''out of memory'' \<or> contains lowerErr ''transient''
      \<or> (\<not> isNonTransientError errDetail \<and> \<not> contains lowerErr ''unrecoverable''))"

text \<open>What an error text says of a turn that produced no response.\<close>

definition classifyError :: "string \<Rightarrow> TurnOutcome \<Rightarrow> TurnOutcome" where
  "classifyError errDetail outcome =
     (let lowerErr = toLower errDetail; failed = outcome\<lparr>to_ErrorDetail := errDetail\<rparr> in
      if hasContextWindowKeyword lowerErr
      then failed\<lparr>to_ErrorDetail := ''prompt length exceeds maximum model context window (hard failure)''\<rparr>
      else if hasCorruptionKeyword lowerErr then failed\<lparr>to_IsSessionCorruption := True\<rparr>
      else if isTransientDetail errDetail then failed\<lparr>to_IsTransient := True\<rparr> else failed)"

text \<open>The token usage and the duration are carried over and not modelled.\<close>

definition Resolve :: "TurnResult option \<Rightarrow> string option \<Rightarrow> string \<Rightarrow> TurnOutcome" where
  "Resolve res err sessionID =
     (let sid = (case res of Some r \<Rightarrow> if tr_ConversationID r \<noteq> [] \<and> sessionID = [] then tr_ConversationID r else sessionID | None \<Rightarrow> sessionID);
          outcome = \<lparr>to_Response = [], to_IsSuccess = False, to_IsTransient = False, to_IsSessionCorruption = False, to_ErrorDetail = [],
                     to_SessionID = sid\<rparr>;
          errDetail = (case err of
             Some e \<Rightarrow> e
           | None \<Rightarrow> (case res of
                Some r \<Rightarrow> if trimSpace (tr_Response r) = [] then ''daemon turn completed with empty response'' else ''unknown execution failure''
              | None \<Rightarrow> ''unknown execution failure''))
      in case res of
           Some r \<Rightarrow> if IsSubstantiveResponse (tr_Response r)
                     then outcome\<lparr>to_IsSuccess := True, to_Response := trimSpace (tr_Response r)\<rparr> else classifyError errDetail outcome
         | None \<Rightarrow> classifyError errDetail outcome)"

section \<open>The environment carries no secret of the service\<close>

lemma filterEnvKeys_not: "e \<in> set (filterEnvKeys env ks) \<Longrightarrow> strCut e ''='' = Some (k, v) \<Longrightarrow> envKey k \<notin> set (map envKey ks)"
  by (simp add: filterEnvKeys_def)

lemma filterEnvKeys_sub: "e \<in> set (filterEnvKeys env ks) \<Longrightarrow> e \<in> set env"
  by (simp add: filterEnvKeys_def)

lemma keys_normal:
  "map envKey secretKeys = secretKeys"
  "map envKey [''AERIAL_VANADIS_CHUNK_ID'', ''VANADIS_CHUNK_ID'', ''AERIAL_TARGET_ID''] = [''AERIAL_VANADIS_CHUNK_ID'', ''VANADIS_CHUNK_ID'', ''AERIAL_TARGET_ID'']"
  "map envKey [''HOME'', ''USERPROFILE'', ''GEMINI_CLI_HOME''] = [''HOME'', ''USERPROFILE'', ''GEMINI_CLI_HOME'']"
  by code_simp+

lemma filters_not:
  "e \<in> set (FilterAgyBaseEnv env) \<Longrightarrow> strCut e ''='' = Some (k, v) \<Longrightarrow> envKey k \<notin> set secretKeys"
  "e \<in> set (filterVanadisChunkEnv env) \<Longrightarrow> strCut e ''='' = Some (k, v) \<Longrightarrow>
     envKey k \<notin> {''AERIAL_VANADIS_CHUNK_ID'', ''VANADIS_CHUNK_ID'', ''AERIAL_TARGET_ID''}"
  "e \<in> set (filterHomeEnv env) \<Longrightarrow> strCut e ''='' = Some (k, v) \<Longrightarrow> envKey k \<notin> {''HOME'', ''USERPROFILE'', ''GEMINI_CLI_HOME''}"
  using filterEnvKeys_not [of e env secretKeys k v]
    filterEnvKeys_not [of e env "[''AERIAL_VANADIS_CHUNK_ID'', ''VANADIS_CHUNK_ID'', ''AERIAL_TARGET_ID'']" k v]
    filterEnvKeys_not [of e env "[''HOME'', ''USERPROFILE'', ''GEMINI_CLI_HOME'']" k v]
  unfolding keys_normal FilterAgyBaseEnv_def filterVanadisChunkEnv_def filterHomeEnv_def by simp_all

text \<open>What may be said of one variable of the environment.\<close>

definition envOk :: "AgyEnvInput \<Rightarrow> string \<Rightarrow> string \<Rightarrow> bool" where
  "envOk input key v =
     (key \<notin> set secretKeys \<and> key \<noteq> ''AERIAL_VANADIS_CHUNK_ID'' \<and> key \<noteq> ''VANADIS_CHUNK_ID''
      \<and> (key = ''AERIAL_TARGET_ID'' \<longrightarrow> v = NormalizeEnvTargetID (ae_TargetID input) \<and> v \<noteq> [])
      \<and> (trimSpace (ae_HomeDir input) \<noteq> [] \<and> key \<in> {''HOME'', ''USERPROFILE'', ''GEMINI_CLI_HOME''} \<longrightarrow> v = trimSpace (ae_HomeDir input)))"

lemma plain_keys:
  "list_all (\<lambda>k. envKey k = k \<and> k \<notin> set secretKeys)
     [''GIT_TERMINAL_PROMPT'', ''AGY_LOG_LEVEL'', ''ANTIGRAVITY_LOG_LEVEL'', ''HOME'', ''USERPROFILE'', ''GEMINI_CLI_HOME'', ''AERIAL_TARGET_ID'', ''TZ'']"
  by code_simp

lemmas plain_key = plain_keys [simplified list.pred_inject conj_assoc]

lemma base_env_ok:
  assumes "strCut e ''='' = Some (k, v)"
    "e \<in> set (if trimSpace (ae_HomeDir input) \<noteq> [] then filterHomeEnv (FilterAgyBaseEnv (filterVanadisChunkEnv env)) else FilterAgyBaseEnv (filterVanadisChunkEnv env))"
  shows "envOk input (envKey k) v"
proof -
  have e: "e \<in> set (FilterAgyBaseEnv (filterVanadisChunkEnv env))"
  proof (cases "trimSpace (ae_HomeDir input) \<noteq> []")
    case True
    then have "e \<in> set (filterHomeEnv (FilterAgyBaseEnv (filterVanadisChunkEnv env)))" using assms(2) by presburger
    then show ?thesis unfolding filterHomeEnv_def by (rule filterEnvKeys_sub)
  next
    case False
    then show ?thesis using assms(2) by presburger
  qed
  then have "e \<in> set (filterVanadisChunkEnv env)" unfolding FilterAgyBaseEnv_def by (rule filterEnvKeys_sub)
  note f = filters_not(1) [OF e assms(1)] filters_not(2) [OF this assms(1)]
  have "trimSpace (ae_HomeDir input) \<noteq> [] \<Longrightarrow> envKey k \<notin> {''HOME'', ''USERPROFILE'', ''GEMINI_CLI_HOME''}"
    using assms(2) filters_not(3) [OF _ assms(1), of "FilterAgyBaseEnv (filterVanadisChunkEnv env)"] by (simp only: simp_thms if_True)
  then show ?thesis using f unfolding envOk_def by blast
qed

lemma fixed_env_ok:
  assumes "strCut (u @ ''='' @ w) ''='' = Some (k, v)" "CHR ''='' \<notin> set u" "envKey u = u" "envOk input u w"
  shows "envOk input (envKey k) v"
  using assms strCut_char [of "CHR ''=''" u w] by simp

lemma own_env_ok:
  "envOk input ''GIT_TERMINAL_PROMPT'' v" "envOk input ''AGY_LOG_LEVEL'' v" "envOk input ''ANTIGRAVITY_LOG_LEVEL'' v"
  "envOk input ''HOME'' (trimSpace (ae_HomeDir input))" "envOk input ''USERPROFILE'' (trimSpace (ae_HomeDir input))"
  "envOk input ''GEMINI_CLI_HOME'' (trimSpace (ae_HomeDir input))" "envOk input ''TZ'' v"
  "NormalizeEnvTargetID (ae_TargetID input) \<noteq> [] \<Longrightarrow> envOk input ''AERIAL_TARGET_ID'' (NormalizeEnvTargetID (ae_TargetID input))"
  by (simp_all add: envOk_def plain_key)

text \<open>The variables of \<^const>\<open>BuildAgyEnv\<close> when no key and no extra variable is passed.\<close>

definition ownEnv :: "AgyEnvInput \<Rightarrow> (string \<times> string) list" where
  "ownEnv input =
     [(''GIT_TERMINAL_PROMPT'', ''0''), (''AGY_LOG_LEVEL'', ''debug''), (''ANTIGRAVITY_LOG_LEVEL'', ''debug''),
      (''HOME'', trimSpace (ae_HomeDir input)), (''USERPROFILE'', trimSpace (ae_HomeDir input)), (''GEMINI_CLI_HOME'', trimSpace (ae_HomeDir input)),
      (''TZ'', trimSpace (ae_Timezone input))]
     @ (let t = NormalizeEnvTargetID (ae_TargetID input) in if t \<noteq> [] then [(''AERIAL_TARGET_ID'', t)] else [])"

lemma ownEnv_ok: "(u, w) \<in> set (ownEnv input) \<Longrightarrow> CHR ''='' \<notin> set u \<and> envKey u = u \<and> envOk input u w"
  by (auto simp: ownEnv_def own_env_ok plain_key Let_def split: if_splits)

lemma in_when: "e \<in> set (if b then xs else []) \<Longrightarrow> b \<and> e \<in> set xs"
  by (cases b) simp_all

lemma rendered_env:
  "(\<lambda>p. fst p @ ''='' @ snd p) ` set (ownEnv input) =
     {''GIT_TERMINAL_PROMPT=0'', ''AGY_LOG_LEVEL=debug'', ''ANTIGRAVITY_LOG_LEVEL=debug'', ''HOME='' @ trimSpace (ae_HomeDir input),
      ''USERPROFILE='' @ trimSpace (ae_HomeDir input), ''GEMINI_CLI_HOME='' @ trimSpace (ae_HomeDir input), ''TZ='' @ trimSpace (ae_Timezone input)}
     \<union> (let t = NormalizeEnvTargetID (ae_TargetID input) in if t \<noteq> [] then {''AERIAL_TARGET_ID='' @ t} else {})"
  unfolding ownEnv_def Let_def set_append image_Un by (intro arg_cong2 [where f = "(\<union>)"]) simp_all

lemma built_env:
  assumes "e \<in> set (BuildAgyEnv input)" "e \<notin> set (ae_ExtraEnv input)" "trimSpace (ae_APIKey input) = []"
  shows "e \<in> set (if trimSpace (ae_HomeDir input) \<noteq> [] then filterHomeEnv (FilterAgyBaseEnv (filterVanadisChunkEnv (ae_BaseEnv input)))
       else FilterAgyBaseEnv (filterVanadisChunkEnv (ae_BaseEnv input)))
    \<or> e \<in> (\<lambda>p. fst p @ ''='' @ snd p) ` set (ownEnv input)"
  using assms(1) unfolding BuildAgyEnv_def Let_def set_append Un_iff rendered_env list.set
proof (elim disjE, goal_cases)
  case 1
  from in_when [OF this] show ?case by (intro disjI1) (rule conjunct2)
next
  case 2
  then show ?case by (elim insertE emptyE) (simp_all only: insert_iff Un_iff HOL.simp_thms)
next
  case 3
  from in_when [OF this] show ?case unfolding list.set by (elim conjE insertE emptyE) (simp_all only: insert_iff Un_iff HOL.simp_thms)
next
  case 4
  from in_when [OF this] assms(3) show ?case by (elim conjE) (rule notE)
next
  case 5
  from in_when [OF this] show ?case unfolding list.set by (elim conjE insertE emptyE) (simp only: insert_iff Un_iff HOL.simp_thms if_True)
next
  case 6
  from in_when [OF this] show ?case unfolding list.set by (elim conjE insertE emptyE) (simp only: insert_iff Un_iff HOL.simp_thms)
next
  case 7
  with assms(2) show ?case by (rule notE)
qed


definition sampleEnv :: AgyEnvInput where
  "sampleEnv = \<lparr>ae_BaseEnv = [''PATH=/bin'', ''github_pat =x'', ''AERIAL_TARGET_ID=7'', ''HOME=/root''], ae_HomeDir = ''/home/a'', ae_APIKey = [],
     ae_TargetID = ''discord-42'', ae_Timezone = [], ae_ExtraEnv = []\<rparr>"


section \<open>A memory is shown once in a conversation\<close>

text \<open>The memory lines sent with a sequence of prompts, and the ids seen after it.\<close>

fun shownLines :: "string list \<Rightarrow> string set \<Rightarrow> string list \<times> string set" where
  "shownLines [] seen = ([], seen)"
| "shownLines (p # ps) seen =
     (let kept = (case memoryBlock p of Some (_, ls, _) \<Rightarrow> fst (keepLines ls seen) | None \<Rightarrow> []);
          (later, seen1) = shownLines ps (snd (deduplicateRetrievedMemory p seen)) in (kept @ later, seen1))"

text \<open>The memory lines of the prompts before anything is removed.\<close>

definition memoryLines :: "string list \<Rightarrow> string list" where
  "memoryLines ps = concat (map (\<lambda>p. case memoryBlock p of Some (_, ls, _) \<Rightarrow> ls | None \<Rightarrow> []) ps)"

lemma keepLines_Cons:
  "fst (keepLines (l # ls) seen) =
     (let i = extractMemoryLineID l in
      if i \<noteq> [] \<and> i \<in> seen then fst (keepLines ls seen) else l # fst (keepLines ls (if i \<noteq> [] then insert i seen else seen)))"
  "snd (keepLines (l # ls) seen) =
     (let i = extractMemoryLineID l in
      if i \<noteq> [] \<and> i \<in> seen then snd (keepLines ls seen) else snd (keepLines ls (if i \<noteq> [] then insert i seen else seen)))"
  by (simp_all add: Let_def split: prod.splits)

lemma keepLines_seen: "snd (keepLines ls seen) = seen \<union> (extractMemoryLineID ` set ls - {[]})"
  by (induction ls arbitrary: seen) (auto simp: keepLines_Cons Let_def simp del: keepLines.simps(2))

lemma keepLines_count:
  "i \<noteq> [] \<Longrightarrow> length (filter (\<lambda>l. extractMemoryLineID l = i) (fst (keepLines ls seen)))
     = (if i \<notin> seen \<and> i \<in> extractMemoryLineID ` set ls then 1 else 0)"
  by (induction ls arbitrary: seen) (auto simp: keepLines_Cons Let_def simp del: keepLines.simps(2) length_0_conv)

lemma keepLines_plain: "filter (\<lambda>l. extractMemoryLineID l = []) (fst (keepLines ls seen)) = filter (\<lambda>l. extractMemoryLineID l = []) ls"
  by (induction ls arbitrary: seen) (auto simp: keepLines_Cons Let_def simp del: keepLines.simps(2))

lemma memoryLines_Cons:
  "memoryLines (p # ps) = (case memoryBlock p of Some (_, ls, _) \<Rightarrow> ls | None \<Rightarrow> []) @ memoryLines ps"
  by (simp add: memoryLines_def)

lemma shownLines_Cons:
  "fst (shownLines (p # ps) seen) =
     (case memoryBlock p of Some (_, ls, _) \<Rightarrow> fst (keepLines ls seen) | None \<Rightarrow> [])
     @ fst (shownLines ps (snd (deduplicateRetrievedMemory p seen)))"
  by (simp add: Let_def split: prod.splits)

lemma dedup_seen:
  "snd (deduplicateRetrievedMemory p seen) = (case memoryBlock p of Some (_, ls, _) \<Rightarrow> snd (keepLines ls seen) | None \<Rightarrow> seen)"
  by (auto simp: deduplicateRetrievedMemory_def Let_def split: option.splits prod.splits)


section \<open>The outcome of a turn\<close>

lemma substantive_trim [simp]: "IsSubstantiveResponse (trimSpace s) = IsSubstantiveResponse s"
  by (simp add: IsSubstantiveResponse_def)

lemma classifyError_fields:
  "to_IsSuccess (classifyError e out) = to_IsSuccess out" "to_Response (classifyError e out) = to_Response out"
  "to_SessionID (classifyError e out) = to_SessionID out"
  by (simp_all add: classifyError_def Let_def)

lemma classifyError_class:
  assumes "\<not> to_IsTransient out" "\<not> to_IsSessionCorruption out"
  shows "to_IsSessionCorruption (classifyError e out) \<longleftrightarrow> hasCorruptionKeyword (toLower e) \<and> \<not> hasContextWindowKeyword (toLower e)"
    "to_IsTransient (classifyError e out) \<longleftrightarrow>
       isTransientDetail e \<and> \<not> hasCorruptionKeyword (toLower e) \<and> \<not> hasContextWindowKeyword (toLower e)"
    "\<not> hasContextWindowKeyword (toLower e) \<Longrightarrow> to_ErrorDetail (classifyError e out) = e"
  using assms by (simp_all add: classifyError_def Let_def)



end
