(* ===== verification/Spec2Isabelle.thy ===== *)
theory Spec2Isabelle
  imports ThreadQueue AMD Audio VanadisServer BatchGuard HangarDeploy HaroOnce RunnerText
begin

text \<open>
  \<^bold>\<open>Verification of the Aerial monorepo.\<close>

  Aerial is a set of Go services around a chat-driven coding agent. \<^verbatim>\<open>services/eri\<close> receives
  messages and dispatches, queues them per thread and runs agent turns; its guard hooks
  (\<^verbatim>\<open>services/eri/pkg/guard\<close>) judge and rewrite every tool call of a turn.
  \<^verbatim>\<open>services/vanadis\<close> splits a large task into a build of ordered chunks, each of which is
  dispatched to eri and ends in a pull request whose merge starts the next chunk.
  \<^verbatim>\<open>services/prospera\<close> makes phone calls: it codes audio and decides when to speak.
  \<^verbatim>\<open>services/hangar\<close> keeps checkouts and deployments in sync with git.
  \<^verbatim>\<open>services/haro\<close> schedules recurring prompts, reminders and heartbeats, and prompts that wait for
  an event of the others. Synapse, coven and dashboard are connected services.

  \<^bold>\<open>Foundations.\<close> \<^verbatim>\<open>Prelude\<close> has results as sums, the \<^verbatim>\<open>strings\<close> functions on byte
  strings, and the interface \<^verbatim>\<open>inductive_invariant\<close> of a transition system with an
  invariant, which every stateful component interprets on its own step relation.
  \<^verbatim>\<open>GoStd\<close> has \<^verbatim>\<open>strconv\<close>, splitting and joining; \<^verbatim>\<open>GoPath\<close> has
  \<^verbatim>\<open>path/filepath\<close>; \<^verbatim>\<open>GoText\<close> has cutting, trimming, fields and \<^verbatim>\<open>bufio.Scanner\<close>.

  \<^bold>\<open>Execution queues.\<close> \<^verbatim>\<open>Messages\<close> has the work items of
  \<^verbatim>\<open>services/eri/pkg/db\<close>, session keys and the routing of a burst or dispatch to an effort tier
  and pool (\<^verbatim>\<open>queue/pool.go\<close>, \<^verbatim>\<open>queue/burst.go\<close>); routing is total and never
  picks the forbidden pool. \<^verbatim>\<open>ThreadQueue\<close> has \<^verbatim>\<open>EnqueueBurst\<close>,
  \<^verbatim>\<open>EnqueueDispatch\<close>, the worker goroutines, burst draining, idle pruning, the leader hold
  and the stop as a step relation in which every section under \<^verbatim>\<open>WorkerPool.mu\<close> is one step.
  In every reachable state each queue delivers what was sent to it exactly once and in order,
  no two live workers serve a thread, no non-empty queue loses its worker, bursts have one to
  five messages and a queue drains.

  \<^bold>\<open>Builds.\<close> \<^verbatim>\<open>VanadisStore\<close> has the two tables of \<^verbatim>\<open>services/vanadis\<close> as
  lists of rows with their constraints and every operation of \<^verbatim>\<open>PostgresVanadisStore\<close> that
  changes them; \<^verbatim>\<open>VanadisServer\<close> has the HTTP handlers and the chunk worker on top. The
  reachable stores are consistent (numbered chunks, known statuses, completed builds merged), a
  merged pull request starts exactly the next chunk, a cancelled build stays cancelled, and edits
  keep the numbering.

  \<^bold>\<open>Tool-call guards.\<close> \<^verbatim>\<open>ShellWords\<close> has the scanner of \<^verbatim>\<open>guard/sql.go\<close>,
  related to a grammar of rendered command lines by a round trip. \<^verbatim>\<open>SqlGuard\<close> has the
  inspection and rewriting of \<^verbatim>\<open>psql\<close> calls: a line is denied exactly when one of its statements
  offends, and quoting cannot hide a statement. \<^verbatim>\<open>ShareGuard\<close> has \<^verbatim>\<open>guard/share.go\<close>
  and the loop over all guards: no spelling of a path and no nesting of shell scripts gets a
  mutation of a read-only mount past it. \<^verbatim>\<open>BatchGuard\<close> has \<^verbatim>\<open>guard/batch.go\<close>: read
  windows contain what was asked for and are bounded, and the kept record of a conversation is
  bounded and free of stale reads.

  \<^bold>\<open>Agent runner.\<close> \<^verbatim>\<open>RunnerText\<close> has the pure parts of
  \<^verbatim>\<open>services/eri/pkg/runner\<close>: the environment of an agent process, which carries no credential of
  the service; its arguments, tool and skill names and prompt; the memory lines, each sent once to a daemon; and
  the classification of a turn's outcome.

  \<^bold>\<open>Deployment.\<close> \<^verbatim>\<open>HangarPure\<close> has the parsers of \<^verbatim>\<open>hangar/pure.go\<close>: image
  references, registry challenges and slugs round trip and are well formed, and the name status of
  a diff is classified entry by entry. \<^verbatim>\<open>HangarDeploy\<close> has \<^verbatim>\<open>hangar/reconcile.go\<close> and the
  event handlers of \<^verbatim>\<open>hangar/events.go\<close> over a state with the pending changes and the history of
  Nomad commands. The pending queue refines a flat buffer (interface \<^verbatim>\<open>change_buffer\<close>,
  interpreted on the daemon's operations), and every history is a safe deployment: stops only of
  jobs that nothing defines or that are being re-applied, runs only of validated files.

  \<^bold>\<open>Scheduling.\<close> \<^verbatim>\<open>HaroStore\<close> has the tables of \<^verbatim>\<open>haro/db.go\<close>, one definition per
  statement, and the rules of \<^verbatim>\<open>haro/pure.go\<close>; \<^verbatim>\<open>HaroTicker\<close> has the ticker of
  \<^verbatim>\<open>haro/ticker.go\<close>, whose three loops are proved through one interface \<^verbatim>\<open>due_loop\<close>:
  a tick sends exactly what is due, once, and nothing stays due. \<^verbatim>\<open>HaroServer\<close> has the tools of
  \<^verbatim>\<open>haro/tools.go\<close> and the handlers of \<^verbatim>\<open>haro/server.go\<close>: firing an event sends every
  watch that matches once and puts back what failed, and an accepted watch is found by its event.
  \<^verbatim>\<open>HaroOnce\<close> interleaves tickers, tools and handlers: a reminder is never sent more often than
  it was created.

  \<^bold>\<open>Telephony.\<close> \<^verbatim>\<open>AMD\<close> has the answering-machine controller of
  \<^verbatim>\<open>prospera/amd.go\<close> (the greeting is released once, a conversation is never turned into a
  voicemail, silence releases it); \<^verbatim>\<open>Audio\<close> has \<^verbatim>\<open>prospera/ulaw.go\<close> at machine
  width (mu-law and framing round trips, error bounds, resampling without overflow).

  \<^bold>\<open>Conventions.\<close> A struct is a record with the source's fields (prefixed where names clash), an
  operation returns the new state, an error is the left side of a sum or an option, and a loop is
  a structural recursion or a function with a termination measure; no definition uses fuel. Machine
  integers are words in \<^verbatim>\<open>Audio\<close>; elsewhere they are unbounded, and the bounds theorems say
  where that is the same. Files, clocks, databases, subprocesses, network peers and language models are
  arguments of the definitions; the hypotheses on them, if any, are in the theorems. Strings are
  bytes; lower-casing is exact for ASCII and for every comparison with an ASCII literal.

  \<^bold>\<open>Not modelled.\<close> Rendering of prompts, widgets and chat messages; metrics and logs; JSON and YAML
  decoding; regular-expression redaction; SQL connections and their failures; timers and deadlines;
  the interrupt path of a turn; checkouts, bundles and the configuration push of hangar; the search,
  commit and schedule guards (parameters of the guard loop); synapse, coven, dashboard and
  the MCP servers. They are input and output around the modelled decisions, or left to a later
  extension, for which the runner pools of eri and hangar's bundles come first.
\<close>

end
